(* ===== verification/Prelude.thy ===== *)
theory Prelude
  imports Main "HOL-Library.AList" "HOL-Library.Char_ord" "HOL-Library.List_Lexorder"
    "HOL-Library.Product_Lexorder"
begin

text \<open>
  Shared vocabulary of the development: the types every component uses (byte strings,
  instants, durations, the Go error chain, Go maps), Go's 64-bit integer wrap-around, and
  the generic lemmas on association lists, folds and filters that the component
  proofs rest on.
\<close>

section \<open>Types\<close>

text \<open>A Go string and a byte slice are both sequences of bytes.\<close>

type_synonym bytes = "char list"

text \<open>
  \<open>time.Time\<close> is read as nanoseconds since the Unix epoch, \<open>time.Duration\<close> as
  nanoseconds. The zero \<open>time.Time\<close> is 1 January of year 1.
\<close>

type_synonym time = int
type_synonym duration = int

definition second :: duration where
  "second = 1000000000"

definition zero_time :: time where
  "zero_time = - 62135596800 * second"

definition unix_seconds :: "time \<Rightarrow> int" where
  "unix_seconds t = t div second"

definition time_of_unix :: "int \<Rightarrow> time" where
  "time_of_unix s = s * second"

lemma unix_seconds_time_of_unix [simp]: "unix_seconds (time_of_unix s) = s"
  by (simp add: unix_seconds_def time_of_unix_def second_def)

lemma time_of_unix_truncates:
  "time_of_unix (unix_seconds t) \<le> t \<and> t < time_of_unix (unix_seconds t) + second"
  unfolding time_of_unix_def unix_seconds_def second_def by linarith

section \<open>Errors\<close>

text \<open>
  A Go error is a chain: its dynamic type (as far as the program tells types apart), its
  \<open>Error()\<close> text and what \<open>Unwrap\<close> returns.
\<close>

datatype err_type = TNoSuchKey | TNotFound | TOther

datatype go_error = GoError (err_kind: err_type) (err_msg: string) (err_unwrap: "go_error option")

definition errorf :: "string \<Rightarrow> go_error" where
  "errorf msg = GoError TOther msg None"

text \<open>\<open>fmt.Errorf("text: %w", err)\<close>.\<close>

definition wrapf :: "string \<Rightarrow> go_error \<Rightarrow> go_error" where
  "wrapf msg e = GoError TOther (msg @ '': '' @ err_msg e) (Some e)"

text \<open>The POSIX error numbers the file system returns; \<open>OK\<close> is 0.\<close>

datatype errno = OK | ENOENT | EACCES | EEXIST | EAGAIN | EIO | EINVAL | ENOTEMPTY

section \<open>Integers\<close>

text \<open>The value an expression of Go type \<open>int64\<close> (\<open>uint64\<close>) takes after wrap-around.\<close>

definition i64 :: "int \<Rightarrow> int" where
  "i64 n = signed_take_bit 63 n"

definition u64 :: "int \<Rightarrow> int" where
  "u64 n = take_bit 64 n"

definition in_i64 :: "int \<Rightarrow> bool" where
  "in_i64 n \<longleftrightarrow> - (2 ^ 63) \<le> n \<and> n < 2 ^ 63"

lemma i64_id [simp]: "in_i64 n \<Longrightarrow> i64 n = n"
  unfolding i64_def in_i64_def by (rule signed_take_bit_int_eq_self) auto

lemma i64_in_range: "in_i64 (i64 n)"
  unfolding i64_def in_i64_def
  using signed_take_bit_int_greater_eq_minus_exp [of 63 n] signed_take_bit_int_less_exp [of 63 n]
  by simp

lemma i64_add_left: "i64 (i64 a + b) = i64 (a + b)"
  unfolding i64_def using signed_take_bit_add [of 63 "signed_take_bit 63 a" b]
  by (simp add: signed_take_bit_add)

lemma i64_add_right: "i64 (a + i64 b) = i64 (a + b)"
  using i64_add_left [of b a] by (simp add: add.commute)

text \<open>Decimal digits as bytes.\<close>

definition is_digit :: "char \<Rightarrow> bool" where
  "is_digit c \<longleftrightarrow> CHR ''0'' \<le> c \<and> c \<le> CHR ''9''"

section \<open>Go maps as association lists\<close>

type_synonym ('k, 'v) gomap = "('k \<times> 'v) list"

lemma map_of_update [simp]: "map_of (AList.update k v al) = (map_of al)(k \<mapsto> v)"
  by (rule update_conv')

lemma map_of_delete [simp]: "map_of (AList.delete k al) = (map_of al)(k := None)"
  by (rule delete_conv')

lemma distinct_keys_update [intro]:
  "distinct (map fst al) \<Longrightarrow> distinct (map fst (AList.update k v al))"
  by (rule distinct_update)

lemma distinct_keys_delete [intro]:
  "distinct (map fst al) \<Longrightarrow> distinct (map fst (AList.delete k al))"
  by (rule distinct_delete)

lemma update_ne_Nil [simp]: "AList.update k v al \<noteq> []"
  by (cases al) auto

lemma map_of_filter_Some:
  "distinct (map fst al) \<Longrightarrow>
     map_of (filter P al) k = (case map_of al k of Some v \<Rightarrow> if P (k, v) then Some v else None | None \<Rightarrow> None)"
proof (induction al)
  case (Cons a al)
  then show ?case
    by (cases a) (force simp: weak_map_of_SomeI split: option.splits dest: map_of_SomeD)
qed simp

lemma distinct_keys_filter: "distinct (map fst al) \<Longrightarrow> distinct (map fst (filter P al))"
  by (induction al) auto

lemma map_of_eq_empty_list [simp]: "map_of al = Map.empty \<longleftrightarrow> al = []"
  by (cases al) (auto simp: fun_eq_iff)

section \<open>Lists\<close>

lemma find_SomeD: "List.find P xs = Some x \<Longrightarrow> x \<in> set xs \<and> P x"
  by (induction xs) (auto split: if_splits)

lemma find_append: "List.find P (xs @ ys) = (case List.find P xs of None \<Rightarrow> List.find P ys | x \<Rightarrow> x)"
  by (induction xs) auto

lemma sorted_map_change:
  assumes "sorted (map f xs)" and "\<And>x y. x \<in> set xs \<Longrightarrow> y \<in> set xs \<Longrightarrow> f x \<le> f y \<Longrightarrow> g x \<le> g y"
  shows "sorted (map g xs)"
  using assms by (induction xs) auto

end
