(* ===== verification/Go_Strings.thy ===== *)
theory Go_Strings
  imports Prelude
begin

text \<open>
  The parts of Go's \<open>strings\<close>, \<open>path\<close> and \<open>path/filepath\<close> packages (on Unix) that the
  program uses, on byte strings, and the laws of splitting an object key at its last
  slash.
\<close>

section \<open>strings\<close>

definition HasPrefix :: "string \<Rightarrow> string \<Rightarrow> bool" where
  "HasPrefix s p \<longleftrightarrow> take (length p) s = p"

definition HasSuffix :: "string \<Rightarrow> string \<Rightarrow> bool" where
  "HasSuffix s p \<longleftrightarrow> length p \<le> length s \<and> drop (length s - length p) s = p"

definition TrimPrefix :: "string \<Rightarrow> string \<Rightarrow> string" where
  "TrimPrefix s p = (if HasPrefix s p then drop (length p) s else s)"

definition TrimSuffix :: "string \<Rightarrow> string \<Rightarrow> string" where
  "TrimSuffix s p = (if HasSuffix s p then take (length s - length p) s else s)"

fun Contains :: "string \<Rightarrow> string \<Rightarrow> bool" where
  "Contains [] p \<longleftrightarrow> p = []"
| "Contains (c # s) p \<longleftrightarrow> HasPrefix (c # s) p \<or> Contains s p"

text \<open>\<open>strings.ToLower\<close> on ASCII text.\<close>

definition lower_char :: "char \<Rightarrow> char" where
  "lower_char c = (if CHR ''A'' \<le> c \<and> c \<le> CHR ''Z'' then char_of (of_char c + 32 :: nat) else c)"

definition ToLower :: "string \<Rightarrow> string" where
  "ToLower s = map lower_char s"

lemma HasPrefix_iff: "HasPrefix s p \<longleftrightarrow> (\<exists>t. s = p @ t)"
  unfolding HasPrefix_def by (metis append_eq_conv_conj append_take_drop_id)

lemma HasPrefix_append [simp]: "HasPrefix (p @ s) p"
  by (simp add: HasPrefix_def)

lemma HasSuffix_iff: "HasSuffix s p \<longleftrightarrow> (\<exists>t. s = t @ p)"
proof
  assume h: "HasSuffix s p"
  then have "s = take (length s - length p) s @ p"
    by (metis HasSuffix_def append_take_drop_id)
  then show "\<exists>t. s = t @ p" ..
qed (auto simp: HasSuffix_def)

lemma HasSuffix_append [simp]: "HasSuffix (s @ p) p"
  by (simp add: HasSuffix_def)

lemma TrimSuffix_append [simp]: "TrimSuffix (s @ p) p = s"
  by (simp add: TrimSuffix_def)

lemma TrimPrefix_append [simp]: "TrimPrefix (p @ s) p = s"
  by (simp add: TrimPrefix_def)

lemma HasSuffix_single: "HasSuffix s [c] \<longleftrightarrow> s \<noteq> [] \<and> last s = c"
  by (auto simp: HasSuffix_iff) (metis append_butlast_last_id)

lemma TrimSuffix_no: "\<not> HasSuffix s p \<Longrightarrow> TrimSuffix s p = s"
  by (simp add: TrimSuffix_def)

lemma HasPrefix_Contains: "HasPrefix s p \<Longrightarrow> Contains s p"
  by (cases s) (auto simp: HasPrefix_def)

lemma Contains_append: "Contains (a @ p @ b) p"
proof (induction a)
  case Nil
  show ?case by (simp add: HasPrefix_Contains)
next
  case (Cons c a)
  then show ?case by simp
qed

section \<open>path and path/filepath\<close>

text \<open>The elements of a path between its slashes, empty ones included.\<close>

fun split_slash :: "string \<Rightarrow> string list" where
  "split_slash [] = [[]]"
| "split_slash (c # s) =
     (case split_slash s of
        [] \<Rightarrow> [[c]]
      | w # ws \<Rightarrow> if c = CHR ''/'' then [] # w # ws else (c # w) # ws)"

text \<open>One element of \<open>path.Clean\<close>: the stack holds the elements kept so far, last first.\<close>

definition clean_step :: "bool \<Rightarrow> string \<Rightarrow> string list \<Rightarrow> string list" where
  "clean_step rooted w st =
     (if w = [] \<or> w = ''.'' then st
      else if w = ''..'' then
        (if st \<noteq> [] \<and> hd st \<noteq> ''..'' then tl st
         else if rooted then st else w # st)
      else w # st)"

fun join_slash :: "string list \<Rightarrow> string" where
  "join_slash [] = []"
| "join_slash [w] = w"
| "join_slash (w # ws) = w @ ''/'' @ join_slash ws"

definition path_Clean :: "string \<Rightarrow> string" where
  "path_Clean p =
     (let rooted = (p \<noteq> [] \<and> hd p = CHR ''/'');
          ws = rev (fold (clean_step rooted) (split_slash p) [])
      in if rooted then CHR ''/'' # join_slash ws
         else if ws = [] then ''.'' else join_slash ws)"

definition path_Dir :: "string \<Rightarrow> string" where
  "path_Dir p = path_Clean (rev (dropWhile (\<lambda>c. c \<noteq> CHR ''/'') (rev p)))"

definition path_Base :: "string \<Rightarrow> string" where
  "path_Base p =
     (if p = [] then ''.''
      else let q = rev (dropWhile (\<lambda>c. c = CHR ''/'') (rev p))
           in if q = [] then ''/''
              else rev (takeWhile (\<lambda>c. c \<noteq> CHR ''/'') (rev q)))"

definition filepath_Join :: "string list \<Rightarrow> string" where
  "filepath_Join ws =
     (case filter (\<lambda>w. w \<noteq> []) ws of [] \<Rightarrow> [] | vs \<Rightarrow> path_Clean (join_slash vs))"

definition filepath_Dir :: "string \<Rightarrow> string" where
  "filepath_Dir p = path_Dir p"

definition IsAbs :: "string \<Rightarrow> bool" where
  "IsAbs p \<longleftrightarrow> HasPrefix p ''/''"

text \<open>
  A plain path element: one that \<open>path.Clean\<close> keeps as it is. \<open>rel_path ws\<close> holds for
  a relative path of plain elements.
\<close>

definition plain :: "string \<Rightarrow> bool" where
  "plain w \<longleftrightarrow> w \<noteq> [] \<and> CHR ''/'' \<notin> set w \<and> w \<noteq> ''.'' \<and> w \<noteq> ''..''"

lemma split_slash_ne [simp]: "split_slash s \<noteq> []"
  by (induction s) (auto split: list.splits)

lemma split_slash_no_slash: "CHR ''/'' \<notin> set w \<Longrightarrow> split_slash w = [w]"
  by (induction w) auto

lemma split_slash_append: "CHR ''/'' \<notin> set w \<Longrightarrow> split_slash (w @ CHR ''/'' # s) = w # split_slash s"
proof (induction w)
  case Nil
  then show ?case by (cases "split_slash s") auto
next
  case (Cons c w)
  then show ?case by auto
qed

lemma join_slash_Cons: "ws \<noteq> [] \<Longrightarrow> join_slash (w # ws) = w @ ''/'' @ join_slash ws"
  by (cases ws) auto

lemma join_slash_snoc: "ws \<noteq> [] \<Longrightarrow> join_slash (ws @ [w]) = join_slash ws @ ''/'' @ w"
proof (induction ws)
  case (Cons v ws)
  then show ?case by (cases ws) (auto simp: join_slash_Cons)
qed simp

lemma split_join: "ws \<noteq> [] \<Longrightarrow> \<forall>w \<in> set ws. CHR ''/'' \<notin> set w \<Longrightarrow> split_slash (join_slash ws) = ws"
proof (induction ws)
  case (Cons w ws)
  then show ?case
    by (cases "ws = []") (auto simp: split_slash_no_slash join_slash_Cons split_slash_append)
qed simp

lemma split_join_slash:
  "ws \<noteq> [] \<Longrightarrow> \<forall>w \<in> set ws. CHR ''/'' \<notin> set w \<Longrightarrow>
     split_slash (join_slash ws @ ''/'') = ws @ [[]]"
proof (induction ws)
  case (Cons w ws)
  then show ?case
    by (cases "ws = []") (auto simp: split_slash_append join_slash_Cons)
qed simp

lemma clean_plain: "\<forall>w \<in> set ws. plain w \<Longrightarrow> fold (clean_step r) ws st = rev ws @ st"
  by (induction ws arbitrary: st) (auto simp: clean_step_def plain_def)

lemma hd_join_slash: "ws \<noteq> [] \<Longrightarrow> plain (hd ws) \<Longrightarrow> join_slash ws \<noteq> [] \<and> hd (join_slash ws) \<noteq> CHR ''/''"
  by (cases ws rule: join_slash.cases) (auto simp: plain_def hd_append neq_Nil_conv)

lemma Clean_plain_slash:
  assumes "ws \<noteq> []" and "\<forall>w \<in> set ws. plain w"
  shows "path_Clean (join_slash ws @ ''/'') = join_slash ws"
proof -
  from assms have noslash: "\<forall>w \<in> set ws. CHR ''/'' \<notin> set w" by (auto simp: plain_def)
  from assms have h: "join_slash ws \<noteq> []" "hd (join_slash ws) \<noteq> CHR ''/''"
    using hd_join_slash [of ws] by auto
  then have "\<not> (hd (join_slash ws @ ''/'') = CHR ''/'')" by simp
  then show ?thesis
    using assms split_join_slash [OF assms(1) noslash]
    by (simp add: path_Clean_def clean_plain Let_def) (simp add: clean_step_def)
qed

lemma Clean_Nil [simp]: "path_Clean [] = ''.''"
  by (simp add: path_Clean_def clean_step_def)

lemma dropWhile_rev_noslash:
  "CHR ''/'' \<notin> set w \<Longrightarrow> rev (dropWhile (\<lambda>c. c \<noteq> CHR ''/'') (rev (p @ ''/'' @ w))) = p @ ''/''"
  by (induction w rule: rev_induct) auto

lemma dropWhile_rev_all:
  "CHR ''/'' \<notin> set w \<Longrightarrow> dropWhile (\<lambda>c. c \<noteq> CHR ''/'') (rev w) = []"
  by (induction w rule: rev_induct) auto

lemma Base_plain:
  assumes "plain w"
  shows "path_Base w = w" "path_Base (p @ ''/'' @ w) = w"
proof -
  from assms have w: "w \<noteq> []" "CHR ''/'' \<notin> set w" by (auto simp: plain_def)
  then have lst: "last w \<noteq> CHR ''/''" using last_in_set by metis
  with w have dw: "dropWhile (\<lambda>c. c = CHR ''/'') (rev w @ r) = rev w @ r" for r
    by (cases w rule: rev_cases) auto
  have tw: "takeWhile (\<lambda>c. c \<noteq> CHR ''/'') (rev w @ r) =
      rev w @ takeWhile (\<lambda>c. c \<noteq> CHR ''/'') r" for r
    using w(2) by (intro takeWhile_append2) auto
  show "path_Base w = w"
    using w(1) dw [of "[]"] tw [of "[]"] by (simp add: path_Base_def Let_def del: takeWhile_eq_all_conv)
  show "path_Base (p @ ''/'' @ w) = w"
    using w dw [of "''/'' @ rev p"] tw [of "''/'' @ rev p"] by (simp add: path_Base_def Let_def)
qed

lemma Dir_plain: "plain w \<Longrightarrow> path_Dir w = ''.''"
  by (simp add: path_Dir_def dropWhile_rev_all plain_def)

lemma Dir_plain_path:
  assumes "ws \<noteq> []" and "\<forall>w \<in> set ws. plain w" and "plain w"
  shows "path_Dir (join_slash ws @ ''/'' @ w) = join_slash ws"
proof -
  from assms(3) have "CHR ''/'' \<notin> set w" by (simp add: plain_def)
  then show ?thesis
    using Clean_plain_slash [OF assms(1,2)] dropWhile_rev_noslash [of w "join_slash ws"]
    by (simp add: path_Dir_def)
qed

lemma IsAbs_iff: "IsAbs p \<longleftrightarrow> (\<exists>q. p = CHR ''/'' # q)"
  by (auto simp: IsAbs_def HasPrefix_iff)

end
