(* ===== verification/Go_Float.thy ===== *)
theory Go_Float
  imports Prelude
begin

text \<open>
  The one floating-point computation of the program: \<open>int64(float64(maxSize) * c)\<close> for a
  constant \<open>c\<close> below 1, in IEEE double precision with rounding to nearest, ties to even.
  Magnitudes are naturals; a product with \<open>c = k / 2^53\<close> is kept scaled by \<open>2^53\<close>, so
  rounding to 53 significant bits is rounding of a natural.
\<close>

section \<open>Rounding to 53 significant bits\<close>

fun bitlen :: "nat \<Rightarrow> nat" where
  "bitlen n = (if n = 0 then 0 else Suc (bitlen (n div 2)))"

declare bitlen.simps [simp del]

definition shift_round_even :: "nat \<Rightarrow> nat \<Rightarrow> nat" where
  "shift_round_even s n =
     (let q = n div 2 ^ s; r = n mod 2 ^ s
      in if 2 * r < 2 ^ s then q
         else if 2 ^ s < 2 * r then Suc q
         else if even q then q else Suc q)"

definition round53 :: "nat \<Rightarrow> nat" where
  "round53 n = (let s = bitlen n - 53 in shift_round_even s n * 2 ^ s)"

text \<open>\<open>int64(float64(m) * (c / 2^53))\<close>; conversion and product are symmetric in the sign.\<close>

definition scale_mark :: "nat \<Rightarrow> int \<Rightarrow> int" where
  "scale_mark c m = sgn m * int (round53 (round53 (nat \<bar>m\<bar>) * c) div 2 ^ 53)"

text \<open>The doubles nearest to 0.9 and 0.8.\<close>

definition c09 :: nat where
  "c09 = 8106479329266893"

definition c08 :: nat where
  "c08 = 7205759403792794"

section \<open>Error bounds\<close>

lemma bitlen_lower: "n \<noteq> 0 \<Longrightarrow> 2 ^ (bitlen n - 1) \<le> n"
proof (induction n rule: bitlen.induct)
  case (1 n)
  show ?case
  proof (cases "n div 2 = 0")
    case True
    with 1(2) show ?thesis by (simp add: bitlen.simps [of n] bitlen.simps [of 0])
  next
    case False
    with 1 have ih: "2 ^ (bitlen (n div 2) - 1) \<le> n div 2" by simp
    have "bitlen (n div 2) = Suc (bitlen (n div 2) - 1)"
      using False by (subst (1 2) bitlen.simps) simp
    then have "2 ^ bitlen (n div 2) = 2 * 2 ^ (bitlen (n div 2) - 1)"
      by (metis power_Suc)
    also have "\<dots> \<le> 2 * (n div 2)" using ih by simp
    finally show ?thesis using 1(2) by (simp add: bitlen.simps [of n])
  qed
qed

lemma shift_round_even_error:
  "2 * n \<le> 2 * (shift_round_even s n * 2 ^ s) + 2 ^ s \<and>
   2 * (shift_round_even s n * 2 ^ s) \<le> 2 * n + 2 ^ s"
proof -
  let ?a = "n div 2 ^ s" and ?m = "n mod 2 ^ s"
  have n: "n = ?a * 2 ^ s + ?m" by (rule div_mult_mod_eq [symmetric])
  have "shift_round_even s n = ?a \<and> 2 * ?m \<le> 2 ^ s \<or> shift_round_even s n = Suc ?a \<and> 2 ^ s \<le> 2 * ?m"
    by (auto simp: shift_round_even_def Let_def)
  moreover have "?m < 2 ^ s" by simp
  ultimately show ?thesis
  proof (elim disjE conjE)
    assume h: "shift_round_even s n = ?a" "2 * ?m \<le> 2 ^ s"
    with n show ?thesis unfolding h(1) by (intro conjI) linarith+
  next
    assume h: "shift_round_even s n = Suc ?a" "2 ^ s \<le> 2 * ?m" "?m < 2 ^ s"
    have "Suc ?a * 2 ^ s = ?a * 2 ^ s + 2 ^ s" by simp
    with n h show ?thesis unfolding h(1) by (intro conjI) linarith+
  qed
qed

lemma round53_error: "2 ^ 53 * n \<le> 2 ^ 53 * round53 n + n \<and> 2 ^ 53 * round53 n \<le> 2 ^ 53 * n + n"
proof (cases "bitlen n \<le> 53")
  case True
  then show ?thesis by (simp add: round53_def shift_round_even_def)
next
  case False
  define s where "s = bitlen n - 53"
  from False have "n \<noteq> 0" by (metis bitlen.simps zero_le)
  from bitlen_lower [OF this] have "2 ^ (52 + s) \<le> n"
    using False by (simp add: s_def)
  then have s: "2 ^ 52 * 2 ^ s \<le> n" by (simp add: power_add)
  have e: "2 * n \<le> 2 * round53 n + 2 ^ s" "2 * round53 n \<le> 2 * n + 2 ^ s"
    using shift_round_even_error [of n s] by (simp_all add: round53_def Let_def s_def)
  have "2 ^ 52 * (2 * n) \<le> 2 ^ 52 * (2 * round53 n + 2 ^ s)"
    "2 ^ 52 * (2 * round53 n) \<le> 2 ^ 52 * (2 * n + 2 ^ s)"
    using e by (simp_all only: mult_le_mono2)
  with s show ?thesis by simp
qed

lemma round53_small: "n < 2 ^ 53 \<Longrightarrow> round53 n = n"
proof -
  assume n: "n < 2 ^ 53"
  have "bitlen n \<le> 53"
  proof (rule ccontr)
    assume h: "\<not> ?thesis"
    then have "n \<noteq> 0" by (metis bitlen.simps zero_le)
    from bitlen_lower [OF this] have "2 ^ (bitlen n - 1) \<le> n" .
    moreover from h have "(2::nat) ^ 53 \<le> 2 ^ (bitlen n - 1)" by (intro power_increasing) auto
    ultimately show False using n by simp
  qed
  then show ?thesis by (simp add: round53_def shift_round_even_def)
qed

lemma round53_le_double: "round53 n \<le> 2 * n"
  using round53_error [of n] by simp

section \<open>The two marks\<close>

definition highWater :: "int \<Rightarrow> int" where
  "highWater maxSize = scale_mark c09 maxSize"

definition targetMark :: "int \<Rightarrow> int" where
  "targetMark maxSize = scale_mark c08 maxSize"

lemma marks_ordered_nat:
  "round53 (x * c08) div 2 ^ 53 \<le> round53 (x * c09) div 2 ^ 53"
proof (rule div_le_mono)
  have "2 ^ 53 * round53 (x * c08) \<le> (2 ^ 53 + 1) * (x * c08)"
    using round53_error [of "x * c08"] by (simp add: mult.commute)
  also have "\<dots> \<le> (2 ^ 53 - 1) * (x * c09)"
    by (simp add: c08_def c09_def)
  also have "\<dots> \<le> 2 ^ 53 * round53 (x * c09)"
    using round53_error [of "x * c09"] by (simp add: mult.commute)
  finally show "round53 (x * c08) \<le> round53 (x * c09)" by simp
qed

lemma mark_le_max_nat: "round53 (round53 m * c09) div 2 ^ 53 \<le> m"
proof -
  have "2 ^ 53 * (2 ^ 53 * round53 (round53 m * c09)) \<le> 2 ^ 53 * ((2 ^ 53 + 1) * (round53 m * c09))"
    using round53_error [of "round53 m * c09"] by simp
  also have "\<dots> = (2 ^ 53 + 1) * c09 * (2 ^ 53 * round53 m)" by simp
  also have "\<dots> \<le> (2 ^ 53 + 1) * c09 * ((2 ^ 53 + 1) * m)"
    using round53_error [of m] by (intro mult_le_mono2) simp
  also have "\<dots> \<le> 2 ^ 53 * (2 ^ 53 * (2 ^ 53 * m))" by (simp add: c09_def)
  finally have "round53 (round53 m * c09) \<le> 2 ^ 53 * m" by simp
  then have "round53 (round53 m * c09) div 2 ^ 53 \<le> 2 ^ 53 * m div 2 ^ 53" by (rule div_le_mono)
  then show ?thesis by simp
qed

lemma marks_ordered:
  assumes "0 \<le> m"
  shows "0 \<le> targetMark m" "targetMark m \<le> highWater m" "highWater m \<le> m"
proof -
  show "0 \<le> targetMark m" using assms by (simp add: targetMark_def scale_mark_def sgn_if)
  show "targetMark m \<le> highWater m"
    using assms marks_ordered_nat [of "round53 (nat \<bar>m\<bar>)"]
    by (simp add: targetMark_def highWater_def scale_mark_def sgn_if zdiv_int [symmetric] flip: of_nat_le_iff)
  show "highWater m \<le> m"
    using assms mark_le_max_nat [of "nat \<bar>m\<bar>"]
    by (simp add: highWater_def scale_mark_def sgn_if) linarith
qed

lemma mark_accuracy_nat:
  assumes "m < 2 ^ 50" and "10 * c \<le> k * 2 ^ 53 + 10" and "k * 2 ^ 53 \<le> 10 * c + 10" and "k \<le> 10"
  shows "10 * (round53 (round53 m * c) div 2 ^ 53) \<le> k * m + 10 \<and>
    k * m \<le> 10 * (round53 (round53 m * c) div 2 ^ 53) + 20"
proof -
  let ?v = "round53 (m * c)"
  have m: "round53 m = m" using assms(1) by (intro round53_small) simp
  have c: "c \<le> 2 ^ 53 + 1" using assms(2,4) by simp
  have mc: "m * c \<le> 2 ^ 50 * (2 ^ 53 + 1)"
    using assms(1) c by (intro mult_le_mono) auto
  then have d: "?v \<le> m * c + 2 ^ 51" "m * c \<le> ?v + 2 ^ 51"
    using round53_error [of "m * c"] by (simp_all add: mult.commute [of c m])
  have a: "m * (10 * c) \<le> m * (k * 2 ^ 53 + 10)" "m * (k * 2 ^ 53) \<le> m * (10 * c + 10)"
    using assms(2,3) by (simp_all only: mult_le_mono2)
  have q: "2 ^ 53 * (?v div 2 ^ 53) \<le> ?v" "?v < 2 ^ 53 * (?v div 2 ^ 53) + 2 ^ 53"
    by simp_all
  define w where "w = ?v div 2 ^ 53"
  have a1: "10 * (m * c) \<le> 2 ^ 53 * (k * m) + 10 * m" using a(1) by (simp add: algebra_simps)
  have a2: "2 ^ 53 * (k * m) \<le> 10 * (m * c) + 10 * m" using a(2) by (simp add: algebra_simps)
  have "2 ^ 53 * (10 * w) \<le> 10 * (m * c) + 10 * 2 ^ 51"
    using q(1) d(1) by (simp add: w_def)
  with a1 assms(1) have u: "10 * w \<le> k * m + 10" by (simp add: w_def)
  have "2 ^ 53 * (k * m) < 10 * (2 ^ 53 * w + 2 ^ 53 + 2 ^ 51) + 10 * m"
    using a2 q(2) d(2) by (simp add: w_def)
  with assms(1) have "k * m \<le> 10 * w + 20" by simp
  with u m show ?thesis by (simp add: w_def)
qed

end
