(* ===== verification/Go_Duration.thy ===== *)
theory Go_Duration
  imports Go_Float
begin

text \<open>
  \<open>time.ParseDuration\<close> and \<open>time.Duration.String\<close> of Go's standard library, which the
  configuration's durations are read and written with: the text of every 64-bit duration parses
  back to it. Fractions go through \<open>float64\<close>; a non-negative double is \<open>m * 2^e\<close>.
\<close>

section \<open>Non-negative doubles\<close>

type_synonym float64 = "nat \<times> int"

definition flt :: "nat \<Rightarrow> int \<Rightarrow> float64" where
  "flt m e = (let s = bitlen m - 53 in (shift_round_even s m, e + int s))"

definition fmul :: "float64 \<Rightarrow> float64 \<Rightarrow> float64" where
  "fmul x y = flt (fst x * fst y) (snd x + snd y)"

text \<open>The quotient to 110 more bits and one bit for the rest, which is enough to round it.\<close>

definition fdiv :: "float64 \<Rightarrow> float64 \<Rightarrow> float64" where
  "fdiv x y =
     (let n = fst x * 2 ^ 110; q = n div fst y; r = n mod fst y
      in flt (2 * q + (if r = 0 then 0 else 1)) (snd x - snd y - 111))"

text \<open>Conversion to an integer cuts the fraction off.\<close>

definition ffloor :: "float64 \<Rightarrow> nat" where
  "ffloor x = (if 0 \<le> snd x then fst x * 2 ^ nat (snd x) else fst x div 2 ^ nat (- snd x))"

text \<open>The double \<open>x\<close> is the natural number \<open>n\<close>.\<close>

definition is_nat :: "float64 \<Rightarrow> nat \<Rightarrow> bool" where
  "is_nat x n \<longleftrightarrow> (\<exists>a. x = (n * 2 ^ a, - int a))"

lemma bitlen_le: "n < 2 ^ k \<Longrightarrow> bitlen n \<le> k"
proof (induction k arbitrary: n)
  case (Suc k)
  then have "n div 2 < 2 ^ k" by simp
  from Suc.IH [OF this] show ?case by (subst bitlen.simps) simp
qed (simp add: bitlen.simps)

lemma bitlen_double: "n \<noteq> 0 \<Longrightarrow> bitlen (n * 2 ^ a) = bitlen n + a"
proof (induction a)
  case (Suc a)
  then show ?case by (subst bitlen.simps) (simp add: mult.commute [of 2] mult.assoc [symmetric])
qed simp

lemma shift_round_even_exact: "s \<le> a \<Longrightarrow> shift_round_even s (n * 2 ^ a) = n * 2 ^ (a - s)"
proof -
  assume "s \<le> a"
  then have "n * 2 ^ a = n * 2 ^ (a - s) * 2 ^ s" by (simp add: power_add [symmetric] mult.assoc)
  then show ?thesis by (simp only:) (simp add: shift_round_even_def)
qed

lemma flt_exact:
  assumes "n < 2 ^ 53" and "e = - int a"
  shows "is_nat (flt (n * 2 ^ a) e) n"
proof (cases "n = 0")
  case True
  with assms(2) show ?thesis by (auto simp: flt_def is_nat_def bitlen.simps [of 0] shift_round_even_def)
next
  case False
  let ?s = "bitlen (n * 2 ^ a) - 53"
  have s: "?s \<le> a" using bitlen_le [OF assms(1)] bitlen_double [OF False, of a] by simp
  then have "flt (n * 2 ^ a) e = (n * 2 ^ (a - ?s), - int (a - ?s))"
    by (simp add: flt_def Let_def shift_round_even_exact assms(2))
  then show ?thesis unfolding is_nat_def by blast
qed

lemma flt_nat: "n < 2 ^ 53 \<Longrightarrow> is_nat (flt n 0) n"
  using flt_exact [of n 0 0] by simp

lemma fmul_nat:
  assumes "is_nat x m" and "is_nat y n" and "m * n < 2 ^ 53"
  shows "is_nat (fmul x y) (m * n)"
proof -
  obtain a b where "x = (m * 2 ^ a, - int a)" "y = (n * 2 ^ b, - int b)" using assms(1,2) by (auto simp: is_nat_def)
  then have "fmul x y = flt ((m * n) * 2 ^ (a + b)) (- int (a + b))"
    by (simp add: fmul_def power_add ac_simps)
  with flt_exact [OF assms(3), of "- int a - int b" "a + b"] show ?thesis by simp
qed

lemma fdiv_nat:
  assumes "0 < n" and "m < 2 ^ 53"
  shows "is_nat (fdiv (m * n, 0) (n, 0)) m"
proof -
  have "m * n * 2 ^ 110 = m * 2 ^ 110 * n" by simp
  then have "fdiv (m * n, 0) (n, 0) = flt (2 * (m * 2 ^ 110)) (- int 111)"
    using assms(1) by (simp add: fdiv_def Let_def del: power_numeral)
  also have "2 * (m * 2 ^ 110) = m * 2 ^ 111" by simp
  finally show ?thesis using flt_exact [OF assms(2) refl, of 111] by simp
qed

lemma ffloor_nat: "is_nat x n \<Longrightarrow> ffloor x = n"
  by (auto simp: is_nat_def ffloor_def)

section \<open>time.Duration.String\<close>

definition digit :: "nat \<Rightarrow> char" where
  "digit d = char_of (48 + d)"

fun fmtFrac_loop :: "nat \<Rightarrow> bool \<Rightarrow> nat \<Rightarrow> string \<Rightarrow> string \<times> nat" where
  "fmtFrac_loop 0 print v buf = (if print then CHR ''.'' # buf else buf, v)"
| "fmtFrac_loop (Suc i) print v buf =
     (let d = v mod 10; print = (print \<or> d \<noteq> 0)
      in fmtFrac_loop i print (v div 10) (if print then digit d # buf else buf))"

definition fmtFrac :: "nat \<Rightarrow> nat \<Rightarrow> string \<Rightarrow> string \<times> nat" where
  "fmtFrac v prec buf = fmtFrac_loop prec False v buf"

fun fmtInt_loop :: "nat \<Rightarrow> string \<Rightarrow> string" where
  "fmtInt_loop v buf = (if v > 0 then fmtInt_loop (v div 10) (digit (v mod 10) # buf) else buf)"

declare fmtInt_loop.simps [simp del]

definition fmtInt :: "nat \<Rightarrow> string \<Rightarrow> string" where
  "fmtInt v buf = (if v = 0 then CHR ''0'' # buf else fmtInt_loop v buf)"

text \<open>The buffer is filled from its end; the micro sign is two bytes.\<close>

definition duration_format :: "nat \<Rightarrow> string" where
  "duration_format u =
     (if u < 1000000000 then
        (if u = 0 then ''0s''
         else (case (if u < 1000 then fmtFrac u 0 ''ns''
                     else if u < 1000000 then fmtFrac u 3 [CHR 0xC2, CHR 0xB5, CHR ''s'']
                     else fmtFrac u 6 ''ms'') of
                 (buf, u) \<Rightarrow> fmtInt u buf))
      else (case fmtFrac u 9 ''s'' of
              (buf, u) \<Rightarrow>
                (let buf = fmtInt (u mod 60) buf; u = u div 60
                 in if u > 0 then
                      (let buf = fmtInt (u mod 60) (CHR ''m'' # buf); u = u div 60
                       in if u > 0 then fmtInt u (CHR ''h'' # buf) else buf)
                    else buf)))"

definition duration_String :: "duration \<Rightarrow> string" where
  "duration_String d =
     (let u = u64 d; neg = d < 0; u = (if neg then u64 (- u) else u); buf = duration_format (nat u)
      in if neg then CHR ''-'' # buf else buf)"

section \<open>time.ParseDuration\<close>

definition digit_val :: "char \<Rightarrow> nat" where
  "digit_val c = of_char c - 48"

fun leadingInt :: "nat \<Rightarrow> string \<Rightarrow> (nat \<times> string) option" where
  "leadingInt x [] = Some (x, [])"
| "leadingInt x (c # s) =
     (if \<not> is_digit c then Some (x, c # s)
      else if x > 2 ^ 63 div 10 then None
      else (let x = x * 10 + digit_val c in if x > 2 ^ 63 then None else leadingInt x s))"

fun leadingFraction :: "bool \<Rightarrow> nat \<Rightarrow> float64 \<Rightarrow> string \<Rightarrow> nat \<times> float64 \<times> string" where
  "leadingFraction overflow x scale [] = (x, scale, [])"
| "leadingFraction overflow x scale (c # s) =
     (if \<not> is_digit c then (x, scale, c # s)
      else if overflow then leadingFraction overflow x scale s
      else if x > (2 ^ 63 - 1) div 10 then leadingFraction True x scale s
      else (let y = x * 10 + digit_val c
            in if y > 2 ^ 63 then leadingFraction True x scale s
               else leadingFraction False y (fmul scale (10, 0)) s))"

definition unitMap :: "(string, nat) gomap" where
  "unitMap =
     [(''ns'', 1), (''us'', 1000), ([CHR 0xC2, CHR 0xB5, CHR ''s''], 1000), ([CHR 0xCE, CHR 0xBC, CHR ''s''], 1000),
      (''ms'', 1000000), (''s'', 1000000000), (''m'', 60000000000), (''h'', 3600000000000)]"

definition lowerhex :: "nat \<Rightarrow> char" where
  "lowerhex n = ''0123456789abcdef'' ! n"

definition quote_byte :: "char \<Rightarrow> string" where
  "quote_byte c =
     (let b = of_char c :: nat
      in if b \<ge> 128 \<or> b < 32 then [CHR 0x5C, CHR ''x'', lowerhex (b div 16), lowerhex (b mod 16)]
         else if c = CHR 0x22 \<or> c = CHR 0x5C then [CHR 0x5C, c]
         else [c])"

definition quote :: "string \<Rightarrow> string" where
  "quote s = CHR 0x22 # concat (map quote_byte s) @ [CHR 0x22]"

definition invalid_duration :: "string \<Rightarrow> go_error" where
  "invalid_duration orig = errorf (''time: invalid duration '' @ quote orig)"

definition unit_end :: "char \<Rightarrow> bool" where
  "unit_end c \<longleftrightarrow> c = CHR ''.'' \<or> is_digit c"

text \<open>One round of the loop: a number with its unit, in nanoseconds, and the rest.\<close>

definition parse_part :: "string \<Rightarrow> string \<Rightarrow> go_error + nat \<times> string" where
  "parse_part orig s =
     (if \<not> unit_end (hd s) then Inl (invalid_duration orig)
      else (case leadingInt 0 s of
        None \<Rightarrow> Inl (invalid_duration orig)
      | Some (v, s1) \<Rightarrow>
          (case (if s1 \<noteq> [] \<and> hd s1 = CHR ''.'' then
                   (case leadingFraction False 0 (1, 0) (tl s1) of
                      (f, scale, s2) \<Rightarrow> (f, scale, s2, length (tl s1) \<noteq> length s2))
                 else (0, (1, 0), s1, False)) of
             (f, scale, s2, post) \<Rightarrow>
               if length s = length s1 \<and> \<not> post then Inl (invalid_duration orig)
               else
                 (let u = takeWhile (\<lambda>c. \<not> unit_end c) s2; s3 = dropWhile (\<lambda>c. \<not> unit_end c) s2
                  in if u = [] then Inl (errorf (''time: missing unit in duration '' @ quote orig))
                     else (case map_of unitMap u of
                       None \<Rightarrow> Inl (errorf (''time: unknown unit '' @ quote u @ '' in duration '' @ quote orig))
                     | Some unit \<Rightarrow>
                         if v > 2 ^ 63 div unit then Inl (invalid_duration orig)
                         else
                           (let v = v * unit;
                                v = (if f > 0 then v + ffloor (fmul (flt f 0) (fdiv (unit, 0) scale)) else v)
                            in if v > 2 ^ 63 then Inl (invalid_duration orig) else Inr (v, s3)))))))"

lemma leadingInt_length: "leadingInt x s = Some (v, r) \<Longrightarrow> length r \<le> length s"
  by (induction x s rule: leadingInt.induct) (auto simp: Let_def split: if_splits)

lemma leadingFraction_length: "leadingFraction ov x sc s = (f, scale, r) \<Longrightarrow> length r \<le> length s"
  by (induction ov x sc s rule: leadingFraction.induct) (auto simp: Let_def split: if_splits)

lemma parse_part_length:
  assumes "parse_part orig s = Inr (v, r)"
  shows "length r < length s"
proof -
  obtain n s1 where i: "leadingInt 0 s = Some (n, s1)"
    using assms by (auto simp: parse_part_def split: if_splits option.splits)
  obtain f scale s2 post where p: "(if s1 \<noteq> [] \<and> hd s1 = CHR ''.'' then
       (case leadingFraction False 0 (1, 0) (tl s1) of (f, scale, s2) \<Rightarrow> (f, scale, s2, length (tl s1) \<noteq> length s2))
     else (0, (1, 0), s1, False)) = (f, scale, s2, post)"
    by (rule prod_cases4)
  have "length s2 \<le> length s1"
    using p by (cases s1) (auto split: if_splits prod.splits dest!: leadingFraction_length)
  moreover have "length s1 \<le> length s" by (rule leadingInt_length [OF i])
  moreover have "takeWhile (\<lambda>c. \<not> unit_end c) s2 \<noteq> []" "r = dropWhile (\<lambda>c. \<not> unit_end c) s2"
    using assms [unfolded parse_part_def i option.case p prod.case Let_def]
    by (simp_all split: if_split_asm option.split_asm)
  then have "length r < length s2"
    using arg_cong [OF takeWhile_dropWhile_id [of "\<lambda>c. \<not> unit_end c" s2], of length]
    unfolding length_append by (metis length_greater_0_conv less_add_same_cancel2)
  ultimately show ?thesis by linarith
qed

function parse_parts :: "string \<Rightarrow> nat \<Rightarrow> string \<Rightarrow> go_error + nat" where
  "parse_parts orig d s =
     (if s = [] then Inr d
      else (case parse_part orig s of
        Inl err \<Rightarrow> Inl err
      | Inr (v, rest) \<Rightarrow>
          (let d = (d + v) mod 2 ^ 64
           in if d > 2 ^ 63 then Inl (invalid_duration orig) else parse_parts orig d rest)))"
  by pat_completeness auto
termination by (relation "measure (\<lambda>(orig, d, s). length s)") (auto dest: parse_part_length)

declare parse_parts.simps [simp del]

definition ParseDuration :: "string \<Rightarrow> go_error + duration" where
  "ParseDuration s =
     (let signed = s \<noteq> [] \<and> hd s \<in> {CHR ''-'', CHR ''+''};
          neg = signed \<and> hd s = CHR ''-'';
          r = (if signed then tl s else s)
      in if r = ''0'' then Inr 0
         else if r = [] then Inl (invalid_duration s)
         else (case parse_parts s 0 r of
                 Inl err \<Rightarrow> Inl err
               | Inr d \<Rightarrow>
                   if neg then Inr (i64 (- i64 (int d)))
                   else if d > 2 ^ 63 - 1 then Inl (invalid_duration s)
                   else Inr (int d)))"

section \<open>Digits\<close>

definition dval :: "nat \<Rightarrow> string \<Rightarrow> nat" where
  "dval x ds = foldl (\<lambda>x c. x * 10 + digit_val c) x ds"

lemma dval_simps [simp]:
  "dval x [] = x"
  "dval x (c # ds) = dval (x * 10 + digit_val c) ds"
  "dval x (ds @ [c]) = dval x ds * 10 + digit_val c"
  by (simp_all add: dval_def)

lemma dval_mono: "x \<le> dval x ds"
proof (induction ds arbitrary: x)
  case (Cons c ds)
  from Cons.IH [of "x * 10 + digit_val c"] show ?case by simp
qed simp

lemma digit_ok:
  assumes "d < 10"
  shows "is_digit (digit d) \<and> digit_val (digit d) = d"
proof -
  have "\<forall>d < 10. is_digit (digit d) \<and> digit_val (digit d) = d" by code_simp
  with assms show ?thesis by blast
qed

lemma digit_val_le: "is_digit c \<Longrightarrow> digit_val c \<le> 9"
  by (auto simp: is_digit_def digit_val_def less_eq_char_def)

lemma leadingInt_digits:
  assumes "list_all is_digit ds" and "dval x ds \<le> 2 ^ 63" and "r = [] \<or> \<not> is_digit (hd r)"
  shows "leadingInt x (ds @ r) = Some (dval x ds, r)"
  using assms(1,2)
proof (induction ds arbitrary: x)
  case Nil
  with assms(3) show ?case by (cases r) auto
next
  case (Cons c ds)
  have "x * 10 + digit_val c \<le> 2 ^ 63" using dval_mono [of "x * 10 + digit_val c" ds] Cons.prems(2) by simp
  moreover from this have "x \<le> 2 ^ 63 div 10" by (simp add: less_eq_div_iff_mult_less_eq)
  ultimately show ?case using Cons by (simp add: Let_def)
qed

lemma flt_small: "n < 2 ^ 53 \<Longrightarrow> flt n 0 = (n, 0)"
  using bitlen_le [of n 53] by (simp add: flt_def shift_round_even_def)

lemma ten_power_small: "n \<le> 15 \<Longrightarrow> (10::nat) ^ n \<le> 10 ^ 15"
  by (rule power_increasing) simp_all

lemma leadingFraction_digits:
  assumes "list_all is_digit ds" and "r = [] \<or> \<not> is_digit (hd r)" and "x < 10 ^ i" and "i + length ds \<le> 15"
  shows "leadingFraction False x (10 ^ i, 0) (ds @ r) = (dval x ds, (10 ^ (i + length ds), 0), r)"
  using assms(1,3,4)
proof (induction ds arbitrary: x i)
  case Nil
  with assms(2) show ?case by (cases r) auto
next
  case (Cons c ds)
  have y: "x * 10 + digit_val c < 10 ^ Suc i"
    using Cons.prems(1,2) digit_val_le [of c] by simp
  have i: "10 ^ i \<le> (10::nat) ^ 15" "10 ^ Suc i \<le> (10::nat) ^ 15"
    using Cons.prems(3) ten_power_small [of i] ten_power_small [of "Suc i"] by simp_all
  have "fmul (10 ^ i, 0) (10, 0) = (10 ^ Suc i, 0)"
    using i(2) flt_small [of "10 ^ Suc i"] by (simp add: fmul_def mult.commute)
  moreover have "\<not> x > (2 ^ 63 - 1) div 10" "\<not> x * 10 + digit_val c > 2 ^ 63"
    using Cons.prems(2) y i by simp_all
  ultimately show ?case
    using Cons.IH [OF _ y] Cons.prems by (simp add: Let_def)
qed

lemma fmtInt_loop_digits:
  "\<exists>ds. list_all is_digit ds \<and> dval 0 ds = v \<and> (v > 0 \<longrightarrow> ds \<noteq> []) \<and> fmtInt_loop v buf = ds @ buf"
proof (induction v buf rule: fmtInt_loop.induct)
  case (1 v buf)
  show ?case
  proof (cases "v = 0")
    case True
    then show ?thesis by (intro exI [of _ "[]"]) (simp add: fmtInt_loop.simps)
  next
    case False
    then obtain ds where "list_all is_digit ds" "dval 0 ds = v div 10"
      "fmtInt_loop (v div 10) (digit (v mod 10) # buf) = ds @ digit (v mod 10) # buf"
      using 1 by auto
    with False digit_ok [of "v mod 10"] show ?thesis
      by (intro exI [of _ "ds @ [digit (v mod 10)]"]) (simp add: fmtInt_loop.simps [of v])
  qed
qed

lemma fmtInt_digits:
  obtains ds where "list_all is_digit ds" "dval 0 ds = v" "ds \<noteq> []" "fmtInt v buf = ds @ buf"
proof (cases "v = 0")
  case True
  then show thesis using digit_ok [of 0] by (intro that [of "''0''"]) (auto simp: fmtInt_def digit_def is_digit_def digit_val_def)
next
  case False
  then show thesis using fmtInt_loop_digits [of v buf] that by (auto simp: fmtInt_def)
qed

lemma fmtFrac_loop_print:
  "\<exists>ds. list_all is_digit ds \<and> length ds = n \<and> dval 0 ds = v mod 10 ^ n \<and>
     fmtFrac_loop n True v buf = (CHR ''.'' # ds @ buf, v div 10 ^ n)"
proof (induction n arbitrary: v buf)
  case (Suc n)
  obtain ds where "list_all is_digit ds" "length ds = n" "dval 0 ds = v div 10 mod 10 ^ n"
    "fmtFrac_loop n True (v div 10) (digit (v mod 10) # buf) = (CHR ''.'' # ds @ digit (v mod 10) # buf, v div 10 div 10 ^ n)"
    using Suc by blast
  with digit_ok [of "v mod 10"] show ?case
    by (intro exI [of _ "ds @ [digit (v mod 10)]"]) (simp add: Let_def mod_mult2_eq div_mult2_eq)
qed simp

lemma fmtFrac_loop_digits:
  "\<exists>ds. list_all is_digit ds \<and> length ds \<le> n \<and> dval 0 ds * 10 ^ (n - length ds) = v mod 10 ^ n \<and>
     fmtFrac_loop n False v buf = (if ds = [] then buf else CHR ''.'' # ds @ buf, v div 10 ^ n)"
proof (induction n arbitrary: v buf)
  case (Suc n)
  show ?case
  proof (cases "v mod 10 = 0")
    case True
    obtain ds where ds: "list_all is_digit ds" "length ds \<le> n" "dval 0 ds * 10 ^ (n - length ds) = v div 10 mod 10 ^ n"
      "fmtFrac_loop n False (v div 10) buf = (if ds = [] then buf else CHR ''.'' # ds @ buf, v div 10 div 10 ^ n)"
      using Suc by blast
    have "dval 0 ds * 10 ^ (Suc n - length ds) = v mod 10 ^ Suc n"
      using ds(2,3) True by (simp add: Suc_diff_le mod_mult2_eq)
    with ds True show ?thesis by (intro exI [of _ ds]) (simp add: div_mult2_eq)
  next
    case False
    obtain ds where ds: "list_all is_digit ds" "length ds = n" "dval 0 ds = v div 10 mod 10 ^ n"
      "fmtFrac_loop n True (v div 10) (digit (v mod 10) # buf) = (CHR ''.'' # ds @ digit (v mod 10) # buf, v div 10 div 10 ^ n)"
      using fmtFrac_loop_print [of n "v div 10" "digit (v mod 10) # buf"] by blast
    with False digit_ok [of "v mod 10"] show ?thesis
      by (intro exI [of _ "ds @ [digit (v mod 10)]"]) (simp add: Let_def mod_mult2_eq div_mult2_eq)
  qed
qed simp

lemma fmtFrac_digits:
  obtains ds where "list_all is_digit ds" "length ds \<le> n" "dval 0 ds * 10 ^ (n - length ds) = v mod 10 ^ n"
    "fmtFrac v n buf = (if ds = [] then buf else CHR ''.'' # ds @ buf, v div 10 ^ n)"
  using fmtFrac_loop_digits [of n v buf] unfolding fmtFrac_def by blast

section \<open>What is printed parses\<close>

lemma not_unit_end: "\<not> unit_end c \<Longrightarrow> \<not> is_digit c \<and> c \<noteq> CHR ''.''"
  by (simp add: unit_end_def)

lemma digit_not_dot: "is_digit c \<Longrightarrow> c \<noteq> CHR ''.''"
  by (auto simp: is_digit_def)

lemma dval_bound: "list_all is_digit ds \<Longrightarrow> dval x ds < (x + 1) * 10 ^ length ds"
proof (induction ds arbitrary: x)
  case (Cons c ds)
  have "dval (x * 10 + digit_val c) ds < (x * 10 + digit_val c + 1) * 10 ^ length ds" using Cons by simp
  also have "\<dots> \<le> ((x + 1) * 10) * 10 ^ length ds"
    using Cons.prems digit_val_le [of c] by (intro mult_right_mono) simp_all
  finally show ?case by (simp add: algebra_simps)
qed simp

text \<open>The floating-point computation of a fraction of at most nine digits is exact.\<close>

lemma fraction_exact:
  assumes "list_all is_digit fs" and "length fs \<le> p" and "p \<le> 9"
  shows "ffloor (fmul (flt (dval 0 fs) 0) (fdiv (10 ^ p, 0) (10 ^ length fs, 0))) = dval 0 fs * 10 ^ (p - length fs)"
proof -
  let ?f = "dval 0 fs" and ?m = "10 ^ (p - length fs) :: nat"
  have p: "?m * 10 ^ length fs = 10 ^ p" using assms(2) by (simp add: power_add [symmetric])
  have "?m \<le> 10 ^ 9" "(10::nat) ^ p \<le> 10 ^ 9" using assms(2,3) by (intro power_increasing; simp)+
  moreover have f: "?f < 10 ^ length fs" using dval_bound [OF assms(1), of 0] by simp
  then have "?f * ?m \<le> 10 ^ length fs * ?m" by (intro mult_right_mono) simp_all
  then have "?f * ?m \<le> 10 ^ p" using p by (simp only: mult.commute)
  ultimately have b: "?m < 2 ^ 53" "?f * ?m < 2 ^ 53" by simp_all
  moreover have "?f < 2 ^ 53" using b(2) by (cases "?f = 0") (auto intro: le_less_trans [rotated])
  ultimately have "is_nat (fmul (flt ?f 0) (fdiv (?m * 10 ^ length fs, 0) (10 ^ length fs, 0))) (?f * ?m)"
    by (intro fmul_nat flt_nat fdiv_nat) simp_all
  then show ?thesis unfolding p by (rule ffloor_nat)
qed

text \<open>A number with at most \<open>p\<close> digits after the point and a unit of \<open>10 ^ p\<close> nanoseconds.\<close>

lemma parse_part_fraction:
  assumes "list_all is_digit ds" and "ds \<noteq> []" and "list_all is_digit fs" and "length fs \<le> p" and "p \<le> 9"
    and "map_of unitMap u = Some (10 ^ p)" and "u \<noteq> []" and "list_all (\<lambda>c. \<not> unit_end c) u"
    and "v = dval 0 ds * 10 ^ p + dval 0 fs * 10 ^ (p - length fs)" and "v \<le> 2 ^ 63"
  shows "parse_part orig (ds @ (if fs = [] then u else CHR ''.'' # fs @ u)) = Inr (v, [])"
proof -
  let ?s1 = "if fs = [] then u else CHR ''.'' # fs @ u" and ?f = "dval 0 fs" and ?sc = "(10 ^ length fs, 0)"
  have u: "\<not> unit_end (hd u)" using assms(7,8) by (cases u) auto
  have tw: "takeWhile (\<lambda>c. \<not> unit_end c) u = u" "dropWhile (\<lambda>c. \<not> unit_end c) u = []"
    using assms(8) by (simp_all add: list_all_iff)
  have d: "dval 0 ds \<le> 2 ^ 63 div 10 ^ p" using assms(9,10) by (simp add: less_eq_div_iff_mult_less_eq)
  have "dval 0 ds \<le> 2 ^ 63" using d by (meson div_le_dividend le_trans)
  then have i: "leadingInt 0 (ds @ ?s1) = Some (dval 0 ds, ?s1)"
    using assms(1,7) u not_unit_end by (intro leadingInt_digits) (auto simp: is_digit_def)
  have fr: "(if ?s1 \<noteq> [] \<and> hd ?s1 = CHR ''.'' then
       (case leadingFraction False 0 (1, 0) (tl ?s1) of (f, scale, s2) \<Rightarrow> (f, scale, s2, length (tl ?s1) \<noteq> length s2))
     else (0, (1, 0), ?s1, False)) = (?f, ?sc, u, fs \<noteq> [])"
    using leadingFraction_digits [of fs u 0 0] assms(3-5,7) u not_unit_end [OF u] by auto
  have h: "unit_end (hd (ds @ ?s1))" using assms(1,2) by (cases ds) (auto simp: unit_end_def)
  have "ffloor (fmul (flt ?f 0) (fdiv (10 ^ p, 0) ?sc)) = ?f * 10 ^ (p - length fs)"
    by (rule fraction_exact [OF assms(3-5)])
  with assms(2,6,7,9,10) d show ?thesis
    unfolding parse_part_def i option.case fr prod.case tw Let_def using h
    by (auto split: if_splits)
qed

text \<open>A whole number with its unit, followed by another part.\<close>

lemma parse_part_whole:
  assumes "list_all is_digit ds" and "ds \<noteq> []" and "map_of unitMap u = Some unit" and "u \<noteq> []" and "0 < unit"
    and "list_all (\<lambda>c. \<not> unit_end c) u" and "r \<noteq> []" and "is_digit (hd r)" and "dval 0 ds * unit \<le> 2 ^ 63"
  shows "parse_part orig (ds @ u @ r) = Inr (dval 0 ds * unit, r)"
proof -
  have u: "\<not> unit_end (hd (u @ r))" "hd (u @ r) = hd u" using assms(4,6) by (cases u; auto)+
  have "unit_end (hd r)" using assms(8) by (simp add: unit_end_def)
  then have tw: "takeWhile (\<lambda>c. \<not> unit_end c) (u @ r) = u" "dropWhile (\<lambda>c. \<not> unit_end c) (u @ r) = r"
    using assms(6,7) by (cases r; simp add: list_all_iff)+
  have d: "dval 0 ds \<le> 2 ^ 63 div unit" using assms(5,9) by (simp add: less_eq_div_iff_mult_less_eq)
  then have "dval 0 ds \<le> 2 ^ 63" by (meson div_le_dividend le_trans)
  then have i: "leadingInt 0 (ds @ u @ r) = Some (dval 0 ds, u @ r)"
    using assms(1) not_unit_end [OF u(1)] by (intro leadingInt_digits) simp_all
  have fr: "(if u @ r \<noteq> [] \<and> hd (u @ r) = CHR ''.'' then
       (case leadingFraction False 0 (1, 0) (tl (u @ r)) of
          (f, scale, s2) \<Rightarrow> (f, scale, s2, length (tl (u @ r)) \<noteq> length s2))
     else (0, (1, 0), u @ r, False)) = (0, (1, 0), u @ r, False)"
    using not_unit_end [OF u(1)] by (simp del: hd_append2)
  have "unit_end (hd (ds @ u @ r))" using assms(1,2) by (cases ds) (auto simp: unit_end_def)
  with assms(2-4,9) d show ?thesis
    unfolding parse_part_def i option.case fr prod.case tw Let_def by (auto split: if_splits)
qed

lemma parse_parts_step:
  "parse_part orig s = Inr (v, r) \<Longrightarrow> s \<noteq> [] \<Longrightarrow> d + v \<le> 2 ^ 63 \<Longrightarrow> parse_parts orig d s = parse_parts orig (d + v) r"
  by (subst parse_parts.simps) (simp add: Let_def)

lemma parse_parts_last:
  "parse_part orig s = Inr (v, []) \<Longrightarrow> s \<noteq> [] \<Longrightarrow> d + v \<le> 2 ^ 63 \<Longrightarrow> parse_parts orig d s = Inr (d + v)"
  by (simp add: parse_parts_step parse_parts.simps)

lemma fmtInt_starts: "fmtInt v buf \<noteq> [] \<and> is_digit (hd (fmtInt v buf)) \<and> length buf < length (fmtInt v buf)"
  by (rule fmtInt_digits [of v buf]) (auto simp: neq_Nil_conv)

lemma parse_fmt_fraction:
  assumes "fmtFrac n p u = (buf, q)" and "p \<le> 9" and "map_of unitMap u = Some (10 ^ p)" and "u \<noteq> []"
    and "list_all (\<lambda>c. \<not> unit_end c) u" and "v = m * 10 ^ p + n mod 10 ^ p" and "v \<le> 2 ^ 63"
  shows "parse_part orig (fmtInt m buf) = Inr (v, []) \<and> q = n div 10 ^ p \<and> buf \<noteq> []"
proof -
  obtain fs where fs: "list_all is_digit fs" "length fs \<le> p" "dval 0 fs * 10 ^ (p - length fs) = n mod 10 ^ p"
    "fmtFrac n p u = (if fs = [] then u else CHR ''.'' # fs @ u, n div 10 ^ p)"
    by (rule fmtFrac_digits)
  obtain ds where ds: "list_all is_digit ds" "dval 0 ds = m" "ds \<noteq> []" "fmtInt m buf = ds @ buf" by (rule fmtInt_digits)
  show ?thesis
    using parse_part_fraction [OF ds(1,3) fs(1,2) assms(2-5), of v orig] assms(1,4,6,7) ds(2,4) fs(3,4)
    by (auto split: if_splits)
qed

lemma parse_fmt_whole:
  assumes "map_of unitMap u = Some unit" and "u \<noteq> []" and "0 < unit" and "list_all (\<lambda>c. \<not> unit_end c) u"
    and "r \<noteq> []" and "is_digit (hd r)" and "m * unit \<le> 2 ^ 63"
  shows "parse_part orig (fmtInt m (u @ r)) = Inr (m * unit, r)"
proof -
  obtain ds where ds: "list_all is_digit ds" "dval 0 ds = m" "ds \<noteq> []" "fmtInt m (u @ r) = ds @ u @ r" by (rule fmtInt_digits)
  show ?thesis using parse_part_whole [OF ds(1,3) assms(1-6), of orig] assms(7) ds by simp
qed

lemmas units = unitMap_def unit_end_def is_digit_def

text \<open>Below a second there is one part, with nanoseconds, microseconds or milliseconds.\<close>

lemma format_small:
  assumes "0 < u" and "u < 1000000000"
  shows "parse_parts orig 0 (duration_format u) = Inr u \<and> is_digit (hd (duration_format u)) \<and> 1 < length (duration_format u)"
proof -
  have *: "parse_parts orig 0 (fmtInt q buf) = Inr u \<and> is_digit (hd (fmtInt q buf)) \<and> 1 < length (fmtInt q buf)"
    if "fmtFrac u p un = (buf, q)" "p \<le> 9" "map_of unitMap un = Some (10 ^ p)" "un \<noteq> []"
      "list_all (\<lambda>c. \<not> unit_end c) un" for p un buf q
  proof -
    have u: "u = u div 10 ^ p * 10 ^ p + u mod 10 ^ p" "u \<le> 2 ^ 63" using assms(2) by (simp_all only: div_mult_mod_eq) simp
    have f: "parse_part orig (fmtInt (u div 10 ^ p) buf) = Inr (u, []) \<and> q = u div 10 ^ p \<and> buf \<noteq> []"
      by (rule parse_fmt_fraction [OF that u])
    with parse_parts_last [of orig "fmtInt q buf" u 0] fmtInt_starts [of q buf] u(2) show ?thesis
      by (cases buf) auto
  qed
  obtain b1 q1 where f1: "fmtFrac u 0 ''ns'' = (b1, q1)" by (metis surj_pair)
  obtain b2 q2 where f2: "fmtFrac u 3 [CHR 0xC2, CHR 0xB5, CHR ''s''] = (b2, q2)" by (metis surj_pair)
  obtain b3 q3 where f3: "fmtFrac u 6 ''ms'' = (b3, q3)" by (metis surj_pair)
  show ?thesis
    using assms * [OF f1] * [OF f2] * [OF f3] by (simp add: duration_format_def f1 f2 f3 units)
qed

lemma format_large:
  assumes "1000000000 \<le> u" and "u \<le> 2 ^ 63"
  shows "parse_parts orig 0 (duration_format u) = Inr u \<and> is_digit (hd (duration_format u)) \<and> 1 < length (duration_format u)"
proof -
  obtain buf q where f: "fmtFrac u 9 ''s'' = (buf, q)" by (metis surj_pair)
  let ?s = "fmtInt (q mod 60) buf" and ?v = "q mod 60 * 1000000000 + u mod 1000000000"
  have "parse_part orig ?s = Inr (q mod 60 * 10 ^ 9 + u mod 10 ^ 9, []) \<and> q = u div 10 ^ 9 \<and> buf \<noteq> []"
    by (rule parse_fmt_fraction [OF f _ _ _ _ refl]) (simp_all add: units)
  moreover have "(10::nat) ^ 9 = 1000000000" by simp
  ultimately have s: "parse_part orig ?s = Inr (?v, [])" and q: "q = u div 1000000000" and buf: "buf \<noteq> []" by metis+
  note d = fmtInt_starts [of _ "_ :: string"]
  let ?m = "q div 60" and ?h = "q div 60 div 60"
  have u: "u = q * 1000000000 + u mod 1000000000" "q = ?m * 60 + q mod 60" "?m = ?h * 60 + ?m mod 60"
    by (simp_all add: q)
  have sec: "parse_parts orig e ?s = Inr (e + ?v)" if "e + ?v \<le> 2 ^ 63" for e
    by (rule parse_parts_last [OF s _ that]) (simp add: d)
  have min: "parse_part orig (fmtInt m (''m'' @ ?s)) = Inr (m * 60000000000, ?s)" if "m * 60000000000 \<le> 2 ^ 63" for m
    by (rule parse_fmt_whole) (use that d in \<open>simp_all add: units\<close>)
  have hour: "parse_part orig (fmtInt h (''h'' @ fmtInt m (''m'' @ ?s))) = Inr (h * 3600000000000, fmtInt m (''m'' @ ?s))"
    if "h * 3600000000000 \<le> 2 ^ 63" for h m
    by (rule parse_fmt_whole) (use that d in \<open>simp_all add: units\<close>)
  have len: "Suc 0 < length (fmtInt v b)" if "b \<noteq> []" for v b using d [of v b] that by (cases b) auto
  show ?thesis
  proof (cases "?m = 0")
    case True
    with sec [of 0] u assms buf show ?thesis by (simp add: duration_format_def f d len)
  next
    case m: False
    show ?thesis
    proof (cases "?h = 0")
      case True
      have b: "?m * 60000000000 + ?v = u" using u(1,2) by linarith
      have "parse_parts orig 0 (fmtInt ?m (''m'' @ ?s)) = Inr (?m * 60000000000 + ?v)"
        using parse_parts_step [OF min, of ?m 0] sec [of "?m * 60000000000"] b assms(2) d by simp
      with b m True assms(1) show ?thesis by (simp add: duration_format_def f d len)
    next
      case False
      let ?M = "?m mod 60"
      have b: "?h * 3600000000000 + ?M * 60000000000 + ?v = u" using u by linarith
      have "parse_parts orig 0 (fmtInt ?h (''h'' @ fmtInt ?M (''m'' @ ?s))) = Inr (?h * 3600000000000 + ?M * 60000000000 + ?v)"
        using parse_parts_step [OF hour, of ?h ?M 0] parse_parts_step [OF min, of ?M "?h * 3600000000000"]
          sec [of "?h * 3600000000000 + ?M * 60000000000"] b assms(2) d by simp
      with b m False assms(1) show ?thesis by (simp add: duration_format_def f d len Let_def)
    qed
  qed
qed

lemma format_parses:
  assumes "0 < u" and "u \<le> 2 ^ 63"
  shows "parse_parts orig 0 (duration_format u) = Inr u \<and> is_digit (hd (duration_format u)) \<and> 1 < length (duration_format u)"
  using format_small [OF assms(1)] format_large [OF _ assms(2)] by (cases "u < 1000000000") simp_all

lemma u64_magnitude:
  assumes "in_i64 d"
  shows "nat (if d < 0 then u64 (- u64 d) else u64 d) = nat \<bar>d\<bar>"
proof -
  have "u64 (- u64 d) = u64 (- d)" by (simp add: u64_def take_bit_minus)
  moreover have "u64 \<bar>d\<bar> = \<bar>d\<bar>" using assms unfolding u64_def in_i64_def by (intro take_bit_int_eq_self) (simp_all add: abs_less_iff)
  ultimately show ?thesis by (cases "d < 0") simp_all
qed

lemma duration_String_iff:
  "in_i64 d \<Longrightarrow> duration_String d = (if d < 0 then CHR ''-'' # duration_format (nat \<bar>d\<bar>) else duration_format (nat \<bar>d\<bar>))"
  using u64_magnitude [of d] by (cases "d < 0") (simp_all add: duration_String_def Let_def)

lemma ParseDuration_String:
  assumes "in_i64 d"
  shows "ParseDuration (duration_String d) = Inr d"
proof (cases "d = 0")
  case True
  have "parse_parts ''0s'' 0 ''0s'' = Inr 0"
    using parse_parts_last [of "''0s''" "''0s''" 0 0] parse_part_fraction [of "''0''" "[]" 9 "''s''" 0 "''0s''"]
    by (simp add: units digit_val_def)
  with True show ?thesis
    by (simp add: duration_String_iff in_i64_def duration_format_def ParseDuration_def)
next
  case False
  let ?u = "nat \<bar>d\<bar>" let ?s = "duration_format ?u"
  have u: "0 < ?u" "?u \<le> 2 ^ 63" using assms False by (auto simp: in_i64_def)
  note p = format_parses [OF u]
  have hd: "hd ?s \<notin> {CHR ''-'', CHR ''+''}" "?s \<noteq> []" "?s \<noteq> ''0''"
    using conjunct1 [OF conjunct2 [OF p]] conjunct2 [OF conjunct2 [OF p]] by (auto simp: is_digit_def)
  show ?thesis
  proof (cases "d < 0")
    case True
    have "i64 (- i64 (int ?u)) = i64 (- int ?u)"
      unfolding i64_def using signed_take_bit_minus [of 63 "int ?u"] by simp
    also have "\<dots> = d" using True assms by simp
    finally show ?thesis
      using True p hd assms by (simp add: duration_String_iff ParseDuration_def)
  next
    case nonneg: False
    then have "\<not> ?u > 2 ^ 63 - 1" using assms by (auto simp: in_i64_def)
    with p hd have "ParseDuration ?s = Inr (int ?u)" by (simp add: ParseDuration_def)
    with nonneg assms show ?thesis by (simp add: duration_String_iff)
  qed
qed

text \<open>Whatever is accepted is a 64-bit value.\<close>

lemma ParseDuration_in_range: "ParseDuration s = Inr d \<Longrightarrow> in_i64 d"
  by (auto simp: ParseDuration_def Let_def i64_in_range split: if_splits sum.splits) (auto simp: in_i64_def)

text \<open>An example, evaluated.\<close>

lemma fmtFrac_loop_numeral:
  "fmtFrac_loop (numeral k) print v buf =
     (let d = v mod 10; print = (print \<or> d \<noteq> 0)
      in fmtFrac_loop (pred_numeral k) print (v div 10) (if print then digit d # buf else buf))"
  by (simp only: numeral_eq_Suc [of k] fmtFrac_loop.simps)

lemma digit_table:
  "map digit [0, 1, 2, 3, 4, 5, 6, 7, 8, 9] = ''0123456789''"
  by code_simp

lemma String_example: "duration_String (-5400500000000) = ''-1h30m0.5s''"
proof -
  have f: "fmtFrac 5400500000000 9 ''s'' = (''.5s'', 5400)"
    using digit_table by (simp add: fmtFrac_def fmtFrac_loop_numeral Let_def)
  have i: "fmtInt 0 b = CHR ''0'' # b" "fmtInt 1 b = CHR ''1'' # b" "fmtInt 30 b = CHR ''3'' # CHR ''0'' # b" for b
    using digit_table
    by (simp_all add: fmtInt_def fmtInt_loop.simps [of 0] fmtInt_loop.simps [of "Suc 0"] fmtInt_loop.simps [of 3] fmtInt_loop.simps [of 30])
  have "duration_format 5400500000000 = ''1h30m0.5s''"
    using i by (simp add: duration_format_def f)
  then show ?thesis by (simp add: duration_String_iff in_i64_def)
qed

end
