(* ===== verification/Config.thy ===== *)
theory Config
  imports Go_Strings Go_Duration
begin

text \<open>
  \<open>internal/config\<close>: the configuration records, the defaults \<open>Load\<close> starts from, the
  effective TTL of a bucket, and \<open>Validate\<close> with its checks in the source's order.
  \<open>internal/logging\<close> is the mapping from the configured level to the handler's level.
  The YAML decoder is a parameter; what the program adds to it, the text form of a duration, is
  modelled with Go's own parser and printer.
\<close>

section \<open>config.go\<close>

record CatalogConfig =
  SyncInterval :: duration
  NegCacheTTL :: duration
  DirCacheTTL :: duration
  SyncConcurrency :: int

record WriteBackConfig =
  wb_Enabled :: bool
  wb_Workers :: int
  wb_QueueSize :: int
  wb_RetryDelay :: duration
  wb_MaxRetries :: int

record BucketConfig =
  bc_Name :: string
  bc_Region :: string
  bc_Endpoint :: string
  bc_AccessKey :: string
  bc_SecretKey :: string
  bc_MountPoint :: string
  bc_TTL :: "duration option"
  bc_SoleWriter :: bool

record Config =
  CacheDir :: string
  MaxCacheSize :: int
  DefaultTTL :: duration
  LogLevel :: string
  cfg_Catalog :: CatalogConfig
  cfg_WriteBack :: WriteBackConfig
  Buckets :: "BucketConfig list"

text \<open>\<open>decode\<close> is \<open>yaml.Node.Decode\<close> into a string.\<close>

definition Duration_UnmarshalYAML :: "('node \<Rightarrow> go_error + string) \<Rightarrow> 'node \<Rightarrow> go_error + duration" where
  "Duration_UnmarshalYAML decode value =
     (case decode value of
        Inl err \<Rightarrow> Inl err
      | Inr s \<Rightarrow> (case ParseDuration s of Inl err \<Rightarrow> Inl err | Inr dur \<Rightarrow> Inr dur))"

definition Duration_MarshalYAML :: "duration \<Rightarrow> string" where
  "Duration_MarshalYAML d = duration_String d"

definition EffectiveTTL :: "BucketConfig \<Rightarrow> duration \<Rightarrow> duration" where
  "EffectiveTTL bc defaultTTL = (case bc_TTL bc of Some d \<Rightarrow> d | None \<Rightarrow> defaultTTL)"

definition default_config :: Config where
  "default_config =
     \<lparr>CacheDir = ''/var/cache/s3gw'',
      MaxCacheSize = 10 * 1024 * 1024 * 1024,
      DefaultTTL = 5 * 60 * second,
      LogLevel = ''info'',
      cfg_Catalog = \<lparr>SyncInterval = 5 * 60 * second, NegCacheTTL = 5 * second,
                     DirCacheTTL = 30 * second, SyncConcurrency = 4\<rparr>,
      cfg_WriteBack = \<lparr>wb_Enabled = True, wb_Workers = 4, wb_QueueSize = 1000,
                       wb_RetryDelay = 5 * second, wb_MaxRetries = 3\<rparr>,
      Buckets = []\<rparr>"

definition Load ::
  "(bytes \<Rightarrow> Config \<Rightarrow> go_error + Config) \<Rightarrow> (string \<Rightarrow> go_error + bytes) \<Rightarrow> string \<Rightarrow> go_error + Config" where
  "Load yaml_Unmarshal ReadFile path =
     (case ReadFile path of
        Inl err \<Rightarrow> Inl err
      | Inr data \<Rightarrow>
          (case yaml_Unmarshal data default_config of
             Inl err \<Rightarrow> Inl err
           | Inr cfg \<Rightarrow> Inr cfg))"

text \<open>C40: a duration written to the configuration is read back unchanged. This holds for every 64-bit
  value, negative ones and the smallest included, and for everything that was accepted from any
  text, since only 64-bit values are.\<close>

theorem duration_yaml_roundtrip:
  assumes "in_i64 d \<or> Duration_UnmarshalYAML decode0 node0 = Inr d"
    and "decode node = Inr (Duration_MarshalYAML d)"
  shows "Duration_UnmarshalYAML decode node = Inr d \<and> in_i64 d"
proof -
  have "in_i64 d"
    using assms(1) ParseDuration_in_range by (auto simp: Duration_UnmarshalYAML_def split: sum.splits)
  with assms(2) show ?thesis
    by (simp add: Duration_UnmarshalYAML_def Duration_MarshalYAML_def ParseDuration_String)
qed

theorem duration_yaml_roundtrip_witness:
  "Duration_MarshalYAML (-5400500000000) = ''-1h30m0.5s'' \<and> Duration_UnmarshalYAML Inr ''-1h30m0.5s'' = Inr (-5400500000000)"
proof -
  have m: "Duration_MarshalYAML (-5400500000000) = ''-1h30m0.5s''"
    by (simp only: Duration_MarshalYAML_def String_example)
  have "in_i64 (-5400500000000)" by (simp add: in_i64_def)
  with duration_yaml_roundtrip [of "-5400500000000" Inr "[]" Inr "''-1h30m0.5s''"] m show ?thesis by simp
qed

section \<open>validate.go\<close>

text \<open>One constructor per error \<open>Validate\<close> can return.\<close>

datatype bucket_error =
    NameRequired | EndpointRequired | AccessKeyRequired | SecretKeyRequired
  | MountPointRequired | MountPointNotAbs | RegionRequired
  | DuplicateMountPoint string | DuplicateName string

datatype config_error =
    CacheDirRequired | CacheDirNotAbs | MaxCacheSizeNotPositive | NoBuckets
  | SyncIntervalNotPositive | NegCacheTTLNegative | DirCacheTTLNegative
  | SyncConcurrencyNotPositive | WorkersNotPositive | QueueSizeNotPositive
  | MaxRetriesNegative | BucketError nat bucket_error

text \<open>The body of the loop over the buckets; the maps hold the mount points and names seen.\<close>

definition check_bucket :: "string list \<Rightarrow> string list \<Rightarrow> BucketConfig \<Rightarrow> bucket_error option" where
  "check_bucket mountPoints bucketNames b =
     (if bc_Name b = [] then Some NameRequired
      else if bc_Endpoint b = [] then Some EndpointRequired
      else if bc_AccessKey b = [] then Some AccessKeyRequired
      else if bc_SecretKey b = [] then Some SecretKeyRequired
      else if bc_MountPoint b = [] then Some MountPointRequired
      else if \<not> IsAbs (bc_MountPoint b) then Some MountPointNotAbs
      else if bc_Region b = [] then Some RegionRequired
      else if bc_MountPoint b \<in> set mountPoints then Some (DuplicateMountPoint (bc_MountPoint b))
      else if bc_Name b \<in> set bucketNames then Some (DuplicateName (bc_Name b))
      else None)"

fun check_buckets ::
  "nat \<Rightarrow> string list \<Rightarrow> string list \<Rightarrow> BucketConfig list \<Rightarrow> config_error option" where
  "check_buckets i mountPoints bucketNames [] = None"
| "check_buckets i mountPoints bucketNames (b # bs) =
     (case check_bucket mountPoints bucketNames b of
        Some e \<Rightarrow> Some (BucketError i e)
      | None \<Rightarrow> check_buckets (Suc i) (bc_MountPoint b # mountPoints) (bc_Name b # bucketNames) bs)"

definition Validate :: "Config \<Rightarrow> config_error option" where
  "Validate cfg =
     (if CacheDir cfg = [] then Some CacheDirRequired
      else if \<not> IsAbs (CacheDir cfg) then Some CacheDirNotAbs
      else if MaxCacheSize cfg \<le> 0 then Some MaxCacheSizeNotPositive
      else if length (Buckets cfg) = 0 then Some NoBuckets
      else if SyncInterval (cfg_Catalog cfg) \<le> 0 then Some SyncIntervalNotPositive
      else if NegCacheTTL (cfg_Catalog cfg) < 0 then Some NegCacheTTLNegative
      else if DirCacheTTL (cfg_Catalog cfg) < 0 then Some DirCacheTTLNegative
      else if SyncConcurrency (cfg_Catalog cfg) \<le> 0 then Some SyncConcurrencyNotPositive
      else if wb_Enabled (cfg_WriteBack cfg) \<and> wb_Workers (cfg_WriteBack cfg) \<le> 0
        then Some WorkersNotPositive
      else if wb_Enabled (cfg_WriteBack cfg) \<and> wb_QueueSize (cfg_WriteBack cfg) \<le> 0
        then Some QueueSizeNotPositive
      else if wb_Enabled (cfg_WriteBack cfg) \<and> wb_MaxRetries (cfg_WriteBack cfg) < 0
        then Some MaxRetriesNegative
      else check_buckets 0 [] [] (Buckets cfg))"

section \<open>What a valid configuration is\<close>

definition bucket_ok :: "BucketConfig \<Rightarrow> bool" where
  "bucket_ok b \<longleftrightarrow>
     bc_Name b \<noteq> [] \<and> bc_Endpoint b \<noteq> [] \<and> bc_AccessKey b \<noteq> [] \<and> bc_SecretKey b \<noteq> [] \<and>
     IsAbs (bc_MountPoint b) \<and> bc_Region b \<noteq> []"

definition valid_config :: "Config \<Rightarrow> bool" where
  "valid_config cfg \<longleftrightarrow>
     IsAbs (CacheDir cfg) \<and> 0 < MaxCacheSize cfg \<and> Buckets cfg \<noteq> [] \<and>
     0 < SyncInterval (cfg_Catalog cfg) \<and> 0 \<le> NegCacheTTL (cfg_Catalog cfg) \<and>
     0 \<le> DirCacheTTL (cfg_Catalog cfg) \<and> 0 < SyncConcurrency (cfg_Catalog cfg) \<and>
     (if wb_Enabled (cfg_WriteBack cfg)
      then 0 < wb_Workers (cfg_WriteBack cfg) \<and> 0 < wb_QueueSize (cfg_WriteBack cfg) \<and>
           0 \<le> wb_MaxRetries (cfg_WriteBack cfg)
      else True) \<and>
     list_all bucket_ok (Buckets cfg) \<and>
     distinct (map bc_MountPoint (Buckets cfg)) \<and> distinct (map bc_Name (Buckets cfg))"

lemma IsAbs_ne: "IsAbs p \<Longrightarrow> p \<noteq> []"
  by (auto simp: IsAbs_iff)

lemma check_bucket_None:
  "check_bucket mps names b = None \<longleftrightarrow>
     bucket_ok b \<and> bc_MountPoint b \<notin> set mps \<and> bc_Name b \<notin> set names"
  by (auto simp: check_bucket_def bucket_ok_def dest: IsAbs_ne)

lemma check_buckets_None:
  "check_buckets i mps names bs = None \<longleftrightarrow>
     list_all bucket_ok bs \<and>
     distinct (map bc_MountPoint bs) \<and> set (map bc_MountPoint bs) \<inter> set mps = {} \<and>
     distinct (map bc_Name bs) \<and> set (map bc_Name bs) \<inter> set names = {}"
proof (induction bs arbitrary: i mps names)
  case (Cons b bs)
  show ?case
    by (cases "check_bucket mps names b")
      (use check_bucket_None [of mps names b] in \<open>auto simp: Cons.IH\<close>)
qed simp

lemma check_buckets_Some:
  "check_buckets i mps names bs = Some e \<Longrightarrow>
     \<exists>j be. j < length bs \<and> e = BucketError (i + j) be \<and>
       check_buckets i mps names (take j bs) = None \<and>
       check_bucket (rev (map bc_MountPoint (take j bs)) @ mps)
         (rev (map bc_Name (take j bs)) @ names) (bs ! j) = Some be"
proof (induction bs arbitrary: i mps names)
  case (Cons b bs)
  show ?case
  proof (cases "check_bucket mps names b")
    case None
    with Cons.prems Cons.IH [of "Suc i"] obtain j be where
      "j < length bs" "e = BucketError (Suc i + j) be"
      "check_buckets (Suc i) (bc_MountPoint b # mps) (bc_Name b # names) (take j bs) = None"
      "check_bucket (rev (map bc_MountPoint (take j bs)) @ bc_MountPoint b # mps)
         (rev (map bc_Name (take j bs)) @ bc_Name b # names) (bs ! j) = Some be"
      by fastforce
    with None show ?thesis
      by (intro exI [of _ "Suc j"] exI [of _ be]) simp
  next
    case (Some be)
    with Cons.prems show ?thesis by (intro exI [of _ 0] exI [of _ be]) simp
  qed
qed simp

lemma Validate_valid: "Validate cfg = None \<longleftrightarrow> valid_config cfg"
  unfolding Validate_def valid_config_def
  by (auto simp: check_buckets_None dest: IsAbs_ne)

text \<open>C31: \<open>Validate\<close> accepts exactly the configurations in which every setting is in range,
  every bucket is complete with an absolute mount point, and no two buckets share a name
  or a mount point.\<close>

theorem Validate_iff_valid: "Validate cfg = None \<longleftrightarrow> valid_config cfg"
  by (rule Validate_valid)

text \<open>An error that names bucket \<open>i\<close> is about that bucket, and all buckets before it had
  passed: the buckets below \<open>i\<close> are complete and distinct, and bucket \<open>i\<close> itself is
  incomplete or repeats a name or mount point of one of them.\<close>

theorem Validate_bucket_error:
  assumes "Validate cfg = Some (BucketError i be)"
  shows "i < length (Buckets cfg) \<and>
    list_all bucket_ok (take i (Buckets cfg)) \<and>
    distinct (map bc_MountPoint (take i (Buckets cfg))) \<and>
    distinct (map bc_Name (take i (Buckets cfg))) \<and>
    (\<not> bucket_ok (Buckets cfg ! i) \<or>
     bc_MountPoint (Buckets cfg ! i) \<in> set (map bc_MountPoint (take i (Buckets cfg))) \<or>
     bc_Name (Buckets cfg ! i) \<in> set (map bc_Name (take i (Buckets cfg))))"
proof -
  let ?bs = "Buckets cfg"
  from assms have "check_buckets 0 [] [] ?bs = Some (BucketError i be)"
    by (auto simp: Validate_def split: if_splits)
  from check_buckets_Some [OF this]
  have i: "i < length ?bs"
    and before: "check_buckets 0 [] [] (take i ?bs) = None"
    and at: "check_bucket (rev (map bc_MountPoint (take i ?bs))) (rev (map bc_Name (take i ?bs)))
      (?bs ! i) = Some be"
    by auto
  from at have "check_bucket (rev (map bc_MountPoint (take i ?bs)))
      (rev (map bc_Name (take i ?bs))) (?bs ! i) \<noteq> None" by simp
  with i before show ?thesis
    by (simp add: check_buckets_None check_bucket_None del: set_map)
qed

definition sample_bucket :: "string \<Rightarrow> string \<Rightarrow> BucketConfig" where
  "sample_bucket name mp =
     \<lparr>bc_Name = name, bc_Region = ''us-east-1'', bc_Endpoint = ''https://e'', bc_AccessKey = ''a'',
      bc_SecretKey = ''s'', bc_MountPoint = mp, bc_TTL = None, bc_SoleWriter = False\<rparr>"

theorem Validate_bucket_error_witness:
  "\<exists>cfg be. Validate cfg = Some (BucketError 1 be) \<and>
     bc_MountPoint (Buckets cfg ! 1) \<in> set (map bc_MountPoint (take 1 (Buckets cfg)))"
proof -
  let ?cfg = "default_config\<lparr>Buckets := [sample_bucket ''a'' ''/m'', sample_bucket ''b'' ''/m'']\<rparr>"
  have h: "Validate ?cfg = Some (BucketError 1 (DuplicateMountPoint ''/m''))"
    by (simp add: Validate_def default_config_def sample_bucket_def check_bucket_def
        IsAbs_iff second_def)
  from Validate_bucket_error [OF h] h show ?thesis
    by (intro exI [of _ ?cfg] exI [of _ "DuplicateMountPoint ''/m''"])
      (auto simp: sample_bucket_def bucket_ok_def IsAbs_iff)
qed

text \<open>The defaults are valid as soon as one complete bucket is configured.\<close>

lemma default_config_valid:
  "bucket_ok b \<Longrightarrow> Validate (default_config\<lparr>Buckets := [b]\<rparr>) = None"
  by (simp add: Validate_valid valid_config_def default_config_def IsAbs_iff second_def)

section \<open>logging.go\<close>

datatype log_level = LevelDebug | LevelInfo | LevelWarn | LevelError

definition log_Init :: "string \<Rightarrow> log_level" where
  "log_Init level =
     (let l = ToLower level
      in if l = ''debug'' then LevelDebug
         else if l = ''warn'' \<or> l = ''warning'' then LevelWarn
         else if l = ''error'' then LevelError
         else LevelInfo)"

end
