(* ===== verification/Go_Hash.thy ===== *)
theory Go_Hash
  imports Go_Strings "HOL-Library.Word"
begin

unbundle bit_operations_syntax

text \<open>
  The two hash functions of Go's standard library the program uses: 64-bit FNV-1a
  (\<open>hash/fnv\<close>, inode numbers) and SHA-256 (\<open>crypto/sha256\<close>, file names of the disk
  cache), the latter printed with \<open>%x\<close>.
\<close>

section \<open>FNV-1a, 64 bits\<close>

definition fnv1a_step :: "char \<Rightarrow> 64 word \<Rightarrow> 64 word" where
  "fnv1a_step c h = (h XOR of_char c) * 1099511628211"

definition fnv1a_64 :: "bytes \<Rightarrow> 64 word" where
  "fnv1a_64 s = fold fnv1a_step s 14695981039346656037"

lemma odd_mult_inj:
  fixes a b m n :: "64 word"
  assumes "m * n = 1" and "a * m = b * m"
  shows "a = b"
proof -
  have "a * (m * n) = b * (m * n)" using assms(2) by (metis mult.assoc)
  with assms(1) show ?thesis by simp
qed

lemma fnv_prime_unit: "(1099511628211 :: 64 word) * 14886173955864302971 = 1"
  by simp

lemma of_char_inj64: "(of_char c :: 64 word) = of_char d \<longleftrightarrow> c = d"
proof
  assume h: "(of_char c :: 64 word) = of_char d"
  have n: "(of_char x :: 64 word) = of_nat (of_char x)" for x :: char by (simp only: of_nat_of_char)
  have lt: "(of_char x :: nat) < 2 ^ LENGTH(64)" for x :: char
    by (rule less_trans [OF nat_of_char_less_256]) simp
  from h have "unat (of_nat (of_char c) :: 64 word) = unat (of_nat (of_char d) :: 64 word)"
    by (simp add: n)
  then have "(of_char c :: nat) = of_char d"
    using lt [of c] lt [of d] by (simp add: unat_of_nat take_bit_nat_eq_self_iff take_bit_nat_eq_self)
  then show "c = d" by simp
qed simp

lemma xor_cancel_left:
  fixes a b c :: "64 word"
  assumes "a XOR b = a XOR c"
  shows "b = c"
proof -
  have "a XOR (a XOR b) = a XOR (a XOR c)" using assms by (rule arg_cong)
  then show ?thesis by (simp flip: xor.assoc)
qed

lemma fnv1a_step_inj_state: "fnv1a_step c h = fnv1a_step c h' \<Longrightarrow> h = h'"
  unfolding fnv1a_step_def
  by (drule odd_mult_inj [OF fnv_prime_unit]) (metis xor.commute xor_cancel_left)

lemma fnv1a_step_inj_byte: "fnv1a_step c h = fnv1a_step d h \<Longrightarrow> c = d"
  unfolding fnv1a_step_def
  by (drule odd_mult_inj [OF fnv_prime_unit], drule xor_cancel_left) (simp only: of_char_inj64)

lemma fnv1a_fold_inj: "fold fnv1a_step s h = fold fnv1a_step s h' \<Longrightarrow> h = h'"
  by (induction s arbitrary: h h') (auto dest: fnv1a_step_inj_state)

section \<open>SHA-256\<close>

definition sha_K :: "32 word list" where
  "sha_K =
   [0x428A2F98, 0x71374491, 0xB5C0FBCF, 0xE9B5DBA5,
    0x3956C25B, 0x59F111F1, 0x923F82A4, 0xAB1C5ED5,
    0xD807AA98, 0x12835B01, 0x243185BE, 0x550C7DC3,
    0x72BE5D74, 0x80DEB1FE, 0x9BDC06A7, 0xC19BF174,
    0xE49B69C1, 0xEFBE4786, 0x0FC19DC6, 0x240CA1CC,
    0x2DE92C6F, 0x4A7484AA, 0x5CB0A9DC, 0x76F988DA,
    0x983E5152, 0xA831C66D, 0xB00327C8, 0xBF597FC7,
    0xC6E00BF3, 0xD5A79147, 0x06CA6351, 0x14292967,
    0x27B70A85, 0x2E1B2138, 0x4D2C6DFC, 0x53380D13,
    0x650A7354, 0x766A0ABB, 0x81C2C92E, 0x92722C85,
    0xA2BFE8A1, 0xA81A664B, 0xC24B8B70, 0xC76C51A3,
    0xD192E819, 0xD6990624, 0xF40E3585, 0x106AA070,
    0x19A4C116, 0x1E376C08, 0x2748774C, 0x34B0BCB5,
    0x391C0CB3, 0x4ED8AA4A, 0x5B9CCA4F, 0x682E6FF3,
    0x748F82EE, 0x78A5636F, 0x84C87814, 0x8CC70208,
    0x90BEFFFA, 0xA4506CEB, 0xBEF9A3F7, 0xC67178F2]"

definition sha_H0 :: "32 word list" where
  "sha_H0 =
   [0x6A09E667, 0xBB67AE85, 0x3C6EF372, 0xA54FF53A,
    0x510E527F, 0x9B05688C, 0x1F83D9AB, 0x5BE0CD19]"

definition byte32 :: "char \<Rightarrow> 32 word" where
  "byte32 c = of_char c"

text \<open>Padding: the bit 1, zeros up to 56 bytes modulo 64, the bit length in 8 bytes.\<close>

definition len_bytes :: "nat \<Rightarrow> 32 word list" where
  "len_bytes n = map (\<lambda>i. ucast (drop_bit (8 * i) (word_of_nat n :: 64 word) AND 255)) [7, 6, 5, 4, 3, 2, 1, 0]"

definition sha_pad :: "bytes \<Rightarrow> 32 word list" where
  "sha_pad m =
     map byte32 m @ [0x80] @ replicate ((119 - length m mod 64) mod 64) 0 @ len_bytes (8 * length m)"

fun be_words :: "32 word list \<Rightarrow> 32 word list" where
  "be_words (a # b # c # d # r) =
     (push_bit 24 a OR push_bit 16 b OR push_bit 8 c OR d) # be_words r"
| "be_words _ = []"

definition sha_s0 :: "32 word \<Rightarrow> 32 word" where
  "sha_s0 x = word_rotr 7 x XOR word_rotr 18 x XOR drop_bit 3 x"

definition sha_s1 :: "32 word \<Rightarrow> 32 word" where
  "sha_s1 x = word_rotr 17 x XOR word_rotr 19 x XOR drop_bit 10 x"

text \<open>The message schedule, kept in reverse: the newest word first.\<close>

fun sha_schedule :: "nat \<Rightarrow> 32 word list \<Rightarrow> 32 word list" where
  "sha_schedule 0 ws = rev ws"
| "sha_schedule (Suc n) ws =
     sha_schedule n ((sha_s1 (ws ! 1) + ws ! 6 + sha_s0 (ws ! 14) + ws ! 15) # ws)"

fun sha_round :: "32 word \<times> 32 word \<Rightarrow> 32 word list \<Rightarrow> 32 word list" where
  "sha_round (k, w) [a, b, c, d, e, f, g, h] =
     (let S1 = word_rotr 6 e XOR word_rotr 11 e XOR word_rotr 25 e;
          ch = (e AND f) XOR (NOT e AND g);
          t1 = h + S1 + ch + k + w;
          S0 = word_rotr 2 a XOR word_rotr 13 a XOR word_rotr 22 a;
          maj = (a AND b) XOR (a AND c) XOR (b AND c);
          t2 = S0 + maj
      in [t1 + t2, a, b, c, d + t1, e, f, g])"
| "sha_round _ hs = hs"

definition sha_block :: "32 word list \<Rightarrow> 32 word list \<Rightarrow> 32 word list" where
  "sha_block blk hs =
     map2 (+) hs (fold sha_round (zip sha_K (sha_schedule 48 (rev blk))) hs)"

fun sha_blocks :: "nat \<Rightarrow> 32 word list \<Rightarrow> 32 word list \<Rightarrow> 32 word list" where
  "sha_blocks 0 ws hs = hs"
| "sha_blocks (Suc n) ws hs = sha_blocks n (drop 16 ws) (sha_block (take 16 ws) hs)"

definition sha256 :: "bytes \<Rightarrow> 32 word list" where
  "sha256 m = (let ws = be_words (sha_pad m) in sha_blocks (length ws div 16) ws sha_H0)"

text \<open>\<open>fmt.Sprintf("%x", ...)\<close>: two lower-case hexadecimal digits per byte.\<close>

definition hex_digit :: "nat \<Rightarrow> char" where
  "hex_digit d = ''0123456789abcdef'' ! d"

definition hex_word :: "32 word \<Rightarrow> string" where
  "hex_word w = map (\<lambda>i. hex_digit (unat (drop_bit (4 * i) w AND 15))) [7, 6, 5, 4, 3, 2, 1, 0]"

definition sha256_hex :: "bytes \<Rightarrow> string" where
  "sha256_hex m = concat (map hex_word (sha256 m))"

lemma hex_digit_mem: "d < 16 \<Longrightarrow> hex_digit d \<in> set ''0123456789abcdef''"
  unfolding hex_digit_def by (rule nth_mem) simp

lemma unat_and_15: "unat ((w :: 32 word) AND 15) < 16"
proof -
  have "w AND 15 \<le> 15" by (rule word_and_le1)
  then have "unat (w AND 15) \<le> unat (15 :: 32 word)" by (simp add: word_le_nat_alt)
  then show ?thesis by simp
qed

lemma hex_digit_plain:
  "hex_digit (unat ((w :: 32 word) AND 15)) \<noteq> CHR ''/'' \<and>
   hex_digit (unat (w AND 15)) \<noteq> CHR ''.''"
  using hex_digit_mem [OF unat_and_15 [of w]] by auto

lemma sha_round_length [simp]: "length (sha_round kw hs) = length hs"
  by (induction kw hs rule: sha_round.induct) (simp_all add: Let_def)

lemma sha_rounds_length: "length (fold sha_round kws hs) = length hs"
  by (induction kws arbitrary: hs) simp_all

lemma sha_blocks_length: "length (sha_blocks n ws hs) = length hs"
  by (induction n ws hs rule: sha_blocks.induct) (auto simp: sha_block_def sha_rounds_length)

lemma sha256_length: "length (sha256 m) = 8"
  by (simp add: sha256_def sha_blocks_length sha_H0_def Let_def)

lemma sha256_hex_length [simp]: "length (sha256_hex m) = 64"
proof -
  have "length (concat (map hex_word ws)) = 8 * length ws" for ws
    by (induction ws) (auto simp: hex_word_def)
  then show ?thesis by (simp add: sha256_hex_def sha256_length)
qed

lemma sha256_hex_chars: "c \<in> set (sha256_hex m) \<Longrightarrow> c \<noteq> CHR ''/'' \<and> c \<noteq> CHR ''.''"
  using hex_digit_plain by (fastforce simp: sha256_hex_def hex_word_def)

lemma sha256_hex_no_dash: "CHR ''-'' \<notin> set (sha256_hex m)"
proof -
  have "hex_digit (unat ((w :: 32 word) AND 15)) \<noteq> CHR ''-''" for w
    using hex_digit_mem [OF unat_and_15 [of w]] by auto
  then show ?thesis by (fastforce simp: sha256_hex_def hex_word_def)
qed

lemma sha256_hex_plain: "plain (sha256_hex m)"
proof -
  have "sha256_hex m \<noteq> []" using sha256_hex_length [of m] by (metis list.size(3) zero_neq_numeral)
  moreover have "CHR ''/'' \<notin> set (sha256_hex m)" "CHR ''.'' \<notin> set (sha256_hex m)"
    using sha256_hex_chars by blast+
  ultimately show ?thesis by (auto simp: plain_def)
qed

lemma sha256_hex_prefix_plain: "plain (take 2 (sha256_hex m))"
proof -
  have "take 2 (sha256_hex m) \<noteq> []"
    using sha256_hex_length [of m] by (metis list.size(3) take_eq_Nil zero_neq_numeral)
  moreover have "CHR ''/'' \<notin> set (take 2 (sha256_hex m))" "CHR ''.'' \<notin> set (take 2 (sha256_hex m))"
    using sha256_hex_chars in_set_takeD by metis+
  ultimately show ?thesis by (auto simp: plain_def)
qed

end
