(* ===== verification/Os_Model.thy ===== *)
theory Os_Model
  imports Go_Strings "HOL-Library.Finite_Map"
begin

text \<open>
  The part of Go's \<open>os\<close> and \<open>io\<close> packages the program uses on regular files. The file
  system maps path names to contents; directories are not tracked. Every call can fail:
  \<open>fault\<close> is the environment's choice of the error a call on a path returns, \<open>copied\<close>
  how many bytes a failing copy has written, \<open>temp_name\<close> the name \<open>os.CreateTemp\<close> picks.
  The faults stay fixed during one operation of the program and may change between two.
\<close>

section \<open>State\<close>

datatype os_op =
    OpMkdirAll | OpSeek | OpCreateTemp | OpCopy | OpClose | OpRename | OpRemove | OpOpen
  | OpStat | OpReadAt | OpWriteAt

record os =
  files :: "(string, bytes) fmap"
  fault :: "os_op \<Rightarrow> string \<Rightarrow> go_error option"
  copied :: "string \<Rightarrow> nat"
  temp_name :: "string \<Rightarrow> string \<Rightarrow> (string, bytes) fmap \<Rightarrow> string"

definition not_exist :: "string \<Rightarrow> go_error" where
  "not_exist p = errorf (p @ '': no such file or directory'')"

section \<open>Calls\<close>

definition os_MkdirAll :: "string \<Rightarrow> os \<Rightarrow> go_error option" where
  "os_MkdirAll p s = fault s OpMkdirAll p"

definition os_Stat :: "string \<Rightarrow> os \<Rightarrow> go_error + int" where
  "os_Stat p s =
     (case fault s OpStat p of
        Some e \<Rightarrow> Inl e
      | None \<Rightarrow> (case fmlookup (files s) p of None \<Rightarrow> Inl (not_exist p) | Some c \<Rightarrow> Inr (int (length c))))"

definition os_Open :: "string \<Rightarrow> os \<Rightarrow> go_error + bytes" where
  "os_Open p s =
     (case fault s OpOpen p of
        Some e \<Rightarrow> Inl e
      | None \<Rightarrow> (case fmlookup (files s) p of None \<Rightarrow> Inl (not_exist p) | Some c \<Rightarrow> Inr c))"

definition os_Remove :: "string \<Rightarrow> os \<Rightarrow> go_error option \<times> os" where
  "os_Remove p s =
     (case fault s OpRemove p of
        Some e \<Rightarrow> (Some e, s)
      | None \<Rightarrow>
          (case fmlookup (files s) p of
             None \<Rightarrow> (Some (not_exist p), s)
           | Some _ \<Rightarrow> (None, s\<lparr>files := fmdrop p (files s)\<rparr>)))"

definition os_Rename :: "string \<Rightarrow> string \<Rightarrow> os \<Rightarrow> go_error option \<times> os" where
  "os_Rename p q s =
     (case fault s OpRename p of
        Some e \<Rightarrow> (Some e, s)
      | None \<Rightarrow>
          (case fmlookup (files s) p of
             None \<Rightarrow> (Some (not_exist p), s)
           | Some c \<Rightarrow> (None, s\<lparr>files := fmupd q c (fmdrop p (files s))\<rparr>)))"

text \<open>\<open>os.CreateTemp\<close> creates a new empty file and returns its name.\<close>

definition os_CreateTemp :: "string \<Rightarrow> string \<Rightarrow> os \<Rightarrow> (go_error + string) \<times> os" where
  "os_CreateTemp dir pat s =
     (case fault s OpCreateTemp dir of
        Some e \<Rightarrow> (Inl e, s)
      | None \<Rightarrow>
          (let n = temp_name s dir pat (files s)
           in (Inr n, s\<lparr>files := fmupd n [] (files s)\<rparr>)))"

text \<open>\<open>io.Copy\<close> into the new file \<open>dst\<close>; a failing copy leaves the bytes it had written.\<close>

definition io_Copy :: "string \<Rightarrow> bytes \<Rightarrow> go_error option \<Rightarrow> os \<Rightarrow> go_error option \<times> os" where
  "io_Copy dst data src_err s =
     (case fault s OpCopy dst of
        Some e \<Rightarrow> (Some e, s\<lparr>files := fmupd dst (take (copied s dst) data) (files s)\<rparr>)
      | None \<Rightarrow> (src_err, s\<lparr>files := fmupd dst data (files s)\<rparr>))"

text \<open>
  \<open>File.ReadAt(dest, off)\<close>: the bytes read and whether \<open>io.EOF\<close> is returned, or an error.
\<close>

definition read_at :: "bytes \<Rightarrow> nat \<Rightarrow> int \<Rightarrow> go_error + bytes \<times> bool" where
  "read_at c n off =
     (if off < 0 then Inl (errorf ''negative offset'')
      else let d = take n (drop (nat off) c) in Inr (d, length d < n))"

text \<open>\<open>File.WriteAt(data, off)\<close>: a gap between the old end and \<open>off\<close> reads as zeros.\<close>

definition zeros :: "nat \<Rightarrow> bytes" where
  "zeros n = replicate n (CHR 0x00)"

definition write_at :: "bytes \<Rightarrow> bytes \<Rightarrow> nat \<Rightarrow> bytes" where
  "write_at c d off =
     (if d = [] then c
      else take off c @ zeros (off - length c) @ d @ drop (off + length d) c)"

section \<open>What \<open>os.CreateTemp\<close> promises\<close>

text \<open>
  The name is in the given directory (the system's for an empty one), is the pattern
  with its final \<open>*\<close> replaced by digits, and no file has it.
\<close>

definition temp_dir :: "string \<Rightarrow> string" where
  "temp_dir dir = (if dir = [] then ''/tmp'' else dir)"

definition temp_ok :: "os \<Rightarrow> bool" where
  "temp_ok s \<longleftrightarrow>
     (\<forall>dir pat fs. fmlookup fs (temp_name s dir (pat @ ''*'') fs) = None \<and>
        (\<exists>r. list_all is_digit r \<and>
           temp_name s dir (pat @ ''*'') fs = temp_dir dir @ ''/'' @ pat @ r))"

lemma temp_ok_files [simp]: "temp_ok (s\<lparr>files := f\<rparr>) = temp_ok s"
  by (simp add: temp_ok_def)

lemma temp_fresh:
  assumes "temp_ok s"
  shows "fmlookup fs (temp_name s dir (pat @ ''*'') fs) = None"
  using assms by (simp add: temp_ok_def)

lemma temp_shape:
  assumes "temp_ok s"
  obtains r where "list_all is_digit r"
    "temp_name s dir (pat @ ''*'') fs = temp_dir dir @ ''/'' @ pat @ r"
  using assms unfolding temp_ok_def by blast

lemma digit_no_slash: "list_all is_digit r \<Longrightarrow> CHR ''/'' \<notin> set r"
  by (induction r) (auto simp: is_digit_def)

text \<open>
  A file system that meets the promise: the random part is a run of zeros longer than any
  existing file name.
\<close>

definition zero_temp :: "string \<Rightarrow> string \<Rightarrow> (string, bytes) fmap \<Rightarrow> string" where
  "zero_temp dir pat fs =
     temp_dir dir @ ''/'' @ butlast pat @ replicate (Suc (\<Sum>n\<in>fset (fmdom fs). length n)) (CHR ''0'')"

definition demo_os :: os where
  "demo_os = \<lparr>files = fmempty, fault = (\<lambda>_ _. None), copied = (\<lambda>_. 0), temp_name = zero_temp\<rparr>"

lemma zero_temp_fresh: "fmlookup fs (zero_temp dir pat fs) = None"
proof (rule ccontr)
  assume "\<not> ?thesis"
  then have "zero_temp dir pat fs \<in> fset (fmdom fs)" by (simp add: fmdom_notI fmlookup_dom_iff)
  then have "length (zero_temp dir pat fs) \<le> (\<Sum>n\<in>fset (fmdom fs). length n)"
    by (intro member_le_sum) auto
  then show False by (simp add: zero_temp_def)
qed

lemma demo_temp_ok: "temp_name s = zero_temp \<Longrightarrow> temp_ok s"
  unfolding temp_ok_def
  by (auto simp: zero_temp_fresh) (auto simp: zero_temp_def is_digit_def list_all_iff)

section \<open>Reading back what was written\<close>

lemma length_write_at: "length (write_at c d off) = (if d = [] then length c else max (length c) (off + length d))"
  by (auto simp: write_at_def zeros_def)

lemma read_write_at:
  assumes "d \<noteq> []"
  shows "take (length d) (drop off (write_at c d off)) = d"
proof -
  have "length (take off c @ zeros (off - length c)) = off" by (simp add: zeros_def)
  then show ?thesis using assms by (simp add: write_at_def flip: append_assoc)
qed

lemma write_at_append: "write_at c d (length c) = c @ d"
  by (simp add: write_at_def zeros_def)

lemma write_at_empty: "d \<noteq> [] \<Longrightarrow> write_at [] d off = zeros off @ d"
  by (simp add: write_at_def)

lemma os_Remove_files:
  "fmlookup (files (snd (os_Remove p s))) q =
     (if q = p \<and> fault s OpRemove p = None then None else fmlookup (files s) q)"
  by (auto simp: os_Remove_def split: option.splits)

lemma os_Remove_env [simp]:
  "fault (snd (os_Remove p s)) = fault s" "temp_name (snd (os_Remove p s)) = temp_name s"
  "copied (snd (os_Remove p s)) = copied s"
  by (simp_all add: os_Remove_def split: option.splits)

lemma os_Remove_None: "fst (os_Remove p s) = None \<Longrightarrow> fmlookup (files (snd (os_Remove p s))) p = None"
  by (auto simp: os_Remove_def split: option.splits)

end
