(* ===== verification/Disk_Store.thy ===== *)
theory Disk_Store
  imports Os_Model Go_Hash
begin

text \<open>
  \<open>internal/cache/store.go\<close>: the cached file contents on disk. A cached object lives at
  \<open>baseDir/bucket/hh/hash\<close>, where \<open>hash\<close> is the SHA-256 of its key in hexadecimal and
  \<open>hh\<close> its first two digits.
\<close>

section \<open>Operations\<close>

record DiskStore =
  ds_baseDir :: string

definition NewDiskStore :: "string \<Rightarrow> os \<Rightarrow> go_error + DiskStore" where
  "NewDiskStore baseDir s =
     (case os_MkdirAll baseDir s of
        Some err \<Rightarrow> Inl (wrapf ''create cache store dir'' err)
      | None \<Rightarrow> Inr \<lparr>ds_baseDir = baseDir\<rparr>)"

definition ds_Path :: "DiskStore \<Rightarrow> string \<Rightarrow> string \<Rightarrow> string" where
  "ds_Path ds bucket key =
     (let hash = sha256_hex key;
          prefix = take 2 hash
      in filepath_Join [ds_baseDir ds, bucket, prefix, hash])"

definition ds_Exists :: "DiskStore \<Rightarrow> string \<Rightarrow> string \<Rightarrow> os \<Rightarrow> bool" where
  "ds_Exists ds bucket key s =
     (case os_Stat (ds_Path ds bucket key) s of Inl _ \<Rightarrow> False | Inr _ \<Rightarrow> True)"

text \<open>The source file is given by its contents, read from the start after the \<open>Seek\<close>.\<close>

definition ds_Write ::
  "DiskStore \<Rightarrow> string \<Rightarrow> string \<Rightarrow> string \<times> bytes \<Rightarrow> os \<Rightarrow> go_error option \<times> os" where
  "ds_Write ds bucket key src s =
     (let destPath = ds_Path ds bucket key in
      case os_MkdirAll (filepath_Dir destPath) s of
        Some err \<Rightarrow> (Some (wrapf ''create cache dir'' err), s)
      | None \<Rightarrow>
     (case fault s OpSeek (fst src) of
        Some err \<Rightarrow> (Some (wrapf ''seek source'' err), s)
      | None \<Rightarrow>
     (case os_CreateTemp (filepath_Dir destPath) ''.cache-*'' s of
        (Inl err, s1) \<Rightarrow> (Some (wrapf ''create temp for cache'' err), s1)
      | (Inr tmpName, s1) \<Rightarrow>
     (case io_Copy tmpName (snd src) None s1 of
        (Some err, s2) \<Rightarrow> (Some (wrapf ''copy to cache'' err), snd (os_Remove tmpName s2))
      | (None, s2) \<Rightarrow>
     (case fault s2 OpClose tmpName of
        Some err \<Rightarrow> (Some (wrapf ''close cache file'' err), snd (os_Remove tmpName s2))
      | None \<Rightarrow>
     (case os_Rename tmpName destPath s2 of
        (Some err, s3) \<Rightarrow> (Some (wrapf ''rename cache file'' err), snd (os_Remove tmpName s3))
      | (None, s3) \<Rightarrow> (None, s3)))))))"

definition ds_Read ::
  "DiskStore \<Rightarrow> string \<Rightarrow> string \<Rightarrow> int \<Rightarrow> nat \<Rightarrow> os \<Rightarrow> go_error + bytes \<times> bool" where
  "ds_Read ds bucket key off n s =
     (case os_Open (ds_Path ds bucket key) s of
        Inl err \<Rightarrow> Inl err
      | Inr c \<Rightarrow>
          (case fault s OpReadAt (ds_Path ds bucket key) of
             Some err \<Rightarrow> Inl err
           | None \<Rightarrow> read_at c n off))"

definition ds_Delete :: "DiskStore \<Rightarrow> string \<Rightarrow> string \<Rightarrow> os \<Rightarrow> go_error option \<times> os" where
  "ds_Delete ds bucket key s = os_Remove (ds_Path ds bucket key) s"

definition ds_OpenForRead :: "DiskStore \<Rightarrow> string \<Rightarrow> string \<Rightarrow> os \<Rightarrow> go_error + bytes" where
  "ds_OpenForRead ds bucket key s = os_Open (ds_Path ds bucket key) s"

section \<open>Where a cached object lives\<close>

lemma split_slash_snoc:
  "CHR ''/'' \<notin> set w \<Longrightarrow> split_slash (p @ CHR ''/'' # w) = split_slash p @ [w]"
proof (induction p)
  case Nil
  then show ?case by (simp add: split_slash_no_slash)
next
  case (Cons c p)
  then show ?case by (cases "split_slash p") auto
qed

lemma clean_step_plain: "plain w \<Longrightarrow> clean_step r w st = w # st"
  by (auto simp: clean_step_def plain_def)

lemma Clean_snoc:
  assumes "plain w"
  obtains pre where "path_Clean (p @ CHR ''/'' # w) = pre @ w" and "pre = [] \<or> last pre = CHR ''/''"
proof -
  let ?q = "p @ CHR ''/'' # w"
  let ?r = "?q \<noteq> [] \<and> hd ?q = CHR ''/''"
  let ?st = "fold (clean_step ?r) (split_slash p) []"
  have s: "fold (clean_step ?r) (split_slash ?q) [] = w # ?st"
    using assms by (simp add: split_slash_snoc plain_def clean_step_plain)
  have j: "\<exists>pre. join_slash (rev ?st @ [w]) = pre @ w \<and> (pre = [] \<or> last pre = CHR ''/'')"
    by (cases "rev ?st = []") (auto simp: join_slash_snoc)
  then obtain pre where pre: "join_slash (rev ?st @ [w]) = pre @ w" "pre = [] \<or> last pre = CHR ''/''"
    by blast
  have "path_Clean ?q = (if ?r then CHR ''/'' # pre @ w else pre @ w)"
    using s pre(1) by (cases "hd ?q = CHR ''/''") (simp_all add: path_Clean_def Let_def)
  then show ?thesis
    using that [of "if ?r then CHR ''/'' # pre else pre"] pre(2) by (auto split: if_splits)
qed

lemma join_slash_ne: "w \<noteq> [] \<Longrightarrow> \<exists>p. join_slash (ws @ [v, w]) = p @ CHR ''/'' # w"
  by (induction ws) (auto simp: join_slash_Cons)

lemma ds_Path_tail:
  obtains pre where "ds_Path ds b k = pre @ sha256_hex k" and "pre = [] \<or> last pre = CHR ''/''"
proof -
  let ?h = "sha256_hex k" and ?p = "take 2 (sha256_hex k)"
  have ne: "?h \<noteq> []" "?p \<noteq> []" using sha256_hex_plain sha256_hex_prefix_plain by (auto simp: plain_def)
  then have "filter (\<lambda>w. w \<noteq> []) [ds_baseDir ds, b, ?p, ?h] =
      filter (\<lambda>w. w \<noteq> []) [ds_baseDir ds, b] @ [?p, ?h]" by simp
  then have e: "ds_Path ds b k = path_Clean (join_slash (filter (\<lambda>w. w \<noteq> []) [ds_baseDir ds, b] @ [?p, ?h]))"
    by (auto simp: ds_Path_def filepath_Join_def Let_def split: list.splits)
  obtain p where "join_slash (filter (\<lambda>w. w \<noteq> []) [ds_baseDir ds, b] @ [?p, ?h]) = p @ CHR ''/'' # ?h"
    using join_slash_ne [OF ne(1)] by blast
  with e show ?thesis using Clean_snoc [OF sha256_hex_plain [of k], of p] that by metis
qed

text \<open>A file \<open>os.CreateTemp\<close> makes for the pattern \<open>.cache-*\<close> is never a cached object.\<close>

lemma last_segment_eq:
  assumes "p @ v = q @ w" and "CHR ''/'' \<notin> set v" and "CHR ''/'' \<notin> set w"
    and "p = [] \<or> last p = CHR ''/''" and "q = [] \<or> last q = CHR ''/''"
  shows "v = w"
proof -
  from assms(1) obtain u where "p = q @ u \<and> u @ v = w \<or> p @ u = q \<and> v = u @ w"
    by (auto simp: append_eq_append_conv2)
  then show ?thesis
    using assms(2-) by (cases u rule: rev_cases) auto
qed

lemma temp_pattern_not_cached:
  assumes "temp_ok s" and "CHR ''-'' \<in> set pat" and "CHR ''/'' \<notin> set pat"
  shows "temp_name s dir (pat @ ''*'') fs \<noteq> ds_Path ds b k"
proof
  assume eq: "temp_name s dir (pat @ ''*'') fs = ds_Path ds b k"
  obtain r where r: "list_all is_digit r"
    "temp_name s dir (pat @ ''*'') fs = temp_dir dir @ ''/'' @ pat @ r"
    using temp_shape [OF assms(1)] by blast
  obtain pre where pre: "ds_Path ds b k = pre @ sha256_hex k" "pre = [] \<or> last pre = CHR ''/''"
    by (rule ds_Path_tail)
  have "(temp_dir dir @ ''/'') @ (pat @ r) = pre @ sha256_hex k"
    using eq r(2) pre(1) by simp
  then have "pat @ r = sha256_hex k"
    by (rule last_segment_eq) (use r(1) pre(2) assms(3) sha256_hex_chars digit_no_slash in auto)
  then have "set (pat @ r) = set (sha256_hex k)" by simp
  with assms(2) sha256_hex_no_dash show False by auto
qed

lemma temp_not_cached: "temp_ok s \<Longrightarrow> temp_name s dir ''.cache-*'' fs \<noteq> ds_Path ds b k"
  using temp_pattern_not_cached [of s "''.cache-''"] by simp

text \<open>
  For an absolute, clean cache directory and a bucket name that is one path element (as S3
  bucket names are), the path is spelled out. Whatever the key is, the file is inside the
  bucket's own directory.
\<close>

definition clean_abs :: "string list \<Rightarrow> string" where
  "clean_abs ws = CHR ''/'' # join_slash ws"

lemma Clean_abs:
  assumes "\<forall>w \<in> set ws. plain w"
  shows "path_Clean (clean_abs ws) = clean_abs ws"
proof (cases "ws = []")
  case True
  then show ?thesis by (simp add: clean_abs_def path_Clean_def clean_step_def)
next
  case False
  with assms have sp: "split_slash (join_slash ws) = ws"
    by (intro split_join) (auto simp: plain_def)
  with False have "split_slash (CHR ''/'' # join_slash ws) = [] # ws"
    by (cases ws) auto
  moreover have "fold (clean_step True) ([] # ws) [] = rev ws"
    using assms clean_plain [of ws True "[]"] by (simp add: clean_step_def)
  ultimately show ?thesis by (simp add: clean_abs_def path_Clean_def Let_def)
qed

lemma join_slash_append:
  "ws \<noteq> [] \<Longrightarrow> vs \<noteq> [] \<Longrightarrow> join_slash (ws @ vs) = join_slash ws @ ''/'' @ join_slash vs"
proof (induction ws)
  case (Cons w ws)
  then show ?case by (cases "ws = []") (auto simp: join_slash_Cons)
qed simp

lemma ds_Path_abs:
  assumes "ws \<noteq> []" and "\<forall>w \<in> set ws. plain w" and "plain b" and "ds_baseDir ds = clean_abs ws"
  shows "ds_Path ds b k = clean_abs (ws @ [b, take 2 (sha256_hex k), sha256_hex k])"
proof -
  let ?vs = "[b, take 2 (sha256_hex k), sha256_hex k]"
  have pl: "\<forall>w \<in> set (ws @ ?vs). plain w"
    using assms sha256_hex_plain sha256_hex_prefix_plain by auto
  then have ne: "b \<noteq> []" "take 2 (sha256_hex k) \<noteq> []" "sha256_hex k \<noteq> []" by (auto simp: plain_def)
  have "join_slash (clean_abs ws # ?vs) = clean_abs (ws @ ?vs)"
    using assms(1) by (simp add: clean_abs_def join_slash_append)
  moreover have "filter (\<lambda>w. w \<noteq> []) (clean_abs ws # ?vs) = clean_abs ws # ?vs"
    using ne by (simp add: clean_abs_def)
  ultimately show ?thesis
    using Clean_abs [OF pl] assms(4) by (simp add: ds_Path_def filepath_Join_def Let_def)
qed

lemma clean_abs_inj:
  assumes "clean_abs ws = clean_abs vs" "ws \<noteq> []" "vs \<noteq> []"
    and "\<forall>w \<in> set ws. plain w" "\<forall>w \<in> set vs. plain w"
  shows "ws = vs"
proof -
  from assms(1) have "split_slash (join_slash ws) = split_slash (join_slash vs)"
    by (simp add: clean_abs_def)
  moreover have "split_slash (join_slash ws) = ws" "split_slash (join_slash vs) = vs"
    using assms(2-) by (auto intro!: split_join simp: plain_def)
  ultimately show ?thesis by simp
qed


definition demo_store :: DiskStore where
  "demo_store = \<lparr>ds_baseDir = ''/var/cache/s3gw/data''\<rparr>"

lemma demo_baseDir: "ds_baseDir demo_store = clean_abs [''var'', ''cache'', ''s3gw'', ''data'']"
  by (simp add: demo_store_def clean_abs_def)


section \<open>Writes are atomic\<close>

lemma ds_Write_ok:
  assumes t: "temp_ok s" and w: "ds_Write ds b k src s = (None, s')"
  shows "s' = s\<lparr>files := fmupd (ds_Path ds b k) (snd src) (files s)\<rparr>"
proof -
  let ?d = "ds_Path ds b k"
  let ?t = "temp_name s (filepath_Dir ?d) ''.cache-*'' (files s)"
  have fresh: "fmlookup (files s) ?t = None"
    using temp_fresh [OF t, of _ "filepath_Dir ?d" "''.cache-''"] by simp
  have ne: "?t \<noteq> ?d" by (rule temp_not_cached [OF t])
  have u: "fmupd ?d c (fmdrop ?t (fmupd ?t x (files s))) = fmupd ?d c (files s)" for c x
    using fresh ne by (intro fmap_ext) auto
  from w show ?thesis
    unfolding ds_Write_def os_CreateTemp_def io_Copy_def os_Rename_def
    by (auto simp: Let_def u split: option.splits)
qed

lemma ds_Write_fail:
  assumes t: "temp_ok s" and w: "ds_Write ds b k src s = (Some e, s')"
  shows "fmlookup (files s) p \<noteq> None \<or> p = ds_Path ds b k \<Longrightarrow>
      fmlookup (files s') p = fmlookup (files s) p"
    and "files s' = files s \<or> (\<exists>p. fault s OpRemove p \<noteq> None)"
    and "\<exists>fs. s' = s\<lparr>files := fs\<rparr>"
    and "fmlookup (files s') (ds_Path ds' b' k') = fmlookup (files s) (ds_Path ds' b' k')"
proof -
  let ?d = "ds_Path ds b k"
  let ?t = "temp_name s (filepath_Dir ?d) ''.cache-*'' (files s)"
  have fresh: "fmlookup (files s) ?t = None"
    using temp_fresh [OF t, of _ "filepath_Dir ?d" "''.cache-''"] by simp
  have ne: "?t \<noteq> ?d" by (rule temp_not_cached [OF t])
  have shape: "s' = s \<or>
      (\<exists>c. s' = snd (os_Remove ?t (s\<lparr>files := fmupd ?t c (fmupd ?t [] (files s))\<rparr>)))"
    using w unfolding ds_Write_def os_CreateTemp_def io_Copy_def os_Rename_def
    by (auto simp: Let_def split: option.splits)
  show "fmlookup (files s) p \<noteq> None \<or> p = ?d \<Longrightarrow> fmlookup (files s') p = fmlookup (files s) p"
    using shape fresh ne by (auto simp: os_Remove_files)
  show "files s' = files s \<or> (\<exists>p. fault s OpRemove p \<noteq> None)"
    using shape fresh by (auto simp: os_Remove_files intro!: fmap_ext)
  show "\<exists>fs. s' = s\<lparr>files := fs\<rparr>"
    using shape by (auto simp: os_Remove_def split: option.splits) (metis os.surjective os.update_convs(1))+
  show "fmlookup (files s') (ds_Path ds' b' k') = fmlookup (files s) (ds_Path ds' b' k')"
    using shape temp_not_cached [OF t, of "filepath_Dir ?d" "files s" ds' b' k'] by (auto simp: os_Remove_files)
qed

text \<open>C29: Writing an object into the disk cache is atomic whichever of its system calls fails: on
  success exactly the object's file holds exactly the source's bytes and no temporary
  file is left; on an error the object's file is what it was, as is every other file that
  existed, and a temporary file can only stay behind if removing it failed too.\<close>

theorem ds_Write_atomic:
  assumes "temp_ok s" and "ds_Write ds b k src s = (r, s')"
  shows "case r of
      None \<Rightarrow> files s' = fmupd (ds_Path ds b k) (snd src) (files s)
    | Some e \<Rightarrow>
        (\<forall>p. fmlookup (files s) p \<noteq> None \<or> p = ds_Path ds b k \<longrightarrow>
          fmlookup (files s') p = fmlookup (files s) p) \<and>
        (files s' = files s \<or> (\<exists>p. fault s OpRemove p \<noteq> None))"
proof (cases r)
  case None
  with assms(2) have "ds_Write ds b k src s = (None, s')" by simp
  from ds_Write_ok [OF assms(1) this] None show ?thesis by simp
next
  case (Some e)
  with assms(2) have w: "ds_Write ds b k src s = (Some e, s')" by simp
  show ?thesis using ds_Write_fail [OF assms(1) w] Some by auto
qed

text \<open>
  The witness: a rename that fails over an existing cached object.
\<close>

theorem ds_Write_atomic_witness:
  "\<exists>s s' e. ds_Write demo_store ''b'' ''k'' (''/tmp/src'', ''new'') s = (Some e, s') \<and>
     files s' = files s \<and>
     fmlookup (files s') (ds_Path demo_store ''b'' ''k'') = Some ''old''"
proof -
  let ?d = "ds_Path demo_store ''b'' ''k''"
  let ?s = "demo_os\<lparr>files := fmupd ?d ''old'' fmempty,
                    fault := (\<lambda>op p. if op = OpRename then Some (errorf ''EXDEV'') else None)\<rparr>"
  have t: "temp_ok ?s" by (rule demo_temp_ok) (simp add: demo_os_def)
  have f: "fst (ds_Write demo_store ''b'' ''k'' (''/tmp/src'', ''new'') ?s) =
      Some (wrapf ''rename cache file'' (errorf ''EXDEV''))"
    by (simp add: ds_Write_def os_MkdirAll_def os_CreateTemp_def io_Copy_def os_Rename_def Let_def)
  obtain s' where w: "ds_Write demo_store ''b'' ''k'' (''/tmp/src'', ''new'') ?s =
      (Some (wrapf ''rename cache file'' (errorf ''EXDEV'')), s')"
    using f by (metis prod.collapse)
  from ds_Write_atomic [OF t w] have "files s' = files ?s" "fmlookup (files s') ?d = Some ''old''"
    by auto
  with w show ?thesis by blast
qed

end
