(* ===== verification/Interfaces.thy ===== *)
theory Interfaces
  imports Prelude
begin

text \<open>
  The contracts the components rely on, as locales. Each is interpreted on the model's own
  definitions in the theory of the component that provides it.
\<close>

section \<open>A transactional keyed store\<close>

text \<open>
  What the cache manager needs of the metadata store and the catalog of its SQL tables:
  a write that reports success is visible to every later read under its key and under no
  other, a write that reports an error changed nothing.
\<close>

locale tx_map =
  fixes lookup :: "'s \<Rightarrow> 'k \<Rightarrow> 'v option"
    and insert :: "'s \<Rightarrow> 'k \<Rightarrow> 'v \<Rightarrow> go_error option \<times> 's"
    and delete :: "'s \<Rightarrow> 'k \<Rightarrow> go_error option \<times> 's"
    and invar :: "'s \<Rightarrow> bool"
  assumes insert_ok: "invar s \<Longrightarrow> insert s k v = (None, s') \<Longrightarrow> lookup s' = (lookup s)(k \<mapsto> v)"
    and insert_err: "invar s \<Longrightarrow> insert s k v = (Some e, s') \<Longrightarrow> lookup s' = lookup s"
    and delete_ok: "invar s \<Longrightarrow> delete s k = (None, s') \<Longrightarrow> lookup s' = (lookup s)(k := None)"
    and delete_err: "invar s \<Longrightarrow> delete s k = (Some e, s') \<Longrightarrow> lookup s' = lookup s"
    and insert_invar: "invar s \<Longrightarrow> invar (snd (insert s k v))"
    and delete_invar: "invar s \<Longrightarrow> invar (snd (delete s k))"
begin

lemma insert_step:
  assumes "invar s" and "insert s k v = (r, s')"
  shows "lookup s' = (if r = None then (lookup s)(k \<mapsto> v) else lookup s) \<and> invar s'"
  using assms insert_ok insert_err insert_invar [of s k v] by (cases r) auto

lemma delete_step:
  assumes "invar s" and "delete s k = (r, s')"
  shows "lookup s' = (if r = None then (lookup s)(k := None) else lookup s) \<and> invar s'"
  using assms delete_ok delete_err delete_invar [of s k] by (cases r) auto

lemma read_your_write: "invar s \<Longrightarrow> insert s k v = (None, s') \<Longrightarrow> lookup s' k = Some v"
  by (simp add: insert_ok)

lemma insert_frame: "invar s \<Longrightarrow> insert s k v = (r, s') \<Longrightarrow> k' \<noteq> k \<Longrightarrow> lookup s' k' = lookup s k'"
  using insert_step by fastforce

lemma delete_frame: "invar s \<Longrightarrow> delete s k = (r, s') \<Longrightarrow> k' \<noteq> k \<Longrightarrow> lookup s' k' = lookup s k'"
  using delete_step by fastforce

lemma delete_absent: "invar s \<Longrightarrow> delete s k = (r, s') \<Longrightarrow> lookup s k = None \<Longrightarrow> lookup s' = lookup s"
  using delete_step by (fastforce simp: fun_upd_idem)

end

section \<open>A cache whose entries expire\<close>

text \<open>
  What the catalog needs of its in-memory caches. \<open>live t s k\<close> is what a lookup of \<open>k\<close> at
  time \<open>t\<close> serves. An invalidation \<open>d\<close> drops the keys it \<open>covers\<close>; \<open>tidy\<close> stands for the
  operations that may only forget (the reaper, the removal of what a lookup found expired).
  A cache may forget but never invents: an entry served was put in at most \<open>ttl\<close> before and
  has not been dropped since.
\<close>

locale ttl_cache =
  fixes live :: "time \<Rightarrow> 's \<Rightarrow> 'k \<Rightarrow> 'v option"
    and put :: "time \<Rightarrow> 'k \<Rightarrow> 'v \<Rightarrow> 's \<Rightarrow> 's"
    and drop :: "'d \<Rightarrow> 's \<Rightarrow> 's"
    and covers :: "'d \<Rightarrow> 'k \<Rightarrow> bool"
    and tidy :: "'q \<Rightarrow> 's \<Rightarrow> 's"
    and invar :: "'s \<Rightarrow> bool"
    and ttl :: "'s \<Rightarrow> duration"
  assumes put_self: "invar s \<Longrightarrow> live t (put u k v s) k = Some w \<Longrightarrow> w = v \<and> t \<le> u + ttl s"
    and put_other: "invar s \<Longrightarrow> k' \<noteq> k \<Longrightarrow> live t (put u k v s) k' = Some w \<Longrightarrow> live t s k' = Some w"
    and drop_self: "invar s \<Longrightarrow> covers d k \<Longrightarrow> live t (drop d s) k = None"
    and drop_other: "invar s \<Longrightarrow> live t (drop d s) k' = Some w \<Longrightarrow> live t s k' = Some w"
    and tidy_live: "invar s \<Longrightarrow> live t (tidy q s) k' = Some w \<Longrightarrow> live t s k' = Some w"
    and put_invar: "invar s \<Longrightarrow> invar (put u k v s) \<and> ttl (put u k v s) = ttl s"
    and drop_invar: "invar s \<Longrightarrow> invar (drop d s) \<and> ttl (drop d s) = ttl s"
    and tidy_invar: "invar s \<Longrightarrow> invar (tidy q s) \<and> ttl (tidy q s) = ttl s"

text \<open>The operations of a cache in the order they happen, newest first.\<close>

datatype ('k, 'v, 'd, 'q) cache_op = CPut time 'k 'v | CDrop 'd | CTidy 'q

fun cache_run ::
  "(time \<Rightarrow> 'k \<Rightarrow> 'v \<Rightarrow> 's \<Rightarrow> 's) \<Rightarrow> ('d \<Rightarrow> 's \<Rightarrow> 's) \<Rightarrow> ('q \<Rightarrow> 's \<Rightarrow> 's) \<Rightarrow>
   's \<Rightarrow> ('k, 'v, 'd, 'q) cache_op list \<Rightarrow> 's" where
  "cache_run pt dr td s [] = s"
| "cache_run pt dr td s (CPut u k v # ops) = pt u k v (cache_run pt dr td s ops)"
| "cache_run pt dr td s (CDrop d # ops) = dr d (cache_run pt dr td s ops)"
| "cache_run pt dr td s (CTidy q # ops) = td q (cache_run pt dr td s ops)"

text \<open>The last operation that determines what is known of \<open>k\<close>.\<close>

fun last_put :: "('d \<Rightarrow> 'k \<Rightarrow> bool) \<Rightarrow> 'k \<Rightarrow> ('k, 'v, 'd, 'q) cache_op list \<Rightarrow> (time \<times> 'v) option" where
  "last_put cov k [] = None"
| "last_put cov k (CPut u k' v # ops) = (if k' = k then Some (u, v) else last_put cov k ops)"
| "last_put cov k (CDrop d # ops) = (if cov d k then None else last_put cov k ops)"
| "last_put cov k (CTidy q # ops) = last_put cov k ops"

context ttl_cache
begin

lemma run_invar:
  "invar s \<Longrightarrow> invar (cache_run put drop tidy s ops) \<and> ttl (cache_run put drop tidy s ops) = ttl s"
proof (induction ops)
  case (Cons x ops)
  then show ?case using put_invar drop_invar tidy_invar by (cases x) auto
qed simp

lemma bounded_staleness:
  assumes "invar s" and "\<And>t k. live t s k = None"
  shows "live t (cache_run put drop tidy s ops) k = Some w \<Longrightarrow>
    \<exists>u. last_put covers k ops = Some (u, w) \<and> t \<le> u + ttl s"
proof (induction ops)
  case Nil
  with assms(2) show ?case by simp
next
  case (Cons x ops)
  let ?s = "cache_run put drop tidy s ops"
  have inv: "invar ?s" "ttl ?s = ttl s" using run_invar [OF assms(1)] by auto
  show ?case
  proof (cases x)
    case (CPut u k' v)
    show ?thesis
    proof (cases "k' = k")
      case True
      with put_self [OF inv(1)] Cons.prems CPut show ?thesis by (fastforce simp: inv(2))
    next
      case False
      from Cons.prems CPut have "live t (put u k' v ?s) k = Some w" by simp
      then have "live t ?s k = Some w" using put_other [OF inv(1), of k k'] False by blast
      with Cons.IH CPut False show ?thesis by simp
    qed
  next
    case (CDrop d)
    with Cons drop_self [OF inv(1)] drop_other [OF inv(1)] show ?thesis
      by (cases "covers d k") auto
  next
    case (CTidy q)
    with Cons tidy_live [OF inv(1)] show ?thesis by simp
  qed
qed

end

end
