(* ===== verification/Metadata_Store.thy ===== *)
theory Metadata_Store
  imports Disk_Store Interfaces
begin

text \<open>
  \<open>internal/cache/metadata.go\<close>: the metadata of the cached objects in a BoltDB bucket. The
  database and the JSON codec are parameters carried in the store's record: \<open>'db bolt\<close> is
  the bucket's interface with \<open>View\<close> and \<open>Update\<close>, \<open>codec\<close> the encoding of one entry.
  What they promise is \<open>bolt_ok\<close> and \<open>codec_ok\<close>.
\<close>

section \<open>The database and the codec\<close>

record CacheEntry =
  ce_Bucket :: string
  ce_Key :: string
  ce_LocalPath :: string
  ce_ETag :: string
  ce_Size :: int
  ce_LastModified :: time
  ce_LastAccessed :: time
  ce_CachedAt :: time

record 'db bolt =
  bolt_View :: "'db \<Rightarrow> go_error option"    \<comment> \<open>the error of a read transaction itself, if any\<close>
  bolt_Update :: "('db \<Rightarrow> go_error + 'db) \<Rightarrow> 'db \<Rightarrow> go_error option \<times> 'db"
  bolt_Get :: "'db \<Rightarrow> string \<Rightarrow> bytes option"
  bolt_Put :: "'db \<Rightarrow> string \<Rightarrow> bytes \<Rightarrow> go_error + 'db"
  bolt_Delete :: "'db \<Rightarrow> string \<Rightarrow> go_error + 'db"
  bolt_ForEach :: "'db \<Rightarrow> (string \<times> bytes) list"

record codec =
  json_Marshal :: "CacheEntry \<Rightarrow> go_error + bytes"
  json_Unmarshal :: "bytes \<Rightarrow> go_error + CacheEntry"

record 'db MetadataStore =
  ms_bolt :: "'db bolt"
  ms_codec :: codec
  ms_db :: 'db

text \<open>
  BoltDB's documented behaviour: \<open>Update\<close> commits what its function did or leaves the
  database as it was; \<open>Put\<close> and \<open>Delete\<close> act on one key; \<open>ForEach\<close> visits every key
  once.
\<close>

definition bolt_ok :: "'db bolt \<Rightarrow> bool" where
  "bolt_ok b \<longleftrightarrow>
     (\<forall>f db db'. bolt_Update b f db = (None, db') \<longrightarrow> f db = Inr db') \<and>
     (\<forall>f db e db'. bolt_Update b f db = (Some e, db') \<longrightarrow> db' = db) \<and>
     (\<forall>db k v db'. bolt_Put b db k v = Inr db' \<longrightarrow> bolt_Get b db' = (bolt_Get b db)(k \<mapsto> v)) \<and>
     (\<forall>db k db'. bolt_Delete b db k = Inr db' \<longrightarrow> bolt_Get b db' = (bolt_Get b db)(k := None)) \<and>
     (\<forall>db. map_of (bolt_ForEach b db) = bolt_Get b db \<and> distinct (map fst (bolt_ForEach b db)))"

text \<open>What is encoded decodes to the same entry.\<close>

definition codec_ok :: "codec \<Rightarrow> bool" where
  "codec_ok c \<longleftrightarrow> (\<forall>e d. json_Marshal c e = Inr d \<longrightarrow> json_Unmarshal c d = Inr e)"

section \<open>Operations\<close>

text \<open>\<open>bolt_Open\<close> opens the file, \<open>create\<close> is \<open>CreateBucketIfNotExists\<close>.\<close>

definition NewMetadataStore ::
  "(string \<Rightarrow> go_error + 'db bolt \<times> 'db) \<Rightarrow> ('db \<Rightarrow> go_error + 'db) \<Rightarrow> codec \<Rightarrow> string \<Rightarrow> go_error + 'db MetadataStore" where
  "NewMetadataStore bolt_Open create codec dbPath =
     (case bolt_Open dbPath of
        Inl err \<Rightarrow> Inl (wrapf ''open cache db'' err)
      | Inr (b, db) \<Rightarrow>
          (case bolt_Update b create db of
             (Some err, _) \<Rightarrow> Inl (wrapf ''init cache db'' err)
           | (None, db) \<Rightarrow> Inr \<lparr>ms_bolt = b, ms_codec = codec, ms_db = db\<rparr>))"

definition entryKey :: "string \<Rightarrow> string \<Rightarrow> string" where
  "entryKey bucket key = bucket @ ''/'' @ key"

definition ms_Get :: "'db MetadataStore \<Rightarrow> string \<Rightarrow> string \<Rightarrow> go_error + CacheEntry option" where
  "ms_Get ms bucket key =
     (case bolt_View (ms_bolt ms) (ms_db ms) of
        Some err \<Rightarrow> Inl err
      | None \<Rightarrow>
          (case bolt_Get (ms_bolt ms) (ms_db ms) (entryKey bucket key) of
             None \<Rightarrow> Inr None
           | Some data \<Rightarrow>
               (case json_Unmarshal (ms_codec ms) data of
                  Inl err \<Rightarrow> Inl err
                | Inr entry \<Rightarrow> Inr (Some entry))))"

definition ms_update ::
  "'db MetadataStore \<Rightarrow> ('db \<Rightarrow> go_error + 'db) \<Rightarrow> go_error option \<times> 'db MetadataStore" where
  "ms_update ms f =
     (case bolt_Update (ms_bolt ms) f (ms_db ms) of (r, db) \<Rightarrow> (r, ms\<lparr>ms_db := db\<rparr>))"

definition ms_Put :: "'db MetadataStore \<Rightarrow> CacheEntry \<Rightarrow> go_error option \<times> 'db MetadataStore" where
  "ms_Put ms entry =
     ms_update ms (\<lambda>db.
       case json_Marshal (ms_codec ms) entry of
         Inl err \<Rightarrow> Inl err
       | Inr data \<Rightarrow> bolt_Put (ms_bolt ms) db (entryKey (ce_Bucket entry) (ce_Key entry)) data)"

definition ms_Delete :: "'db MetadataStore \<Rightarrow> string \<Rightarrow> string \<Rightarrow> go_error option \<times> 'db MetadataStore" where
  "ms_Delete ms bucket key =
     ms_update ms (\<lambda>db. bolt_Delete (ms_bolt ms) db (entryKey bucket key))"

definition ms_Touch ::
  "'db MetadataStore \<Rightarrow> string \<Rightarrow> string \<Rightarrow> time \<Rightarrow> go_error option \<times> 'db MetadataStore" where
  "ms_Touch ms bucket key now =
     ms_update ms (\<lambda>db.
       case bolt_Get (ms_bolt ms) db (entryKey bucket key) of
         None \<Rightarrow> Inr db
       | Some data \<Rightarrow>
           (case json_Unmarshal (ms_codec ms) data of
              Inl err \<Rightarrow> Inl err
            | Inr entry \<Rightarrow>
                (case json_Marshal (ms_codec ms) (entry\<lparr>ce_LastAccessed := now\<rparr>) of
                   Inl err \<Rightarrow> Inl err
                 | Inr updated \<Rightarrow> bolt_Put (ms_bolt ms) db (entryKey bucket key) updated)))"

fun total_loop :: "codec \<Rightarrow> (string \<times> bytes) list \<Rightarrow> int \<Rightarrow> int" where
  "total_loop c [] tot = tot"
| "total_loop c ((k, v) # kvs) tot =
     (case json_Unmarshal c v of
        Inl _ \<Rightarrow> total_loop c kvs tot
      | Inr entry \<Rightarrow> total_loop c kvs (i64 (tot + ce_Size entry)))"

definition ms_TotalSize :: "'db MetadataStore \<Rightarrow> go_error + int" where
  "ms_TotalSize ms =
     (case bolt_View (ms_bolt ms) (ms_db ms) of
        Some err \<Rightarrow> Inl err
      | None \<Rightarrow> Inr (total_loop (ms_codec ms) (bolt_ForEach (ms_bolt ms) (ms_db ms)) 0))"

fun decode_all :: "codec \<Rightarrow> (string \<times> bytes) list \<Rightarrow> CacheEntry list" where
  "decode_all c [] = []"
| "decode_all c ((k, v) # kvs) =
     (case json_Unmarshal c v of Inl _ \<Rightarrow> decode_all c kvs | Inr entry \<Rightarrow> entry # decode_all c kvs)"

text \<open>\<open>sort.Slice\<close> leaves the order of entries with the same time open; here it is the key order.\<close>

definition ms_ListByLastAccessed :: "'db MetadataStore \<Rightarrow> int \<Rightarrow> go_error + CacheEntry list" where
  "ms_ListByLastAccessed ms limit =
     (case bolt_View (ms_bolt ms) (ms_db ms) of
        Some err \<Rightarrow> Inl err
      | None \<Rightarrow>
          (let entries = sort_key ce_LastAccessed
                 (decode_all (ms_codec ms) (bolt_ForEach (ms_bolt ms) (ms_db ms)))
           in Inr (if limit > 0 \<and> int (length entries) > limit then take (nat limit) entries
                   else entries)))"

section \<open>The store as a map of entries\<close>

definition ms_ok :: "'db MetadataStore \<Rightarrow> bool" where
  "ms_ok ms \<longleftrightarrow> bolt_ok (ms_bolt ms) \<and> codec_ok (ms_codec ms)"

text \<open>The entry stored under a database key, as far as it decodes.\<close>

definition decode :: "codec \<Rightarrow> bytes \<Rightarrow> CacheEntry option" where
  "decode c d = (case json_Unmarshal c d of Inl _ \<Rightarrow> None | Inr e \<Rightarrow> Some e)"

definition ms_map :: "'db MetadataStore \<Rightarrow> string \<rightharpoonup> CacheEntry" where
  "ms_map ms k = Option.bind (bolt_Get (ms_bolt ms) (ms_db ms) k) (decode (ms_codec ms))"

lemma decode_Inr [simp]: "json_Unmarshal c d = Inr e \<Longrightarrow> decode c d = Some e"
  by (simp add: decode_def)

lemma decode_Some: "decode c d = Some e \<longleftrightarrow> json_Unmarshal c d = Inr e"
  by (simp add: decode_def split: sum.split)

lemma ms_map_db [simp]:
  "ms_map (ms\<lparr>ms_db := db\<rparr>) k = Option.bind (bolt_Get (ms_bolt ms) db k) (decode (ms_codec ms))"
  by (simp add: ms_map_def)

text \<open>Every entry is stored under its own key.\<close>

definition ms_wf :: "'db MetadataStore \<Rightarrow> bool" where
  "ms_wf ms \<longleftrightarrow> (\<forall>k e. ms_map ms k = Some e \<longrightarrow> k = entryKey (ce_Bucket e) (ce_Key e))"

lemma bolt_Update_cases:
  assumes "bolt_ok b" and "bolt_Update b f db = (r, db')"
  shows "(r = None \<and> f db = Inr db') \<or> (r \<noteq> None \<and> db' = db)"
  using assms unfolding bolt_ok_def by (cases r) blast+

lemma bolt_Put_Get:
  "bolt_ok b \<Longrightarrow> bolt_Put b db k v = Inr db' \<Longrightarrow> bolt_Get b db' = (bolt_Get b db)(k \<mapsto> v)"
  by (simp add: bolt_ok_def)

lemma bolt_Delete_Get:
  "bolt_ok b \<Longrightarrow> bolt_Delete b db k = Inr db' \<Longrightarrow> bolt_Get b db' = (bolt_Get b db)(k := None)"
  by (simp add: bolt_ok_def)

lemma bolt_ForEach_map:
  "bolt_ok b \<Longrightarrow> map_of (bolt_ForEach b db) = bolt_Get b db \<and> distinct (map fst (bolt_ForEach b db))"
  by (simp add: bolt_ok_def)

lemma codec_round: "codec_ok c \<Longrightarrow> json_Marshal c e = Inr d \<Longrightarrow> json_Unmarshal c d = Inr e"
  by (simp add: codec_ok_def)

lemma ms_update_cases:
  assumes "ms_ok ms" and "ms_update ms f = (r, ms')"
  shows "(r \<noteq> None \<and> ms' = ms) \<or> (\<exists>db'. r = None \<and> f (ms_db ms) = Inr db' \<and> ms' = ms\<lparr>ms_db := db'\<rparr>)"
proof -
  obtain db' where u: "bolt_Update (ms_bolt ms) f (ms_db ms) = (r, db')" "ms' = ms\<lparr>ms_db := db'\<rparr>"
    using assms(2) by (auto simp: ms_update_def split: prod.splits)
  from assms(1) have "bolt_ok (ms_bolt ms)" by (simp add: ms_ok_def)
  from bolt_Update_cases [OF this u(1)] u(2) show ?thesis by auto
qed

lemma ms_update_env:
  "ms_update ms f = (r, ms') \<Longrightarrow> ms_bolt ms' = ms_bolt ms \<and> ms_codec ms' = ms_codec ms"
  by (auto simp: ms_update_def split: prod.splits)

lemma ms_ok_update: "ms_update ms f = (r, ms') \<Longrightarrow> ms_ok ms' = ms_ok ms"
  using ms_update_env by (fastforce simp: ms_ok_def)

lemma ms_Get_Inr: "ms_Get ms b k = Inr r \<Longrightarrow> r = ms_map ms (entryKey b k)"
  by (auto simp: ms_Get_def ms_map_def split: option.splits sum.splits)

text \<open>
  The store provides the transactional map over database keys: \<open>put_key\<close> and \<open>delete_key\<close>
  are \<open>ms_Put\<close> and \<open>ms_Delete\<close> with the database key spelled out.
\<close>

definition put_key ::
  "'db MetadataStore \<Rightarrow> string \<Rightarrow> CacheEntry \<Rightarrow> go_error option \<times> 'db MetadataStore" where
  "put_key ms k entry =
     ms_update ms (\<lambda>db.
       case json_Marshal (ms_codec ms) entry of
         Inl err \<Rightarrow> Inl err
       | Inr data \<Rightarrow> bolt_Put (ms_bolt ms) db k data)"

definition delete_key :: "'db MetadataStore \<Rightarrow> string \<Rightarrow> go_error option \<times> 'db MetadataStore" where
  "delete_key ms k = ms_update ms (\<lambda>db. bolt_Delete (ms_bolt ms) db k)"

lemma ms_Put_key: "ms_Put ms e = put_key ms (entryKey (ce_Bucket e) (ce_Key e)) e"
  by (simp add: ms_Put_def put_key_def)

lemma ms_Delete_key: "ms_Delete ms b k = delete_key ms (entryKey b k)"
  by (simp add: ms_Delete_def delete_key_def)

lemma ms_map_Put:
  assumes "ms_ok ms" "json_Marshal (ms_codec ms) e = Inr d" "bolt_Put (ms_bolt ms) (ms_db ms) k d = Inr db"
  shows "ms_map (ms\<lparr>ms_db := db\<rparr>) = (ms_map ms)(k \<mapsto> e)"
proof -
  have "bolt_Get (ms_bolt ms) db = (bolt_Get (ms_bolt ms) (ms_db ms))(k \<mapsto> d)"
    using assms(1,3) bolt_Put_Get [of "ms_bolt ms"] by (simp add: ms_ok_def)
  moreover have "decode (ms_codec ms) d = Some e"
    using assms(1,2) codec_round [of "ms_codec ms"] by (simp add: ms_ok_def)
  ultimately show ?thesis by (simp add: fun_eq_iff ms_map_def [of ms])
qed

lemma ms_map_Delete:
  assumes "ms_ok ms" "bolt_Delete (ms_bolt ms) (ms_db ms) k = Inr db"
  shows "ms_map (ms\<lparr>ms_db := db\<rparr>) = (ms_map ms)(k := None)"
  using assms bolt_Delete_Get [of "ms_bolt ms" "ms_db ms" k db]
  by (simp add: ms_ok_def fun_eq_iff ms_map_def [of ms])

lemma put_key_step:
  assumes "ms_ok ms" and "put_key ms k e = (r, ms')"
  shows "ms_ok ms' \<and> ((r \<noteq> None \<and> ms' = ms) \<or> (r = None \<and> ms_map ms' = (ms_map ms)(k \<mapsto> e)))"
  using ms_update_cases [OF assms(1) assms(2) [unfolded put_key_def]]
    ms_ok_update [OF assms(2) [unfolded put_key_def]] assms(1) ms_map_Put [OF assms(1)]
  by (auto split: sum.splits)

lemma delete_key_step:
  assumes "ms_ok ms" and "delete_key ms k = (r, ms')"
  shows "ms_ok ms' \<and> ((r \<noteq> None \<and> ms' = ms) \<or> (r = None \<and> ms_map ms' = (ms_map ms)(k := None)))"
  using ms_update_cases [OF assms(1) assms(2) [unfolded delete_key_def]]
    ms_ok_update [OF assms(2) [unfolded delete_key_def]] assms(1) ms_map_Delete [OF assms(1)]
  by auto

interpretation meta: tx_map ms_map put_key delete_key ms_ok
proof unfold_locales
  fix s s' :: "'db MetadataStore" and k v e
  assume ok: "ms_ok s"
  show "ms_ok (snd (put_key s k v))" and "ms_ok (snd (delete_key s k))"
    using put_key_step [OF ok] delete_key_step [OF ok] by (metis prod.collapse)+
  show "put_key s k v = (None, s') \<Longrightarrow> ms_map s' = (ms_map s)(k \<mapsto> v)"
    "put_key s k v = (Some e, s') \<Longrightarrow> ms_map s' = ms_map s"
    using put_key_step [OF ok] by auto
  show "delete_key s k = (None, s') \<Longrightarrow> ms_map s' = (ms_map s)(k := None)"
    "delete_key s k = (Some e, s') \<Longrightarrow> ms_map s' = ms_map s"
    using delete_key_step [OF ok] by auto
qed

lemma ms_Touch_step:
  assumes "ms_ok ms" and "ms_Touch ms b k now = (r, ms')"
  shows "ms_ok ms' \<and> ((r \<noteq> None \<and> ms' = ms) \<or>
    (r = None \<and> ms_map ms' = (ms_map ms)(entryKey b k :=
       map_option (ce_LastAccessed_update (\<lambda>_. now)) (ms_map ms (entryKey b k)))))"
proof -
  have s: "(r \<noteq> None \<and> ms' = ms) \<or> (r = None \<and> (ms' = ms \<and> ms_map ms (entryKey b k) = None \<or>
    (\<exists>e d db. ms_map ms (entryKey b k) = Some e \<and>
       json_Marshal (ms_codec ms) (e\<lparr>ce_LastAccessed := now\<rparr>) = Inr d \<and>
       bolt_Put (ms_bolt ms) (ms_db ms) (entryKey b k) d = Inr db \<and> ms' = ms\<lparr>ms_db := db\<rparr>)))"
    using ms_update_cases [OF assms(1) assms(2) [unfolded ms_Touch_def]]
    by (auto simp: ms_map_def split: option.splits sum.splits)
  then show ?thesis
    using ms_ok_update [OF assms(2) [unfolded ms_Touch_def]] assms(1) ms_map_Put [OF assms(1)]
    by (auto simp: fun_upd_idem)
qed

text \<open>
  Distinct objects have distinct database keys as long as bucket names hold no slash; in
  general they do not.
\<close>

lemma entryKey_inj:
  "entryKey b k = entryKey b' k' \<Longrightarrow> CHR ''/'' \<notin> set b \<Longrightarrow> CHR ''/'' \<notin> set b' \<Longrightarrow> b = b' \<and> k = k'"
proof (induction b arbitrary: b')
  case Nil
  then show ?case by (cases b') (auto simp: entryKey_def)
next
  case (Cons c b)
  then show ?case by (cases b') (auto simp: entryKey_def)
qed

lemma entryKey_collision: "entryKey ''a'' ''b/c'' = entryKey ''a/b'' ''c''"
  by (simp add: entryKey_def)

lemma ms_wf_step:
  assumes "ms_wf ms" and "ms_map ms' = ms_map ms \<or> ms_map ms' = (ms_map ms)(k := None) \<or>
    (\<exists>e. ms_map ms' = (ms_map ms)(k \<mapsto> e) \<and> k = entryKey (ce_Bucket e) (ce_Key e))"
  shows "ms_wf ms'"
  using assms unfolding ms_wf_def by (elim disjE exE) auto

lemma ms_wf_Put:
  assumes "ms_ok ms" and "ms_wf ms" and "ms_Put ms e = (r, ms')"
  shows "ms_wf ms'"
  by (rule ms_wf_step [OF assms(2), of _ "entryKey (ce_Bucket e) (ce_Key e)"])
    (use put_key_step [OF assms(1) assms(3) [unfolded ms_Put_key]] in auto)

lemma ms_wf_Delete:
  assumes "ms_ok ms" and "ms_wf ms" and "ms_Delete ms b k = (r, ms')"
  shows "ms_wf ms'"
  by (rule ms_wf_step [OF assms(2), of _ "entryKey b k"])
    (use delete_key_step [OF assms(1) assms(3) [unfolded ms_Delete_key]] in auto)

lemma ms_wf_Touch:
  assumes "ms_ok ms" and "ms_wf ms" and "ms_Touch ms b k now = (r, ms')"
  shows "ms_wf ms'"
proof (rule ms_wf_step [OF assms(2), of _ "entryKey b k"])
  show "ms_map ms' = ms_map ms \<or> ms_map ms' = (ms_map ms)(entryKey b k := None) \<or>
    (\<exists>e. ms_map ms' = (ms_map ms)(entryKey b k \<mapsto> e) \<and> entryKey b k = entryKey (ce_Bucket e) (ce_Key e))"
    using ms_Touch_step [OF assms(1,3)] assms(2)
    by (cases "ms_map ms (entryKey b k)") (auto simp: ms_wf_def)
qed

section \<open>Listing and summing\<close>

lemma total_loop_eq: "in_i64 a \<Longrightarrow> total_loop c kvs a = i64 (a + (\<Sum>e\<leftarrow>decode_all c kvs. ce_Size e))"
proof (induction c kvs a rule: total_loop.induct)
  case (2 c k v kvs tot)
  then show ?case
    by (cases "json_Unmarshal c v") (auto simp: i64_in_range i64_add_left add.assoc)
qed simp

lemma decode_all_set: "e \<in> set (decode_all c kvs) \<longleftrightarrow> (\<exists>k v. (k, v) \<in> set kvs \<and> decode c v = Some e)"
  by (induction kvs) (auto simp: decode_Some split: sum.splits, blast)

definition ms_entries :: "'db MetadataStore \<Rightarrow> CacheEntry list" where
  "ms_entries ms = decode_all (ms_codec ms) (bolt_ForEach (ms_bolt ms) (ms_db ms))"

lemma ms_entries_mem: "ms_ok ms \<Longrightarrow> e \<in> set (ms_entries ms) \<longleftrightarrow> (\<exists>k. ms_map ms k = Some e)"
proof -
  let ?kvs = "bolt_ForEach (ms_bolt ms) (ms_db ms)"
  assume "ms_ok ms"
  then have f: "map_of ?kvs = bolt_Get (ms_bolt ms) (ms_db ms)" "distinct (map fst ?kvs)"
    using bolt_ForEach_map [of "ms_bolt ms" "ms_db ms"] by (auto simp: ms_ok_def)
  have "(k, v) \<in> set ?kvs \<longleftrightarrow> bolt_Get (ms_bolt ms) (ms_db ms) k = Some v" for k v
    using f by (metis map_of_eq_Some_iff)
  then show ?thesis
    by (auto simp: ms_entries_def decode_all_set ms_map_def bind_eq_Some_conv)
qed

lemma ms_wf_entry:
  "ms_ok ms \<Longrightarrow> ms_wf ms \<Longrightarrow> e \<in> set (ms_entries ms) \<Longrightarrow> ms_map ms (entryKey (ce_Bucket e) (ce_Key e)) = Some e"
  by (auto simp: ms_entries_mem ms_wf_def)

text \<open>The decoded entries carry distinct database keys.\<close>

lemma decode_keys_distinct:
  assumes "distinct (map fst kvs)"
    and "\<And>k v e. (k, v) \<in> set kvs \<Longrightarrow> json_Unmarshal c v = Inr e \<Longrightarrow> k = f e"
  shows "distinct (map f (decode_all c kvs)) \<and> f ` set (decode_all c kvs) \<subseteq> fst ` set kvs"
  using assms
proof (induction kvs)
  case (Cons kv kvs)
  obtain k v where kv: "kv = (k, v)" by (cases kv)
  have ih: "distinct (map f (decode_all c kvs))" "f ` set (decode_all c kvs) \<subseteq> fst ` set kvs"
    using Cons by auto
  show ?case
  proof (cases "json_Unmarshal c v")
    case (Inr e)
    then have "k = f e" using Cons.prems(2) kv by auto
    with Cons.prems(1) ih Inr kv show ?thesis by auto
  qed (use ih kv in auto)
qed simp

lemma ms_entries_distinct:
  assumes "ms_ok ms" and "ms_wf ms"
  shows "distinct (map (\<lambda>e. entryKey (ce_Bucket e) (ce_Key e)) (ms_entries ms))"
proof -
  let ?kvs = "bolt_ForEach (ms_bolt ms) (ms_db ms)"
  from assms(1) have f: "map_of ?kvs = bolt_Get (ms_bolt ms) (ms_db ms)" "distinct (map fst ?kvs)"
    using bolt_ForEach_map [of "ms_bolt ms" "ms_db ms"] by (auto simp: ms_ok_def)
  have "k = entryKey (ce_Bucket e) (ce_Key e)"
    if "(k, v) \<in> set ?kvs" "json_Unmarshal (ms_codec ms) v = Inr e" for k v e
  proof -
    have "bolt_Get (ms_bolt ms) (ms_db ms) k = Some v"
      using that(1) f by (metis map_of_is_SomeI)
    with that(2) have "ms_map ms k = Some e" by (simp add: ms_map_def decode_def)
    with assms(2) show ?thesis by (simp add: ms_wf_def)
  qed
  from decode_keys_distinct [OF f(2) this] show ?thesis by (simp add: ms_entries_def)
qed

definition ms_sizes :: "'db MetadataStore \<Rightarrow> int" where
  "ms_sizes ms = (\<Sum>e\<leftarrow>ms_entries ms. ce_Size e)"

lemma ms_TotalSize_eq: "ms_TotalSize ms = Inr tot \<Longrightarrow> tot = i64 (ms_sizes ms)"
  by (auto simp: ms_TotalSize_def ms_sizes_def ms_entries_def total_loop_eq in_i64_def split: option.splits)

lemma ms_List_eq:
  "ms_ListByLastAccessed ms limit = Inr es \<Longrightarrow> 0 < limit \<Longrightarrow>
     es = take (nat limit) (sort_key ce_LastAccessed (ms_entries ms))"
  by (auto simp: ms_ListByLastAccessed_def ms_entries_def Let_def split: option.splits if_splits)

end
