(* ===== verification/S3_Client.thy ===== *)
theory S3_Client
  imports Go_Strings
begin

text \<open>
  \<open>internal/s3client\<close>: the client of one bucket over the AWS SDK, and the translation of
  S3 errors into POSIX error numbers. The SDK is not part of the repository: it is the
  parameter \<open>'w aws\<close>, a record of the calls the client makes, each a function of the
  remote state \<open>'w\<close>. Pointers of the SDK's output structs are options.
\<close>

section \<open>The SDK calls the client makes\<close>

record get_output =
  go_body :: bytes                     \<comment> \<open>what reading \<open>out.Body\<close> delivers\<close>
  go_body_err :: "go_error option"     \<comment> \<open>the error reading it ends with, if any\<close>
  go_length :: "int option"
  go_type :: "string option"
  go_modified :: "time option"
  go_etag :: "string option"

record head_output =
  ho_length :: "int option"
  ho_type :: "string option"
  ho_modified :: "time option"
  ho_etag :: "string option"

record raw_object =
  ro_key :: "string option"
  ro_size :: "int option"
  ro_modified :: "time option"
  ro_etag :: "string option"

record list_output =
  lo_contents :: "raw_object list"
  lo_prefixes :: "string option list"
  lo_truncated :: "bool option"
  lo_next :: "string option"

record 'w aws =
  aws_Get :: "string \<Rightarrow> string \<Rightarrow> 'w \<Rightarrow> (go_error + get_output) \<times> 'w"
  aws_Put :: "string \<Rightarrow> string \<Rightarrow> bytes \<Rightarrow> int \<Rightarrow> 'w \<Rightarrow> (go_error + string option) \<times> 'w"
  aws_Head :: "string \<Rightarrow> string \<Rightarrow> 'w \<Rightarrow> (go_error + head_output) \<times> 'w"
  aws_Delete :: "string \<Rightarrow> string \<Rightarrow> 'w \<Rightarrow> go_error option \<times> 'w"
  aws_List :: "string \<Rightarrow> string \<Rightarrow> string \<Rightarrow> int \<Rightarrow> string option \<Rightarrow> 'w \<Rightarrow> (go_error + list_output) \<times> 'w"
  aws_Copy :: "string \<Rightarrow> string \<Rightarrow> string \<Rightarrow> 'w \<Rightarrow> go_error option \<times> 'w"

text \<open>\<open>aws.ToInt64\<close>, \<open>aws.ToString\<close>, \<open>aws.ToTime\<close>, \<open>aws.ToBool\<close>: the value, or zero for nil.\<close>

definition deref :: "'a \<Rightarrow> 'a option \<Rightarrow> 'a" where
  "deref z p = (case p of None \<Rightarrow> z | Some v \<Rightarrow> v)"

lemma deref_simps [simp]: "deref z None = z" "deref z (Some v) = v"
  by (simp_all add: deref_def)

section \<open>client.go\<close>

record s3_options =
  BaseEndpoint :: string
  Region :: string
  AccessKey :: string
  SecretKey :: string
  SessionToken :: string
  UsePathStyle :: bool

record 'w client =
  c_inner :: "'w aws"
  c_bucket :: string

definition NewClient ::
  "(s3_options \<Rightarrow> 'w aws) \<Rightarrow> string \<Rightarrow> string \<Rightarrow> string \<Rightarrow> string \<Rightarrow> string \<Rightarrow> 'w client" where
  "NewClient s3_New bucket region endpoint accessKey secretKey =
     \<lparr>c_inner = s3_New \<lparr>BaseEndpoint = endpoint, Region = region, AccessKey = accessKey,
                        SecretKey = secretKey, SessionToken = [], UsePathStyle = True\<rparr>,
      c_bucket = bucket\<rparr>"

section \<open>operations.go\<close>

record ObjectMeta =
  om_ETag :: string
  om_Size :: int
  om_LastModified :: time
  om_ContentType :: string

record ObjectEntry =
  oe_Key :: string
  oe_Size :: int
  oe_LastModified :: time
  oe_ETag :: string

record ListResult =
  lr_Objects :: "ObjectEntry list"
  lr_CommonPrefixes :: "string list"
  lr_ContinuationToken :: "string option"

definition GetObject ::
  "'w client \<Rightarrow> string \<Rightarrow> 'w \<Rightarrow> (go_error + bytes \<times> go_error option \<times> ObjectMeta) \<times> 'w" where
  "GetObject c key w =
     (case aws_Get (c_inner c) (c_bucket c) key w of
        (Inl err, w') \<Rightarrow> (Inl err, w')
      | (Inr out, w') \<Rightarrow>
          (Inr (go_body out, go_body_err out,
                \<lparr>om_ETag = deref [] (go_etag out),
                 om_Size = deref 0 (go_length out),
                 om_LastModified = deref zero_time (go_modified out),
                 om_ContentType = deref [] (go_type out)\<rparr>), w'))"

definition PutObject ::
  "'w client \<Rightarrow> string \<Rightarrow> bytes \<Rightarrow> int \<Rightarrow> 'w \<Rightarrow> (go_error + ObjectMeta) \<times> 'w" where
  "PutObject c key body sz w =
     (case aws_Put (c_inner c) (c_bucket c) key body sz w of
        (Inl err, w') \<Rightarrow> (Inl err, w')
      | (Inr etag, w') \<Rightarrow>
          (Inr \<lparr>om_ETag = deref [] etag, om_Size = sz,
                om_LastModified = zero_time, om_ContentType = []\<rparr>, w'))"

definition HeadObject :: "'w client \<Rightarrow> string \<Rightarrow> 'w \<Rightarrow> (go_error + ObjectMeta) \<times> 'w" where
  "HeadObject c key w =
     (case aws_Head (c_inner c) (c_bucket c) key w of
        (Inl err, w') \<Rightarrow> (Inl err, w')
      | (Inr out, w') \<Rightarrow>
          (Inr \<lparr>om_ETag = deref [] (ho_etag out),
                om_Size = deref 0 (ho_length out),
                om_LastModified = deref zero_time (ho_modified out),
                om_ContentType = deref [] (ho_type out)\<rparr>, w'))"

definition DeleteObject :: "'w client \<Rightarrow> string \<Rightarrow> 'w \<Rightarrow> go_error option \<times> 'w" where
  "DeleteObject c key w = aws_Delete (c_inner c) (c_bucket c) key w"

definition to_entry :: "raw_object \<Rightarrow> ObjectEntry" where
  "to_entry obj =
     \<lparr>oe_Key = deref [] (ro_key obj), oe_Size = deref 0 (ro_size obj),
      oe_LastModified = deref zero_time (ro_modified obj), oe_ETag = deref [] (ro_etag obj)\<rparr>"

fun list_objects_loop :: "string \<Rightarrow> raw_object list \<Rightarrow> ObjectEntry list" where
  "list_objects_loop prefix [] = []"
| "list_objects_loop prefix (obj # objs) =
     (if deref [] (ro_key obj) = prefix then list_objects_loop prefix objs
      else to_entry obj # list_objects_loop prefix objs)"

definition ListObjects ::
  "'w client \<Rightarrow> string \<Rightarrow> string \<Rightarrow> string option \<Rightarrow> 'w \<Rightarrow> (go_error + ListResult) \<times> 'w" where
  "ListObjects c prefix delimiter contToken w =
     (case aws_List (c_inner c) (c_bucket c) prefix delimiter 1000 contToken w of
        (Inl err, w') \<Rightarrow> (Inl err, w')
      | (Inr out, w') \<Rightarrow>
          (Inr \<lparr>lr_Objects = list_objects_loop prefix (lo_contents out),
                lr_CommonPrefixes = map (deref []) (lo_prefixes out),
                lr_ContinuationToken =
                  (if deref False (lo_truncated out) then lo_next out else None)\<rparr>, w'))"

definition CopyObject :: "'w client \<Rightarrow> string \<Rightarrow> string \<Rightarrow> 'w \<Rightarrow> go_error option \<times> 'w" where
  "CopyObject c srcKey dstKey w =
     aws_Copy (c_inner c) (c_bucket c) (c_bucket c @ ''/'' @ srcKey) dstKey w"

lemma list_objects_loop_filter:
  "list_objects_loop p objs = map to_entry (filter (\<lambda>ob. deref [] (ro_key ob) \<noteq> p) objs)"
  by (induction objs) auto

lemma list_objects_no_prefix: "ob \<in> set (list_objects_loop p objs) \<Longrightarrow> oe_Key ob \<noteq> p"
  by (auto simp: list_objects_loop_filter to_entry_def)

lemma ListObjects_ok:
  "ListObjects c p d t w = (Inr res, w') \<longleftrightarrow>
     (\<exists>out. aws_List (c_inner c) (c_bucket c) p d 1000 t w = (Inr out, w') \<and>
        lr_Objects res = map to_entry (filter (\<lambda>ob. deref [] (ro_key ob) \<noteq> p) (lo_contents out)) \<and>
        lr_CommonPrefixes res = map (deref []) (lo_prefixes out) \<and>
        lr_ContinuationToken res = (if deref False (lo_truncated out) then lo_next out else None))"
  unfolding ListObjects_def
  by (cases res) (auto simp: list_objects_loop_filter split: prod.splits sum.splits)

section \<open>errors.go and \<open>IsNotFound\<close>\<close>

text \<open>The chain of a Go error, and \<open>errors.As\<close> for one of the SDK's error types.\<close>

fun err_chain :: "go_error \<Rightarrow> go_error list" where
  "err_chain (GoError k m None) = [GoError k m None]"
| "err_chain (GoError k m (Some e)) = GoError k m (Some e) # err_chain e"

definition errors_As :: "err_type \<Rightarrow> go_error \<Rightarrow> bool" where
  "errors_As t err \<longleftrightarrow> t \<in> err_kind ` set (err_chain err)"

definition TranslateError :: "go_error option \<Rightarrow> errno" where
  "TranslateError e =
     (case e of
        None \<Rightarrow> OK
      | Some err \<Rightarrow>
          if errors_As TNoSuchKey err then ENOENT
          else if errors_As TNotFound err then ENOENT
          else
            let errMsg = err_msg err
            in if Contains errMsg ''StatusCode: 404'' \<or> Contains errMsg ''NoSuchKey'' then ENOENT
               else if Contains errMsg ''StatusCode: 403'' \<or> Contains errMsg ''AccessDenied'' then EACCES
               else if Contains errMsg ''StatusCode: 409'' then EEXIST
               else if Contains errMsg ''SlowDown'' \<or> Contains errMsg ''StatusCode: 503'' then EAGAIN
               else EIO)"

fun isErrorType :: "err_type \<Rightarrow> go_error \<Rightarrow> bool" where
  "isErrorType t (GoError k m None) = (k = t)"
| "isErrorType t (GoError k m (Some e)) = (k = t \<or> isErrorType t e)"

definition IsNotFound :: "go_error option \<Rightarrow> bool" where
  "IsNotFound e =
     (case e of
        None \<Rightarrow> False
      | Some err \<Rightarrow>
          if isErrorType TNoSuchKey err then True
          else if isErrorType TNotFound err then True
          else Contains (err_msg err) ''StatusCode: 404'' \<or> Contains (err_msg err) ''NoSuchKey'')"

lemma isErrorType_errors_As: "isErrorType t err = errors_As t err"
  by (induction t err rule: isErrorType.induct) (auto simp: errors_As_def)

lemma TranslateError_None [simp]: "TranslateError None = OK"
  by (simp add: TranslateError_def)

lemma TranslateError_Some_not_OK [simp]: "TranslateError (Some e) \<noteq> OK"
  by (simp add: TranslateError_def Let_def)

lemma errors_As_wrapf: "t \<noteq> TOther \<Longrightarrow> errors_As t (wrapf m e) = errors_As t e"
  by (simp add: errors_As_def wrapf_def)

lemma Contains_wrapf: "Contains (err_msg e) p \<Longrightarrow> Contains (err_msg (wrapf m e)) p"
proof -
  assume "Contains (err_msg e) p"
  moreover have "Contains s p \<Longrightarrow> Contains (a @ s) p" for a s
    by (induction a) auto
  ultimately show ?thesis by (simp add: wrapf_def)
qed

lemma IsNotFound_ENOENT: "IsNotFound e \<longleftrightarrow> TranslateError e = ENOENT"
  by (auto simp: IsNotFound_def TranslateError_def isErrorType_errors_As Let_def split: option.splits)

text \<open>
  The program classifies a failed S3 call twice: the directory code first asks
  \<open>IsNotFound\<close> and, if that says no, calls \<open>TranslateError\<close>. Both agree on what "not
  found" is.
\<close>

text \<open>\<open>IsNotFound\<close> holds exactly for the errors \<open>TranslateError\<close> maps to \<open>ENOENT\<close>,
  although one walks the error chain with its own loop and the other calls \<open>errors.As\<close>.\<close>

theorem IsNotFound_iff_ENOENT: "IsNotFound e \<longleftrightarrow> TranslateError e = ENOENT"
  by (rule IsNotFound_ENOENT)

text \<open>
  Wrapping an error on its way up (\<open>fmt.Errorf("...: %w", err)\<close>) never hides that the
  object does not exist.
\<close>

lemma ENOENT_wrapf: "TranslateError (Some e) = ENOENT \<Longrightarrow> TranslateError (Some (wrapf m e)) = ENOENT"
  by (auto simp: TranslateError_def errors_As_wrapf Let_def dest: Contains_wrapf split: if_splits)

end
