(* ===== verification/S3_Model.thy ===== *)
theory S3_Model
  imports S3_Client
begin

text \<open>
  What the gateway relies on of the S3 service, as a predicate on the SDK's parameter, and
  its consequences for the client's operations. \<open>objs w (bucket, key)\<close> is the object the
  service holds, its bytes and ETag. An operation that fails may or may not have taken effect.
\<close>

type_synonym s3_content = "string \<times> string \<Rightarrow> (bytes \<times> string) option"

definition get_law :: "'w aws \<Rightarrow> ('w \<Rightarrow> s3_content) \<Rightarrow> bool" where
  "get_law a objs \<longleftrightarrow> (\<forall>b k w r w'. aws_Get a b k w = (r, w') \<longrightarrow> objs w' = objs w \<and>
     (\<forall>out. r = Inr out \<longrightarrow> (\<exists>d t. objs w (b, k) = Some (d, t) \<and> go_etag out = Some t \<and>
        go_length out = Some (int (length d)) \<and> (go_body_err out = None \<longrightarrow> go_body out = d))))"

definition head_law :: "'w aws \<Rightarrow> ('w \<Rightarrow> s3_content) \<Rightarrow> bool" where
  "head_law a objs \<longleftrightarrow> (\<forall>b k w r w'. aws_Head a b k w = (r, w') \<longrightarrow> objs w' = objs w \<and>
     (\<forall>out. r = Inr out \<longrightarrow> (\<exists>d t. objs w (b, k) = Some (d, t) \<and> ho_etag out = Some t \<and>
        ho_length out = Some (int (length d)))))"

definition put_law :: "'w aws \<Rightarrow> ('w \<Rightarrow> s3_content) \<Rightarrow> bool" where
  "put_law a objs \<longleftrightarrow> (\<forall>b k body sz w r w'. aws_Put a b k body sz w = (r, w') \<longrightarrow>
     (\<forall>e. r = Inr e \<longrightarrow> sz = int (length body) \<and> (\<exists>t. e = Some t \<and> objs w' = (objs w)((b, k) \<mapsto> (body, t)))) \<and>
     (\<forall>e. r = Inl e \<longrightarrow> objs w' = objs w \<or> (\<exists>t. objs w' = (objs w)((b, k) \<mapsto> (body, t)))))"

definition delete_law :: "'w aws \<Rightarrow> ('w \<Rightarrow> s3_content) \<Rightarrow> bool" where
  "delete_law a objs \<longleftrightarrow> (\<forall>b k w r w'. aws_Delete a b k w = (r, w') \<longrightarrow>
     (r = None \<longrightarrow> objs w' = (objs w)((b, k) := None)) \<and>
     (\<forall>e. r = Some e \<longrightarrow> objs w' = objs w \<or> objs w' = (objs w)((b, k) := None)))"

text \<open>\<open>CopySource\<close> is the source's bucket (which has no slash) and key, joined by a slash.\<close>

definition copy_law :: "'w aws \<Rightarrow> ('w \<Rightarrow> s3_content) \<Rightarrow> bool" where
  "copy_law a objs \<longleftrightarrow> (\<forall>b sb sk dk w r w'. CHR ''/'' \<notin> set sb \<longrightarrow> aws_Copy a b (sb @ ''/'' @ sk) dk w = (r, w') \<longrightarrow>
     (r = None \<longrightarrow> (\<exists>d t t'. objs w (sb, sk) = Some (d, t) \<and> objs w' = (objs w)((b, dk) \<mapsto> (d, t')))) \<and>
     (\<forall>e. r = Some e \<longrightarrow> objs w' = objs w \<or>
        (\<exists>d t t'. objs w (sb, sk) = Some (d, t) \<and> objs w' = (objs w)((b, dk) \<mapsto> (d, t')))))"

text \<open>
  \<open>ListObjectsV2\<close> changes nothing; a page names only keys under the prefix, and a page with
  nothing on it that is the last one from the start means that no key is under the prefix.
\<close>

definition list_law :: "'w aws \<Rightarrow> ('w \<Rightarrow> s3_content) \<Rightarrow> bool" where
  "list_law a objs \<longleftrightarrow> (\<forall>b p d m t w r w'. aws_List a b p d m t w = (r, w') \<longrightarrow> objs w' = objs w \<and>
     (\<forall>out. r = Inr out \<longrightarrow>
        (\<forall>x \<in> set (lo_contents out). \<exists>k. ro_key x = Some k \<and> take (length p) k = p \<and> objs w (b, k) \<noteq> None) \<and>
        (t = None \<and> deref False (lo_truncated out) = False \<and> lo_prefixes out = [] \<longrightarrow>
           (\<forall>k. take (length p) k = p \<longrightarrow> objs w (b, k) \<noteq> None \<longrightarrow>
              (\<exists>x \<in> set (lo_contents out). ro_key x = Some k)))))"

definition s3_ok :: "'w aws \<Rightarrow> ('w \<Rightarrow> s3_content) \<Rightarrow> bool" where
  "s3_ok a objs \<longleftrightarrow> get_law a objs \<and> head_law a objs \<and> put_law a objs \<and> delete_law a objs \<and>
     copy_law a objs \<and> list_law a objs"

section \<open>The client's operations under these laws\<close>

lemma GetObject_content:
  assumes "s3_ok (c_inner c) objs" and "GetObject c k w = (r, w')"
  shows "objs w' = objs w"
    and "r = Inr (body, err, meta) \<Longrightarrow> \<exists>d t. objs w (c_bucket c, k) = Some (d, t) \<and> om_ETag meta = t \<and>
      om_Size meta = int (length d) \<and> (err = None \<longrightarrow> body = d)"
proof -
  obtain x w1 where g: "aws_Get (c_inner c) (c_bucket c) k w = (x, w1)" by (metis surj_pair)
  have l: "objs w1 = objs w" "\<And>out. x = Inr out \<Longrightarrow> \<exists>d t. objs w (c_bucket c, k) = Some (d, t) \<and> go_etag out = Some t \<and>
        go_length out = Some (int (length d)) \<and> (go_body_err out = None \<longrightarrow> go_body out = d)"
    using assms(1) g unfolding s3_ok_def get_law_def by blast+
  show "objs w' = objs w" using assms(2) g l(1) by (auto simp: GetObject_def split: sum.splits)
  show "r = Inr (body, err, meta) \<Longrightarrow> \<exists>d t. objs w (c_bucket c, k) = Some (d, t) \<and> om_ETag meta = t \<and>
      om_Size meta = int (length d) \<and> (err = None \<longrightarrow> body = d)"
    using assms(2) g l(2) by (fastforce simp: GetObject_def split: sum.splits)
qed

lemma PutObject_content:
  assumes "s3_ok (c_inner c) objs" and "PutObject c k body sz w = (r, w')"
  shows "r = Inr meta \<Longrightarrow> sz = int (length body) \<and> om_Size meta = sz \<and>
      objs w' = (objs w)((c_bucket c, k) \<mapsto> (body, om_ETag meta))"
    and "r = Inl e \<Longrightarrow> objs w' = objs w \<or> (\<exists>t. objs w' = (objs w)((c_bucket c, k) \<mapsto> (body, t)))"
proof -
  obtain x w1 where g: "aws_Put (c_inner c) (c_bucket c) k body sz w = (x, w1)" by (metis surj_pair)
  have l: "\<And>e. x = Inr e \<Longrightarrow> sz = int (length body) \<and> (\<exists>t. e = Some t \<and> objs w1 = (objs w)((c_bucket c, k) \<mapsto> (body, t)))"
    "\<And>e. x = Inl e \<Longrightarrow> objs w1 = objs w \<or> (\<exists>t. objs w1 = (objs w)((c_bucket c, k) \<mapsto> (body, t)))"
    using assms(1) g unfolding s3_ok_def put_law_def by blast+
  show "r = Inr meta \<Longrightarrow> sz = int (length body) \<and> om_Size meta = sz \<and>
      objs w' = (objs w)((c_bucket c, k) \<mapsto> (body, om_ETag meta))"
    using assms(2) g l(1) by (fastforce simp: PutObject_def split: sum.splits)
  show "r = Inl e \<Longrightarrow> objs w' = objs w \<or> (\<exists>t. objs w' = (objs w)((c_bucket c, k) \<mapsto> (body, t)))"
    using assms(2) g l(2) by (fastforce simp: PutObject_def split: sum.splits)
qed

lemma HeadObject_content:
  assumes "s3_ok (c_inner c) objs" and "HeadObject c k w = (r, w')"
  shows "objs w' = objs w"
    and "r = Inr meta \<Longrightarrow> \<exists>d. objs w (c_bucket c, k) = Some (d, om_ETag meta) \<and> om_Size meta = int (length d)"
proof -
  obtain x w1 where g: "aws_Head (c_inner c) (c_bucket c) k w = (x, w1)" by (metis surj_pair)
  have l: "objs w1 = objs w" "\<And>out. x = Inr out \<Longrightarrow> \<exists>d t. objs w (c_bucket c, k) = Some (d, t) \<and> ho_etag out = Some t \<and>
        ho_length out = Some (int (length d))"
    using assms(1) g unfolding s3_ok_def head_law_def by blast+
  show "objs w' = objs w" using assms(2) g l(1) by (auto simp: HeadObject_def split: sum.splits)
  show "r = Inr meta \<Longrightarrow> \<exists>d. objs w (c_bucket c, k) = Some (d, om_ETag meta) \<and> om_Size meta = int (length d)"
    using assms(2) g l(2) by (fastforce simp: HeadObject_def split: sum.splits)
qed

lemma DeleteObject_content:
  assumes "s3_ok (c_inner c) objs" and "DeleteObject c k w = (r, w')"
  shows "r = None \<Longrightarrow> objs w' = (objs w)((c_bucket c, k) := None)"
    and "objs w' = objs w \<or> objs w' = (objs w)((c_bucket c, k) := None)"
  using assms unfolding s3_ok_def delete_law_def DeleteObject_def by (metis option.exhaust)+

lemma CopyObject_content:
  assumes "s3_ok (c_inner c) objs" and "CHR ''/'' \<notin> set (c_bucket c)" and "CopyObject c sk dk w = (r, w')"
  shows "r = None \<Longrightarrow> \<exists>d t t'. objs w (c_bucket c, sk) = Some (d, t) \<and> objs w' = (objs w)((c_bucket c, dk) \<mapsto> (d, t'))"
    and "objs w' = objs w \<or>
      (\<exists>d t t'. objs w (c_bucket c, sk) = Some (d, t) \<and> objs w' = (objs w)((c_bucket c, dk) \<mapsto> (d, t')))"
  using assms unfolding s3_ok_def copy_law_def CopyObject_def by (metis option.exhaust)+

lemma ListObjects_content:
  assumes "s3_ok (c_inner c) objs" and "ListObjects c p d t w = (r, w')"
  shows "objs w' = objs w"
    and "r = Inr res \<Longrightarrow> x \<in> set (lr_Objects res) \<Longrightarrow>
      take (length p) (oe_Key x) = p \<and> objs w (c_bucket c, oe_Key x) \<noteq> None"
    and "r = Inr res \<Longrightarrow> t = None \<Longrightarrow> lr_Objects res = [] \<Longrightarrow> lr_CommonPrefixes res = [] \<Longrightarrow>
      lr_ContinuationToken res = None \<Longrightarrow>
      (\<exists>out. aws_List (c_inner c) (c_bucket c) p d 1000 t w = (Inr out, w') \<and> deref False (lo_truncated out) = False) \<Longrightarrow>
      take (length p) k = p \<Longrightarrow> k \<noteq> p \<Longrightarrow> objs w (c_bucket c, k) = None"
proof -
  obtain ans w1 where g: "aws_List (c_inner c) (c_bucket c) p d 1000 t w = (ans, w1)" by (metis surj_pair)
  have w1: "w' = w1" using assms(2) g by (auto simp: ListObjects_def split: sum.splits)
  have l: "objs w1 = objs w"
    "\<And>out x. ans = Inr out \<Longrightarrow> x \<in> set (lo_contents out) \<Longrightarrow>
       \<exists>k. ro_key x = Some k \<and> take (length p) k = p \<and> objs w (c_bucket c, k) \<noteq> None"
    "\<And>out k. ans = Inr out \<Longrightarrow> t = None \<Longrightarrow> deref False (lo_truncated out) = False \<Longrightarrow> lo_prefixes out = [] \<Longrightarrow>
       take (length p) k = p \<Longrightarrow> objs w (c_bucket c, k) \<noteq> None \<Longrightarrow> \<exists>x \<in> set (lo_contents out). ro_key x = Some k"
    using assms(1) g unfolding s3_ok_def list_law_def by blast+
  show "objs w' = objs w" using l(1) w1 by simp
  show "r = Inr res \<Longrightarrow> x \<in> set (lr_Objects res) \<Longrightarrow>
      take (length p) (oe_Key x) = p \<and> objs w (c_bucket c, oe_Key x) \<noteq> None"
    using assms(2) g l(2) by (fastforce simp: ListObjects_ok to_entry_def)
  show "objs w (c_bucket c, k) = None"
    if h: "r = Inr res" "t = None" "lr_Objects res = []" "lr_CommonPrefixes res = []"
      "lr_ContinuationToken res = None"
      "\<exists>out. aws_List (c_inner c) (c_bucket c) p d 1000 t w = (Inr out, w') \<and> deref False (lo_truncated out) = False"
      "take (length p) k = p" "k \<noteq> p"
  proof (rule ccontr)
    assume ex: "objs w (c_bucket c, k) \<noteq> None"
    obtain out where out: "ans = Inr out" "deref False (lo_truncated out) = False" using h(6) g by auto
    have res: "lr_Objects res = map to_entry (filter (\<lambda>ob. deref [] (ro_key ob) \<noteq> p) (lo_contents out))"
      "lr_CommonPrefixes res = map (deref []) (lo_prefixes out)"
      using assms(2) h(1) g out by (auto simp: ListObjects_ok)
    then have "lo_prefixes out = []" using h(4) by simp
    from l(3) [OF out(1) h(2) out(2) this h(7) ex]
    obtain x where "x \<in> set (lo_contents out)" "ro_key x = Some k" by blast
    with res(1) h(3,8) show False by (auto simp: filter_empty_conv)
  qed
qed

section \<open>Failed requests without effect\<close>

text \<open>The stronger service some properties assume: a request that fails has not taken effect.\<close>

definition s3_atomic :: "'w aws \<Rightarrow> ('w \<Rightarrow> s3_content) \<Rightarrow> bool" where
  "s3_atomic a objs \<longleftrightarrow>
     (\<forall>b k body sz w e w'. aws_Put a b k body sz w = (Inl e, w') \<longrightarrow> objs w' = objs w) \<and>
     (\<forall>b k w e w'. aws_Delete a b k w = (Some e, w') \<longrightarrow> objs w' = objs w) \<and>
     (\<forall>b src k w e w'. aws_Copy a b src k w = (Some e, w') \<longrightarrow> objs w' = objs w)"

lemma s3_atomicD:
  assumes "s3_atomic (c_inner c) objs"
  shows "PutObject c k body sz w = (Inl e, w') \<Longrightarrow> objs w' = objs w"
    and "DeleteObject c k w = (Some e, w') \<Longrightarrow> objs w' = objs w"
    and "CopyObject c sk dk w = (Some e, w') \<Longrightarrow> objs w' = objs w"
  using assms by (auto simp: s3_atomic_def PutObject_def DeleteObject_def CopyObject_def split: prod.splits sum.splits)

end
