(* ===== verification/Test_Doubles.thy ===== *)
theory Test_Doubles
  imports Metadata_Store S3_Model
begin

text \<open>
  Concrete instances of the parameters, on which the witnesses of the development run: an
  association list as the BoltDB bucket, a table as the JSON codec, an in-memory S3. Nothing here models
  code of the program.
\<close>

section \<open>BoltDB\<close>

definition alist_bolt :: "((string \<times> bytes) list) bolt" where
  "alist_bolt =
     \<lparr>bolt_View = (\<lambda>_. None),
      bolt_Update = (\<lambda>f db. case f db of Inl e \<Rightarrow> (Some e, db) | Inr db' \<Rightarrow> (None, db')),
      bolt_Get = map_of,
      bolt_Put = (\<lambda>db k v. Inr (AList.update k v db)),
      bolt_Delete = (\<lambda>db k. Inr (AList.delete k db)),
      bolt_ForEach = AList.clearjunk\<rparr>"

lemma alist_bolt_ok: "bolt_ok alist_bolt"
  by (auto simp: bolt_ok_def alist_bolt_def map_of_clearjunk distinct_clearjunk split: sum.splits)

section \<open>JSON\<close>

text \<open>An entry is encoded as its position in a table, in unary.\<close>

fun position :: "'a \<Rightarrow> 'a list \<Rightarrow> nat option" where
  "position x [] = None"
| "position x (y # ys) = (if x = y then Some 0 else map_option Suc (position x ys))"

definition table_codec :: "CacheEntry list \<Rightarrow> codec" where
  "table_codec es =
     \<lparr>json_Marshal = (\<lambda>e. case position e es of
         None \<Rightarrow> Inl (errorf ''unsupported value'')
       | Some i \<Rightarrow> Inr (replicate i (CHR ''1''))),
      json_Unmarshal = (\<lambda>d. if length d < length es then Inr (es ! length d)
         else Inl (errorf ''invalid character''))\<rparr>"

lemma position_Some: "position x ys = Some i \<Longrightarrow> i < length ys \<and> ys ! i = x"
  by (induction ys arbitrary: i) (auto split: if_splits)

lemma table_codec_ok: "codec_ok (table_codec es)"
  by (auto simp: codec_ok_def table_codec_def dest: position_Some split: option.splits)

definition demo_meta :: "CacheEntry list \<Rightarrow> (string \<times> bytes) list \<Rightarrow> ((string \<times> bytes) list) MetadataStore" where
  "demo_meta es db = \<lparr>ms_bolt = alist_bolt, ms_codec = table_codec es, ms_db = db\<rparr>"

lemma demo_meta_ok: "ms_ok (demo_meta es db)"
  by (simp add: ms_ok_def demo_meta_def alist_bolt_ok table_codec_ok)

section \<open>S3\<close>

text \<open>
  A service that never fails. An object is its bytes and a modification time, its ETag is its
  bytes; a listing fits on one page.
\<close>

type_synonym mem_world = "((string \<times> string) \<times> bytes \<times> time) list"

definition mem_objs :: "mem_world \<Rightarrow> s3_content" where
  "mem_objs w bk = map_option (\<lambda>(d, t). (d, d)) (map_of w bk)"

definition no_such_key :: go_error where
  "no_such_key = GoError TNoSuchKey ''NoSuchKey'' None"

definition listed :: "string \<Rightarrow> string \<Rightarrow> mem_world \<Rightarrow> ((string \<times> string) \<times> bytes \<times> time) list" where
  "listed b p w = filter (\<lambda>((b', k), _). b' = b \<and> take (length p) k = p) w"

definition in_subdir :: "string \<Rightarrow> string \<Rightarrow> bool" where
  "in_subdir p k \<longleftrightarrow> CHR ''/'' \<in> set (drop (length p) k)"

definition subdir :: "string \<Rightarrow> string \<Rightarrow> string" where
  "subdir p k = p @ takeWhile (\<lambda>c. c \<noteq> CHR ''/'') (drop (length p) k) @ ''/''"

definition mem_s3 :: "mem_world aws" where
  "mem_s3 =
     \<lparr>aws_Get = (\<lambda>b k w. case map_of w (b, k) of
          None \<Rightarrow> (Inl no_such_key, w)
        | Some (d, t) \<Rightarrow> (Inr \<lparr>go_body = d, go_body_err = None, go_length = Some (int (length d)),
             go_type = None, go_modified = Some t, go_etag = Some d\<rparr>, w)),
      aws_Put = (\<lambda>b k body sz w. if sz = int (length body)
          then (Inr (Some body), AList.update (b, k) (body, 0) w)
          else (Inl (errorf ''bad length''), w)),
      aws_Head = (\<lambda>b k w. case map_of w (b, k) of
          None \<Rightarrow> (Inl no_such_key, w)
        | Some (d, t) \<Rightarrow> (Inr \<lparr>ho_length = Some (int (length d)), ho_type = None, ho_modified = Some t,
             ho_etag = Some d\<rparr>, w)),
      aws_Delete = (\<lambda>b k w. (None, AList.delete (b, k) w)),
      aws_List = (\<lambda>b p d m t w. (Inr
         \<lparr>lo_contents = map (\<lambda>((b, k), (d, t)). \<lparr>ro_key = Some k, ro_size = Some (int (length d)), ro_modified = Some t,
             ro_etag = Some d\<rparr>) (filter (\<lambda>((b, k), _). \<not> in_subdir p k) (listed b p w)),
          lo_prefixes = map (\<lambda>((b, k), _). Some (subdir p k)) (filter (\<lambda>((b, k), _). in_subdir p k) (listed b p w)),
          lo_truncated = Some False, lo_next = None\<rparr>, w)),
      aws_Copy = (\<lambda>b s dk w. case List.find (\<lambda>((sb, sk), _). CHR ''/'' \<notin> set sb \<and> sb @ ''/'' @ sk = s) (AList.clearjunk w) of
          None \<Rightarrow> (Some no_such_key, w)
        | Some (_, (d, t)) \<Rightarrow> (None, AList.update (b, dk) (d, t) w))\<rparr>"

lemma mem_objs_update [simp]: "mem_objs (AList.update bk (d, t) w) = (mem_objs w)(bk \<mapsto> (d, d))"
  by (simp add: mem_objs_def fun_eq_iff)

lemma mem_objs_delete [simp]: "mem_objs (AList.delete bk w) = (mem_objs w)(bk := None)"
  by (simp add: mem_objs_def fun_eq_iff)

lemma slash_split:
  "CHR ''/'' \<notin> set a \<Longrightarrow> CHR ''/'' \<notin> set c \<Longrightarrow> a @ CHR ''/'' # b = c @ CHR ''/'' # d \<Longrightarrow> a = c \<and> b = d"
proof (induction a arbitrary: c)
  case Nil
  then show ?case by (cases c) auto
next
  case (Cons x a)
  then show ?case by (cases c) auto
qed

lemma mem_s3_copy: "copy_law mem_s3 mem_objs"
proof -
  have "objs_goal" if goal: "objs_goal = (\<exists>d t t'. mem_objs w (sb, sk) = Some (d, t) \<and> mem_objs w' = (mem_objs w)((b, dk) \<mapsto> (d, t')))"
    and sb: "CHR ''/'' \<notin> set sb" and c: "aws_Copy mem_s3 b (sb @ ''/'' @ sk) dk w = (None, w')"
    for objs_goal b sb sk dk w w'
  proof -
    obtain x d t where f: "List.find (\<lambda>((sb', sk'), _). CHR ''/'' \<notin> set sb' \<and> sb' @ ''/'' @ sk' = sb @ ''/'' @ sk)
        (AList.clearjunk w) = Some (x, d, t)" and w': "w' = AList.update (b, dk) (d, t) w"
      using c by (auto simp: mem_s3_def split: option.splits)
    from f have "(x, d, t) \<in> set (AList.clearjunk w)" "CHR ''/'' \<notin> set (fst x)" "fst x @ ''/'' @ snd x = sb @ ''/'' @ sk"
      by (auto dest!: find_SomeD)
    then have "map_of w (sb, sk) = Some (d, t)"
      using slash_split [OF _ sb, of "fst x" "snd x" sk]
      by (metis append_Cons append_Nil distinct_clearjunk map_of_clearjunk map_of_eq_Some_iff prod.collapse)
    then show ?thesis unfolding goal w' by (simp add: mem_objs_def [of w]) blast
  qed
  moreover have "objs_goal" if "objs_goal = (mem_objs w' = mem_objs w)"
      and "aws_Copy mem_s3 b s dk w = (Some e, w')" for objs_goal b s dk w w' e
    using that by (auto simp: mem_s3_def split: option.splits)
  ultimately show ?thesis unfolding copy_law_def by blast
qed

lemma mem_s3_ok: "s3_ok mem_s3 mem_objs"
proof -
  have "get_law mem_s3 mem_objs" "head_law mem_s3 mem_objs" "delete_law mem_s3 mem_objs" "put_law mem_s3 mem_objs"
    by (auto simp: get_law_def head_law_def delete_law_def put_law_def mem_s3_def mem_objs_def [of w for w]
        split: option.splits if_splits)
  moreover have "list_law mem_s3 mem_objs"
  proof -
    have "map_of w bk \<noteq> None" if "(bk, x) \<in> set w" for w :: mem_world and bk x
      using that by (metis map_of_eq_None_iff fst_conv image_eqI)
    then show ?thesis
      by (fastforce simp: list_law_def mem_s3_def mem_objs_def listed_def filter_empty_conv dest!: map_of_SomeD)
  qed
  ultimately show ?thesis using mem_s3_copy by (simp add: s3_ok_def)
qed

lemma mem_s3_atomic: "s3_atomic mem_s3 mem_objs"
  by (auto simp: s3_atomic_def mem_s3_def split: if_splits option.splits)

end
