(* ===== verification/Evictor.thy ===== *)
theory Evictor
  imports Metadata_Store Go_Float Test_Doubles
begin

text \<open>
  \<open>internal/cache/evictor.go\<close>: the background eviction of least recently used objects.
  \<open>evictOnce\<close> is one pass; the goroutine \<open>Start\<close> launches runs a pass per tick until the
  stop channel is closed. Closing a channel twice panics in Go.
\<close>

section \<open>Channels that are only closed\<close>

datatype panic = CloseOfClosedChannel | NilDereference

text \<open>A \<open>chan struct{}\<close> used as a stop signal: whether it is closed.\<close>

type_synonym stop_chan = bool

definition close_chan :: "stop_chan \<Rightarrow> panic + stop_chan" where
  "close_chan closed = (if closed then Inl CloseOfClosedChannel else Inr True)"

section \<open>Operations\<close>

record Evictor =
  ev_maxSize :: int
  ev_interval :: duration
  ev_stopCh :: stop_chan
  ev_running :: bool      \<comment> \<open>the goroutine of \<open>Start\<close> has not returned\<close>

definition NewEvictor :: "int \<Rightarrow> Evictor" where
  "NewEvictor maxSize =
     \<lparr>ev_maxSize = maxSize, ev_interval = 30 * second, ev_stopCh = False, ev_running = False\<rparr>"

definition ev_Start :: "Evictor \<Rightarrow> Evictor" where
  "ev_Start ev = ev\<lparr>ev_running := True\<rparr>"

text \<open>\<open>Stop\<close> closes the channel and waits until the goroutine, which then sees it, has returned.\<close>

definition ev_Stop :: "Evictor \<Rightarrow> panic + Evictor" where
  "ev_Stop ev =
     (case close_chan (ev_stopCh ev) of
        Inl p \<Rightarrow> Inl p
      | Inr c \<Rightarrow> Inr (ev\<lparr>ev_stopCh := c, ev_running := False\<rparr>))"

text \<open>The loop over the candidates; the result is the new total and the number evicted.\<close>

fun evict_loop ::
  "DiskStore \<Rightarrow> int \<Rightarrow> CacheEntry list \<Rightarrow> int \<Rightarrow> nat \<Rightarrow> 'db MetadataStore \<Rightarrow> os \<Rightarrow>
   (int \<times> nat) \<times> 'db MetadataStore \<times> os" where
  "evict_loop ds target [] tot evicted ms s = ((tot, evicted), ms, s)"
| "evict_loop ds target (entry # es) tot evicted ms s =
     (if tot \<le> target then ((tot, evicted), ms, s)
      else
        (case ds_Delete ds (ce_Bucket entry) (ce_Key entry) s of
           (Some err, s') \<Rightarrow> evict_loop ds target es tot evicted ms s'
         | (None, s') \<Rightarrow>
             (case ms_Delete ms (ce_Bucket entry) (ce_Key entry) of
                (Some err, ms') \<Rightarrow> evict_loop ds target es tot evicted ms' s'
              | (None, ms') \<Rightarrow>
                  evict_loop ds target es (i64 (tot - ce_Size entry)) (Suc evicted) ms' s')))"

definition evictOnce ::
  "Evictor \<Rightarrow> DiskStore \<Rightarrow> 'db MetadataStore \<Rightarrow> os \<Rightarrow> go_error option \<times> 'db MetadataStore \<times> os" where
  "evictOnce ev ds ms s =
     (case ms_TotalSize ms of
        Inl err \<Rightarrow> (Some err, ms, s)
      | Inr tot \<Rightarrow>
          (let hw = highWater (ev_maxSize ev); target = targetMark (ev_maxSize ev)
           in if tot \<le> hw then (None, ms, s)
              else
                (case ms_ListByLastAccessed ms 100 of
                   Inl err \<Rightarrow> (Some err, ms, s)
                 | Inr entries \<Rightarrow>
                     (case evict_loop ds target entries tot 0 ms s of (_, ms', s') \<Rightarrow> (None, ms', s')))))"

text \<open>What the goroutine receives: ticks, and the stop signal once the channel is closed.\<close>

datatype ev_event = EvTick | EvStop

fun ev_goroutine ::
  "Evictor \<Rightarrow> DiskStore \<Rightarrow> ev_event list \<Rightarrow> 'db MetadataStore \<times> os \<Rightarrow> 'db MetadataStore \<times> os" where
  "ev_goroutine ev ds [] ms_s = ms_s"
| "ev_goroutine ev ds (EvStop # es) ms_s = ms_s"
| "ev_goroutine ev ds (EvTick # es) (ms, s) = ev_goroutine ev ds es (snd (evictOnce ev ds ms s))"

section \<open>The specification: which objects go\<close>

text \<open>
  The victims among the candidates: the shortest prefix of the least recently used ones
  that brings the total down to the target.
\<close>

fun victims :: "int \<Rightarrow> int \<Rightarrow> CacheEntry list \<Rightarrow> CacheEntry list" where
  "victims target tot [] = []"
| "victims target tot (e # es) =
     (if tot \<le> target then [] else e # victims target (tot - ce_Size e) es)"

definition freed :: "CacheEntry list \<Rightarrow> int" where
  "freed es = (\<Sum>e\<leftarrow>es. ce_Size e)"

lemma freed_simps [simp]: "freed [] = 0" "freed (e # es) = ce_Size e + freed es"
  by (simp_all add: freed_def)

lemma victims_prefix: "\<exists>rest. es = victims target tot es @ rest"
  by (induction target tot es rule: victims.induct) auto

text \<open>Enough is freed, or every candidate is a victim.\<close>

lemma victims_enough: "tot - freed (victims target tot es) \<le> target \<or> victims target tot es = es"
  by (induction target tot es rule: victims.induct) (auto simp: algebra_simps)

text \<open>No victim is taken in vain: before the last one the total was above the target.\<close>

lemma victims_needed:
  "victims target tot es = vs @ [v] \<Longrightarrow> target < tot - freed vs"
proof (induction target tot es arbitrary: vs rule: victims.induct)
  case (2 target tot e es)
  then show ?case by (cases vs) (auto simp: algebra_simps split: if_splits)
qed simp

definition mkey :: "CacheEntry \<Rightarrow> string" where
  "mkey e = entryKey (ce_Bucket e) (ce_Key e)"

definition epath :: "DiskStore \<Rightarrow> CacheEntry \<Rightarrow> string" where
  "epath ds e = ds_Path ds (ce_Bucket e) (ce_Key e)"

definition drop_keys :: "'k set \<Rightarrow> ('k \<rightharpoonup> 'v) \<Rightarrow> 'k \<rightharpoonup> 'v" where
  "drop_keys K m = (\<lambda>k. if k \<in> K then None else m k)"

lemma drop_keys_empty [simp]: "drop_keys {} m = m"
  by (simp add: drop_keys_def)

lemma drop_keys_upd: "drop_keys K (m(k := None)) = drop_keys (insert k K) m"
  by (auto simp: drop_keys_def)

text \<open>
  A pass in which no system call or transaction fails: every candidate's file exists and
  can be removed, and no two candidates share a file.
\<close>

definition evict_faultfree :: "DiskStore \<Rightarrow> CacheEntry list \<Rightarrow> 'db MetadataStore \<Rightarrow> os \<Rightarrow> bool" where
  "evict_faultfree ds es ms s \<longleftrightarrow>
     distinct (map (epath ds) es) \<and>
     (\<forall>e \<in> set es. fmlookup (files s) (epath ds e) \<noteq> None \<and> fault s OpRemove (epath ds e) = None)"

definition deletes_succeed :: "'db bolt \<Rightarrow> bool" where
  "deletes_succeed b \<longleftrightarrow> (\<forall>db k. fst (bolt_Update b (\<lambda>db. bolt_Delete b db k) db) = None)"

lemma ms_Delete_succeeds:
  assumes "ms_ok ms" "deletes_succeed (ms_bolt ms)"
  obtains ms' where "ms_Delete ms b k = (None, ms')" "ms_map ms' = (ms_map ms)(entryKey b k := None)"
    "ms_ok ms'" "ms_bolt ms' = ms_bolt ms"
proof -
  obtain r ms' where d: "ms_Delete ms b k = (r, ms')" by (cases "ms_Delete ms b k")
  have "r = None"
    using d assms(2) by (auto simp: ms_Delete_def ms_update_def deletes_succeed_def split: prod.splits) (metis fst_conv)
  with d have d': "ms_Delete ms b k = (None, ms')" by simp
  then show ?thesis
    using that [OF d'] delete_key_step [OF assms(1) d' [unfolded ms_Delete_key]]
      ms_update_env [OF d' [unfolded ms_Delete_def]] by simp
qed

lemma ds_Delete_succeeds:
  assumes "fmlookup (files s) (ds_Path ds b k) \<noteq> None" "fault s OpRemove (ds_Path ds b k) = None"
  shows "ds_Delete ds b k s = (None, s\<lparr>files := fmdrop (ds_Path ds b k) (files s)\<rparr>)"
  using assms by (auto simp: ds_Delete_def os_Remove_def)

lemma evict_loop_spec:
  assumes "ms_ok ms" "deletes_succeed (ms_bolt ms)" "evict_faultfree ds es ms s"
    and "\<forall>e \<in> set es. 0 \<le> ce_Size e" "freed es \<le> tot" "tot < 2 ^ 63"
  shows "\<exists>ms' s'. evict_loop ds target es tot n ms s =
      ((tot - freed (victims target tot es), n + length (victims target tot es)), ms', s') \<and>
    ms_map ms' = drop_keys (mkey ` set (victims target tot es)) (ms_map ms) \<and>
    s' = s\<lparr>files := fmdrop_set (epath ds ` set (victims target tot es)) (files s)\<rparr> \<and>
    ms_ok ms' \<and> ms_bolt ms' = ms_bolt ms"
  using assms
proof (induction es arbitrary: tot n ms s)
  case Nil
  then show ?case by simp
next
  case (Cons e es)
  show ?case
  proof (cases "tot \<le> target")
    case True
    with Cons.prems(1) show ?thesis by simp
  next
    case False
    let ?b = "ce_Bucket e" and ?k = "ce_Key e"
    let ?s = "s\<lparr>files := fmdrop (epath ds e) (files s)\<rparr>"
    have d: "ds_Delete ds ?b ?k s = (None, ?s)"
      using Cons.prems(3) ds_Delete_succeeds [of s ds ?b ?k]
      by (simp add: evict_faultfree_def epath_def)
    obtain ms1 where m: "ms_Delete ms ?b ?k = (None, ms1)"
        "ms_map ms1 = (ms_map ms)(entryKey ?b ?k := None)" "ms_ok ms1" "ms_bolt ms1 = ms_bolt ms"
      using ms_Delete_succeeds [OF Cons.prems(1,2)] by blast
    have nn: "0 \<le> ce_Size e" "0 \<le> freed es"
      using Cons.prems(4) by (auto simp: freed_def intro!: sum_list_nonneg)
    then have t: "i64 (tot - ce_Size e) = tot - ce_Size e"
      using Cons.prems(5,6) by (intro i64_id) (auto simp: in_i64_def)
    have ff: "evict_faultfree ds es ms1 ?s"
      using Cons.prems(3) by (auto simp: evict_faultfree_def image_iff)
    have rng: "\<forall>x \<in> set es. 0 \<le> ce_Size x" "freed es \<le> tot - ce_Size e" "tot - ce_Size e < 2 ^ 63"
      using Cons.prems(4-6) nn by auto
    have del2: "deletes_succeed (ms_bolt ms1)" using Cons.prems(2) m(4) by simp
    from Cons.IH [OF m(3) del2 ff rng, of "Suc n"] obtain ms' s' where ih:
      "evict_loop ds target es (tot - ce_Size e) (Suc n) ms1 ?s =
         ((tot - ce_Size e - freed (victims target (tot - ce_Size e) es),
           Suc n + length (victims target (tot - ce_Size e) es)), ms', s')"
      "ms_map ms' = drop_keys (mkey ` set (victims target (tot - ce_Size e) es)) (ms_map ms1)"
      "s' = ?s\<lparr>files := fmdrop_set (epath ds ` set (victims target (tot - ce_Size e) es)) (files ?s)\<rparr>"
      "ms_ok ms'" "ms_bolt ms' = ms_bolt ms1" by blast
    have fs: "fmdrop_set A (fmdrop x F) = fmdrop_set (insert x A) F" for A x and F :: "(string, bytes) fmap"
      by (intro fmap_ext) auto
    have "evict_loop ds target (e # es) tot n ms s = evict_loop ds target es (tot - ce_Size e) (Suc n) ms1 ?s"
      using False d m(1) t by simp
    then show ?thesis
      using ih m False by (simp add: drop_keys_upd mkey_def fs algebra_simps)
  qed
qed

section \<open>What a pass guarantees\<close>

lemma evictOnce_below: "ms_TotalSize ms = Inr tot \<Longrightarrow> tot \<le> highWater (ev_maxSize ev) \<Longrightarrow>
    evictOnce ev ds ms s = (None, ms, s)"
  by (simp add: evictOnce_def)

definition lru_candidates :: "'db MetadataStore \<Rightarrow> CacheEntry list" where
  "lru_candidates ms = take 100 (sort_key ce_LastAccessed (ms_entries ms))"

lemma lru_candidates_sorted: "sorted (map ce_LastAccessed (lru_candidates ms))"
  unfolding lru_candidates_def take_map [symmetric] by (rule sorted_wrt_take) simp

lemma lru_candidates_subset: "set (lru_candidates ms) \<subseteq> set (ms_entries ms)"
  unfolding lru_candidates_def using set_take_subset [of 100 "sort_key ce_LastAccessed (ms_entries ms)"] by simp

lemma take_sort_key_least:
  assumes "x \<in> set (take n (sort_key f xs))" and "y \<in> set xs" and "y \<notin> set (take n (sort_key f xs))"
  shows "f x \<le> f y"
proof -
  let ?s = "sort_key f xs"
  have "y \<in> set (drop n ?s)"
    using assms(2,3) by (metis UnE append_take_drop_id set_append set_sort)
  moreover have "sorted (map f (take n ?s @ drop n ?s))" by simp
  ultimately show ?thesis
    using assms(1) unfolding map_append sorted_append by simp
qed

lemma victims_least:
  assumes "sorted (map ce_LastAccessed es)" and "x \<in> set (victims target tot es)"
    and "y \<in> set es" and "y \<notin> set (victims target tot es)"
  shows "ce_LastAccessed x \<le> ce_LastAccessed y"
proof -
  obtain rest where r: "es = victims target tot es @ rest" using victims_prefix by blast
  with assms(3,4) have "y \<in> set rest" by (metis UnE set_append)
  moreover have "sorted (map ce_LastAccessed (victims target tot es @ rest))" using assms(1) r by simp
  ultimately show ?thesis using assms(2) unfolding map_append sorted_append by simp
qed

lemma freed_insort: "freed (insort_key f x es) = ce_Size x + freed es"
  by (induction es) auto

lemma freed_sort: "freed (sort_key f es) = freed es"
  by (induction es) (auto simp: freed_insort)

lemma freed_take_le:
  "\<forall>e \<in> set es. 0 \<le> ce_Size e \<Longrightarrow> freed (take n (sort_key f es)) \<le> freed es"
proof -
  assume nn: "\<forall>e \<in> set es. 0 \<le> ce_Size e"
  let ?s = "sort_key f es"
  have "freed es = freed ?s" by (simp add: freed_sort)
  also have "\<dots> = freed (take n ?s) + freed (drop n ?s)"
    unfolding freed_def by (metis append_take_drop_id map_append sum_list_append)
  moreover have "0 \<le> freed (drop n ?s)"
    unfolding freed_def by (rule sum_list_nonneg) (use nn in \<open>auto dest: in_set_dropD\<close>)
  ultimately show ?thesis by simp
qed

lemma in_i64_sizes: "0 \<le> ms_sizes ms \<Longrightarrow> ms_sizes ms < 2 ^ 63 \<Longrightarrow> i64 (ms_sizes ms) = ms_sizes ms"
  by (intro i64_id) (simp add: in_i64_def)

lemma ms_sizes_freed: "ms_sizes ms = freed (ms_entries ms)"
  by (simp add: ms_sizes_def freed_def)

lemma ms_sizes_nonneg: "\<forall>e \<in> set (ms_entries ms). 0 \<le> ce_Size e \<Longrightarrow> 0 \<le> ms_sizes ms"
  by (auto simp: ms_sizes_def intro!: sum_list_nonneg)

lemma evictOnce_spec:
  assumes ok: "ms_ok ms" "deletes_succeed (ms_bolt ms)" "bolt_View (ms_bolt ms) (ms_db ms) = None"
    and ff: "evict_faultfree ds (lru_candidates ms) ms s"
    and nn: "\<forall>e \<in> set (ms_entries ms). 0 \<le> ce_Size e" and sz: "ms_sizes ms < 2 ^ 63"
    and above: "highWater (ev_maxSize ev) < ms_sizes ms"
  defines "vs \<equiv> victims (targetMark (ev_maxSize ev)) (ms_sizes ms) (lru_candidates ms)"
  shows "\<exists>ms' s'. evictOnce ev ds ms s = (None, ms', s') \<and>
    ms_map ms' = drop_keys (mkey ` set vs) (ms_map ms) \<and>
    s' = s\<lparr>files := fmdrop_set (epath ds ` set vs) (files s)\<rparr> \<and> ms_ok ms'"
proof -
  have t: "ms_TotalSize ms = Inr (ms_sizes ms)"
    using ok(3) in_i64_sizes [OF ms_sizes_nonneg [OF nn] sz] ms_TotalSize_eq [of ms]
    by (simp add: ms_TotalSize_def)
  have l: "ms_ListByLastAccessed ms 100 = Inr (lru_candidates ms)"
    using ok(3) ms_List_eq [of ms 100]
    by (simp add: ms_ListByLastAccessed_def lru_candidates_def Let_def)
  have nn': "\<forall>e \<in> set (lru_candidates ms). 0 \<le> ce_Size e" using nn lru_candidates_subset by blast
  have fr: "freed (lru_candidates ms) \<le> ms_sizes ms"
    unfolding lru_candidates_def ms_sizes_freed by (rule freed_take_le [OF nn])
  from evict_loop_spec [OF ok(1,2) ff nn' fr sz, of "targetMark (ev_maxSize ev)" 0]
  show ?thesis using t l above by (auto simp: evictOnce_def Let_def vs_def)
qed


text \<open>
  The witness: a cache of 10 bytes (marks at 9 and 8) holding 6 old and 5 recent bytes.
\<close>

definition demo_entry :: "string \<Rightarrow> int \<Rightarrow> time \<Rightarrow> CacheEntry" where
  "demo_entry b sz t =
     \<lparr>ce_Bucket = b, ce_Key = ''k'', ce_LocalPath = ds_Path demo_store b ''k'', ce_ETag = ''e'', ce_Size = sz,
      ce_LastModified = 0, ce_LastAccessed = t, ce_CachedAt = 0\<rparr>"

definition demo_two :: "CacheEntry list" where
  "demo_two = [demo_entry ''a'' 6 1, demo_entry ''b'' 5 2]"

definition demo_two_meta :: "((string \<times> bytes) list) MetadataStore" where
  "demo_two_meta = demo_meta demo_two [(''a/k'', []), (''b/k'', ''1'')]"

definition demo_two_os :: os where
  "demo_two_os = demo_os\<lparr>files := fmupd (ds_Path demo_store ''a'' ''k'') ''aaaaaa''
     (fmupd (ds_Path demo_store ''b'' ''k'') ''bbbbb'' fmempty)\<rparr>"

lemma marks_10: "highWater 10 = 9" "targetMark 10 = 8"
  by (simp_all add: highWater_def targetMark_def scale_mark_def c09_def c08_def round53_def
      shift_round_even_def bitlen.simps Let_def)

lemma demo_two_entries: "ms_entries demo_two_meta = demo_two"
  by (simp add: ms_entries_def demo_two_meta_def demo_meta_def alist_bolt_def table_codec_def demo_two_def)

lemma demo_two_wf: "ms_wf demo_two_meta"
  by (auto simp: ms_wf_def ms_map_def demo_two_meta_def demo_meta_def alist_bolt_def table_codec_def
      demo_two_def demo_entry_def entryKey_def decode_def split: if_splits)

lemma alist_bolt_deletes: "deletes_succeed alist_bolt"
  by (simp add: deletes_succeed_def alist_bolt_def)

lemma demo_path_ne: "ds_Path demo_store ''a'' k \<noteq> ds_Path demo_store ''b'' k'"
proof -
  let ?ws = "[''var'', ''cache'', ''s3gw'', ''data'']"
  have h: "?ws \<noteq> []" "\<forall>w \<in> set ?ws. plain w" "plain ''a''" "plain ''b''"
    by (simp_all add: plain_def)
  show ?thesis
    using ds_Path_abs [OF h(1,2,3) demo_baseDir] ds_Path_abs [OF h(1,2,4) demo_baseDir]
    by (simp add: clean_abs_def)
qed

lemma demo_two_candidates: "lru_candidates demo_two_meta = demo_two"
  by (simp add: lru_candidates_def demo_two_entries demo_two_def demo_entry_def)

lemma demo_two_sizes: "ms_sizes demo_two_meta = 11"
  by (simp add: ms_sizes_def demo_two_entries demo_two_def demo_entry_def)


section \<open>Metadata without a file\<close>

lemma evict_loop_orphans:
  "\<forall>e \<in> set es. fmlookup (files s) (epath ds e) = None \<Longrightarrow>
     \<exists>r. evict_loop ds target es tot n ms s = (r, ms, s)"
proof (induction es)
  case (Cons e es)
  have "\<exists>err. ds_Delete ds (ce_Bucket e) (ce_Key e) s = (Some err, s)"
    using Cons.prems by (auto simp: ds_Delete_def os_Remove_def epath_def split: option.split)
  with Cons show ?case by auto
qed simp

text \<open>A cache whose 100 least recently used entries have lost their files is never evicted again:
  removing a missing file is an error, the loop skips the entry and keeps its metadata, so
  every pass leaves metadata and files as they are, however far above the limit the total
  is.\<close>

theorem evictOnce_stuck_on_orphans:
  assumes "\<forall>e \<in> set (lru_candidates ms). fmlookup (files s) (epath ds e) = None"
  shows "snd (evictOnce ev ds ms s) = (ms, s)"
proof (cases "ms_TotalSize ms")
  case (Inr tot)
  show ?thesis
  proof (cases "ms_ListByLastAccessed ms 100")
    case (Inr es)
    then have "es = lru_candidates ms" using ms_List_eq [OF Inr] by (simp add: lru_candidates_def)
    with assms evict_loop_orphans [of es s ds "targetMark (ev_maxSize ev)" tot 0 ms]
    show ?thesis using \<open>ms_TotalSize ms = Inr tot\<close> Inr by (auto simp: evictOnce_def Let_def)
  qed (use Inr in \<open>simp add: evictOnce_def Let_def\<close>)
qed (simp add: evictOnce_def)

theorem evictOnce_stuck_on_orphans_witness:
  "highWater 10 < ms_sizes demo_two_meta \<and>
   snd (evictOnce (NewEvictor 10) demo_store demo_two_meta demo_os) = (demo_two_meta, demo_os)"
  using evictOnce_stuck_on_orphans [of demo_two_meta demo_os demo_store "NewEvictor 10"]
  by (simp add: demo_os_def marks_10 demo_two_sizes)

end
