(* ===== verification/Cache_Manager.thy ===== *)
theory Cache_Manager
  imports Evictor
begin

text \<open>
  \<open>internal/cache/manager.go\<close>: the cache shared by all mounts, metadata and disk store
  together. \<open>Put\<close> asks for an eviction by starting a goroutine; the model counts the
  requests in \<open>cm_triggered\<close> and \<open>run_triggered\<close> is one of those goroutines. \<open>now\<close> is the
  time an operation sees.
\<close>

section \<open>State\<close>

record 'db Manager =
  cm_meta :: "'db MetadataStore"
  cm_store :: DiskStore
  cm_evictor :: Evictor
  cm_maxSize :: int
  cm_triggered :: nat

section \<open>Operations\<close>

text \<open>\<open>open_meta\<close> is \<open>bolt.Open\<close> with the creation of the bucket.\<close>

definition NewManager ::
  "(string \<Rightarrow> go_error + 'db MetadataStore) \<Rightarrow> string \<Rightarrow> int \<Rightarrow> os \<Rightarrow> go_error + 'db Manager" where
  "NewManager open_meta cacheDir maxSize s =
     (case os_MkdirAll cacheDir s of
        Some err \<Rightarrow> Inl (wrapf ''create cache dir'' err)
      | None \<Rightarrow>
          (case open_meta (filepath_Join [cacheDir, ''cache.db'']) of
             Inl err \<Rightarrow> Inl err
           | Inr meta \<Rightarrow>
               (case NewDiskStore (filepath_Join [cacheDir, ''data'']) s of
                  Inl err \<Rightarrow> Inl err
                | Inr store \<Rightarrow>
                    Inr \<lparr>cm_meta = meta, cm_store = store, cm_evictor = ev_Start (NewEvictor maxSize),
                         cm_maxSize = maxSize, cm_triggered = 0\<rparr>)))"

text \<open>The result of \<open>Get\<close>: path, entry, validity, error.\<close>

type_synonym get_result = "string \<times> CacheEntry option \<times> bool \<times> go_error option"

definition cm_Get ::
  "string \<Rightarrow> string \<Rightarrow> duration \<Rightarrow> bool \<Rightarrow> time \<Rightarrow> os \<Rightarrow> 'db Manager \<Rightarrow> get_result \<times> 'db Manager" where
  "cm_Get bucket key ttl soleWriter now s m =
     (case ms_Get (cm_meta m) bucket key of
        Inl err \<Rightarrow> (([], None, False, Some err), m)
      | Inr None \<Rightarrow> (([], None, False, None), m)
      | Inr (Some entry) \<Rightarrow>
          if \<not> ds_Exists (cm_store m) bucket key s then
            (([], None, False, None), m\<lparr>cm_meta := snd (ms_Delete (cm_meta m) bucket key)\<rparr>)
          else if soleWriter then
            ((ce_LocalPath entry, Some entry, True, None),
             m\<lparr>cm_meta := snd (ms_Touch (cm_meta m) bucket key now)\<rparr>)
          else if now - ce_CachedAt entry > ttl then
            ((ce_LocalPath entry, Some entry, False, None), m)
          else
            ((ce_LocalPath entry, Some entry, True, None),
             m\<lparr>cm_meta := snd (ms_Touch (cm_meta m) bucket key now)\<rparr>))"

definition cache_entry :: "'db Manager \<Rightarrow> string \<Rightarrow> string \<Rightarrow> ObjectMeta \<Rightarrow> time \<Rightarrow> CacheEntry" where
  "cache_entry m bucket key meta now =
     \<lparr>ce_Bucket = bucket, ce_Key = key, ce_LocalPath = ds_Path (cm_store m) bucket key,
      ce_ETag = om_ETag meta, ce_Size = om_Size meta, ce_LastModified = om_LastModified meta,
      ce_LastAccessed = now, ce_CachedAt = now\<rparr>"

definition cm_Put ::
  "string \<Rightarrow> string \<Rightarrow> string \<times> bytes \<Rightarrow> ObjectMeta \<Rightarrow> time \<Rightarrow> 'db Manager \<Rightarrow> os \<Rightarrow>
   go_error option \<times> 'db Manager \<times> os" where
  "cm_Put bucket key src meta now m s =
     (case ds_Write (cm_store m) bucket key src s of
        (Some err, s') \<Rightarrow> (Some (wrapf ''write to cache store'' err), m, s')
      | (None, s') \<Rightarrow>
          (case ms_Put (cm_meta m) (cache_entry m bucket key meta now) of
             (Some err, ms') \<Rightarrow> (Some (wrapf ''write cache metadata'' err), m\<lparr>cm_meta := ms'\<rparr>, s')
           | (None, ms') \<Rightarrow>
               (let tot = (case ms_TotalSize ms' of Inl _ \<Rightarrow> 0 | Inr t \<Rightarrow> t)
                in (None,
                    m\<lparr>cm_meta := ms',
                      cm_triggered := (if tot > highWater (cm_maxSize m) then Suc (cm_triggered m)
                                       else cm_triggered m)\<rparr>, s'))))"

definition cm_Invalidate ::
  "string \<Rightarrow> string \<Rightarrow> 'db Manager \<Rightarrow> os \<Rightarrow> go_error option \<times> 'db Manager \<times> os" where
  "cm_Invalidate bucket key m s =
     (case ds_Delete (cm_store m) bucket key s of
        (_, s') \<Rightarrow>
          (case ms_Delete (cm_meta m) bucket key of
             (r, ms') \<Rightarrow> (r, m\<lparr>cm_meta := ms'\<rparr>, s')))"

definition cm_Touch :: "string \<Rightarrow> string \<Rightarrow> time \<Rightarrow> 'db Manager \<Rightarrow> go_error option \<times> 'db Manager" where
  "cm_Touch bucket key now m =
     (case ms_Touch (cm_meta m) bucket key now of (r, ms') \<Rightarrow> (r, m\<lparr>cm_meta := ms'\<rparr>))"

definition run_triggered :: "'db Manager \<Rightarrow> os \<Rightarrow> 'db Manager \<times> os" where
  "run_triggered m s =
     (case evictOnce (cm_evictor m) (cm_store m) (cm_meta m) s of
        (_, ms', s') \<Rightarrow> (m\<lparr>cm_meta := ms', cm_triggered := cm_triggered m - 1\<rparr>, s'))"

definition cm_StopEvictor :: "'db Manager \<Rightarrow> panic + 'db Manager" where
  "cm_StopEvictor m =
     (case ev_Stop (cm_evictor m) of Inl p \<Rightarrow> Inl p | Inr ev \<Rightarrow> Inr (m\<lparr>cm_evictor := ev\<rparr>))"

text \<open>\<open>Close\<close> stops the evictor, then closes the database (the error it returns is \<open>close_err\<close>).\<close>

definition cm_Close :: "go_error option \<Rightarrow> 'db Manager \<Rightarrow> panic + go_error option \<times> 'db Manager" where
  "cm_Close close_err m =
     (case ev_Stop (cm_evictor m) of
        Inl p \<Rightarrow> Inl p
      | Inr ev \<Rightarrow> Inr (close_err, m\<lparr>cm_evictor := ev\<rparr>))"

section \<open>What is cached\<close>

definition cm_ok :: "'db Manager \<Rightarrow> os \<Rightarrow> bool" where
  "cm_ok m s \<longleftrightarrow> ms_ok (cm_meta m) \<and> ms_wf (cm_meta m) \<and> temp_ok s"

definition cached_entry :: "'db Manager \<Rightarrow> string \<Rightarrow> string \<Rightarrow> CacheEntry option" where
  "cached_entry m b k = ms_map (cm_meta m) (entryKey b k)"

definition cached_data :: "'db Manager \<Rightarrow> os \<Rightarrow> string \<Rightarrow> string \<Rightarrow> bytes option" where
  "cached_data m s b k = fmlookup (files s) (ds_Path (cm_store m) b k)"

lemma cm_Put_cases:
  assumes "cm_ok m s" and "cm_Put b k src meta now m s = (r, m', s')"
  obtains
    (stored) "r = None" "files s' = fmupd (ds_Path (cm_store m) b k) (snd src) (files s)"
      "ms_map (cm_meta m') = (ms_map (cm_meta m))(entryKey b k \<mapsto> cache_entry m b k meta now)"
  | (metadata_failed) "r \<noteq> None" "files s' = fmupd (ds_Path (cm_store m) b k) (snd src) (files s)"
      "cm_meta m' = cm_meta m"
  | (write_failed) "r \<noteq> None" "cm_meta m' = cm_meta m"
      "\<And>p. fmlookup (files s) p \<noteq> None \<or> p = ds_Path (cm_store m) b k \<Longrightarrow>
         fmlookup (files s') p = fmlookup (files s) p"
proof -
  let ?e = "cache_entry m b k meta now"
  have ok: "ms_ok (cm_meta m)" "temp_ok s" using assms(1) by (auto simp: cm_ok_def)
  obtain r1 s1 where w: "ds_Write (cm_store m) b k src s = (r1, s1)"
    by (cases "ds_Write (cm_store m) b k src s")
  show thesis
  proof (cases r1)
    case (Some err)
    with w assms(2) have "r \<noteq> None" "cm_meta m' = cm_meta m" "s' = s1"
      by (auto simp: cm_Put_def)
    moreover from ds_Write_fail(1) [OF ok(2)] w Some
    have "fmlookup (files s) p \<noteq> None \<or> p = ds_Path (cm_store m) b k \<Longrightarrow>
      fmlookup (files s1) p = fmlookup (files s) p" for p by simp
    ultimately show thesis using write_failed by blast
  next
    case None
    with w have f: "files s1 = fmupd (ds_Path (cm_store m) b k) (snd src) (files s)"
      using ds_Write_ok [OF ok(2), of "cm_store m" b k src s1] by simp
    obtain r2 ms2 where p: "ms_Put (cm_meta m) ?e = (r2, ms2)" by (cases "ms_Put (cm_meta m) ?e")
    have key: "entryKey (ce_Bucket ?e) (ce_Key ?e) = entryKey b k" by (simp add: cache_entry_def)
    show thesis
    proof (cases r2)
      case (Some err)
      with w p None assms(2) have "r \<noteq> None" "cm_meta m' = ms2" "s' = s1"
        by (auto simp: cm_Put_def)
      moreover from p Some have "ms2 = cm_meta m"
        using put_key_step [OF ok(1) p [unfolded ms_Put_key]] by auto
      ultimately show thesis using metadata_failed f by blast
    next
      case n: None
      with w p None assms(2) have "r = None" "cm_meta m' = ms2" "s' = s1"
        by (auto simp: cm_Put_def Let_def)
      moreover from p n have "ms_map ms2 = (ms_map (cm_meta m))(entryKey b k \<mapsto> ?e)"
        using put_key_step [OF ok(1) p [unfolded ms_Put_key]] key by auto
      ultimately show thesis using stored f by blast
    qed
  qed
qed

lemma cm_Put_store: "cm_Put b k src meta now m s = (r, m', s') \<Longrightarrow> cm_store m' = cm_store m"
  by (auto simp: cm_Put_def Let_def split: prod.splits option.splits)

lemma cm_Get_store: "cm_Get b k ttl sw now s m = (r, m') \<Longrightarrow> cm_store m' = cm_store m"
  by (auto simp: cm_Get_def split: sum.splits option.splits if_splits)

lemma ds_Write_env: "ds_Write ds b k src s = (r, s') \<Longrightarrow> fault s' = fault s \<and> temp_name s' = temp_name s"
  unfolding ds_Write_def os_CreateTemp_def io_Copy_def os_Rename_def
  by (auto simp: Let_def split: option.splits)

lemma cm_Put_env: "cm_Put b k src meta now m s = (r, m', s') \<Longrightarrow> fault s' = fault s \<and> temp_name s' = temp_name s"
  by (auto simp: cm_Put_def Let_def dest: ds_Write_env split: prod.splits option.splits)

lemma ms_bolt_Put: "ms_Put ms e = (r, ms') \<Longrightarrow> ms_bolt ms' = ms_bolt ms"
  unfolding ms_Put_def by (drule ms_update_env) simp

lemma cm_Put_bolt: "cm_Put b k src meta now m s = (r, m', s') \<Longrightarrow> ms_bolt (cm_meta m') = ms_bolt (cm_meta m)"
  by (auto simp: cm_Put_def Let_def dest: ms_bolt_Put split: prod.splits option.splits)

text \<open>Every operation keeps the manager and the file system well formed.\<close>

lemma ms_ok_ops:
  assumes "ms_ok ms" and "ms_wf ms"
  shows "ms_Put ms e = (r, ms') \<Longrightarrow> ms_ok ms' \<and> ms_wf ms'"
    and "ms_Delete ms b k = (r, ms') \<Longrightarrow> ms_ok ms' \<and> ms_wf ms'"
    and "ms_Touch ms b k now = (r, ms') \<Longrightarrow> ms_ok ms' \<and> ms_wf ms'"
  using ms_wf_Put [OF assms] put_key_step [OF assms(1)] ms_wf_Delete [OF assms] delete_key_step [OF assms(1)]
    ms_wf_Touch [OF assms] ms_Touch_step [OF assms(1)] ms_Put_key ms_Delete_key by metis+

lemma temp_ok_cong: "temp_name s' = temp_name s \<Longrightarrow> temp_ok s' = temp_ok s"
  by (simp add: temp_ok_def)

lemma cm_ok_Get:
  assumes "cm_ok m s" and "cm_Get b k ttl sw now s m = (r, m')"
  shows "cm_ok m' s"
proof -
  obtain r1 d where d: "ms_Delete (cm_meta m) b k = (r1, d)" by (metis surj_pair)
  obtain r2 t where t: "ms_Touch (cm_meta m) b k now = (r2, t)" by (metis surj_pair)
  have "ms_ok (cm_meta m)" "ms_wf (cm_meta m)" using assms(1) by (simp_all add: cm_ok_def)
  from ms_ok_ops(2) [OF this d] ms_ok_ops(3) [OF this t] assms show ?thesis
    by (auto simp: cm_ok_def cm_Get_def d t split: sum.splits option.splits if_splits)
qed

lemma cm_ok_Put: "cm_ok m s \<Longrightarrow> cm_Put b k src meta now m s = (r, m', s') \<Longrightarrow> cm_ok m' s'"
  using cm_Put_env [of b k src meta now m s r m' s'] temp_ok_cong [of s' s] ms_ok_ops(1) [of "cm_meta m"]
  by (auto simp: cm_ok_def cm_Put_def Let_def split: prod.splits option.splits)

lemma cm_ok_Touch: "cm_ok m s \<Longrightarrow> cm_Touch b k now m = (r, m') \<Longrightarrow> cm_ok m' s"
  using ms_ok_ops(3) [of "cm_meta m"] by (auto simp: cm_ok_def cm_Touch_def split: prod.splits)

lemma cm_ok_Invalidate:
  assumes "cm_ok m s" and "cm_Invalidate b k m s = (r, m', s')"
  shows "cm_ok m' s'"
proof -
  obtain r1 d where d: "ms_Delete (cm_meta m) b k = (r1, d)" by (metis surj_pair)
  have s': "s' = snd (os_Remove (ds_Path (cm_store m) b k) s)" "m' = m\<lparr>cm_meta := d\<rparr>"
    using assms(2) d by (auto simp: cm_Invalidate_def ds_Delete_def split: prod.splits)
  then have "temp_ok s' = temp_ok s" by (intro temp_ok_cong) simp
  with assms(1) s' ms_ok_ops(2) [OF _ _ d] show ?thesis by (simp add: cm_ok_def)
qed

lemma ms_Get_view:
  "bolt_View (ms_bolt ms) (ms_db ms) = None \<Longrightarrow> ms_map ms (entryKey b k) = Some e \<Longrightarrow> ms_Get ms b k = Inr (Some e)"
  by (auto simp: ms_Get_def ms_map_def decode_Some bind_eq_Some_conv)

lemma ds_Exists_iff:
  "ds_Exists ds b k s \<longleftrightarrow> fault s OpStat (ds_Path ds b k) = None \<and> fmlookup (files s) (ds_Path ds b k) \<noteq> None"
  by (auto simp: ds_Exists_def os_Stat_def split: option.splits)

section \<open>Reading\<close>

text \<open>\<open>Get\<close> in full: it serves the entry as valid exactly when there is metadata and a file, and
  the bucket has a sole writer or the entry is at most \<open>ttl\<close> old (in sole-writer mode its age
  plays no role); metadata whose file is gone is reported as a miss and deleted; an
  expired entry is still returned, for revalidation, but not as valid.\<close>

theorem cm_Get_spec:
  assumes "ms_Get (cm_meta m) b k = Inr r"
  shows "cm_Get b k ttl sw now s m =
    (case r of
       None \<Rightarrow> (([], None, False, None), m)
     | Some e \<Rightarrow>
         if ds_Exists (cm_store m) b k s
         then let valid = (sw \<or> now \<le> ce_CachedAt e + ttl)
              in ((ce_LocalPath e, Some e, valid, None),
                  if valid then m\<lparr>cm_meta := snd (ms_Touch (cm_meta m) b k now)\<rparr> else m)
         else (([], None, False, None), m\<lparr>cm_meta := snd (ms_Delete (cm_meta m) b k)\<rparr>))"
  using assms by (auto simp: cm_Get_def Let_def split: option.splits)

definition demo_manager :: "CacheEntry list \<Rightarrow> (string \<times> bytes) list \<Rightarrow> ((string \<times> bytes) list) Manager" where
  "demo_manager es db =
     \<lparr>cm_meta = demo_meta es db, cm_store = demo_store, cm_evictor = NewEvictor 10, cm_maxSize = 10,
      cm_triggered = 0\<rparr>"

lemma demo_empty_ok: "temp_name s = zero_temp \<Longrightarrow> cm_ok (demo_manager es []) s"
proof -
  have "ms_wf (demo_meta es [])"
    by (simp add: ms_wf_def ms_map_def demo_meta_def alist_bolt_def)
  then show "temp_name s = zero_temp \<Longrightarrow> ?thesis"
    by (simp add: cm_ok_def demo_manager_def demo_meta_ok demo_temp_ok)
qed

lemma demo_one_ok: "temp_name s = zero_temp \<Longrightarrow> cm_ok (demo_manager demo_two [(''a/k'', [])]) s"
proof -
  have "ms_wf (demo_meta demo_two [(''a/k'', [])])"
    by (auto simp: ms_wf_def ms_map_def demo_meta_def alist_bolt_def table_codec_def demo_two_def
        demo_entry_def decode_def entryKey_def split: if_splits)
  then show "temp_name s = zero_temp \<Longrightarrow> ?thesis"
    by (simp add: cm_ok_def demo_manager_def demo_meta_ok demo_temp_ok)
qed

text \<open>The witness: in sole-writer mode an entry is valid a century after it was cached.\<close>

theorem cm_Get_spec_witness:
  "fst (cm_Get ''a'' ''k'' (60 * second) True (100 * 365 * 86400 * second) demo_two_os
     (demo_manager demo_two [(''a/k'', [])])) =
   (ds_Path demo_store ''a'' ''k'', Some (demo_entry ''a'' 6 1), True, None)"
proof -
  let ?m = "demo_manager demo_two [(''a/k'', [])]"
  have g: "ms_Get (cm_meta ?m) ''a'' ''k'' = Inr (Some (demo_entry ''a'' 6 1))"
    by (simp add: demo_manager_def ms_Get_def demo_meta_def alist_bolt_def table_codec_def entryKey_def demo_two_def)
  have x: "ds_Exists (cm_store ?m) ''a'' ''k'' demo_two_os"
    by (simp add: ds_Exists_iff demo_manager_def demo_two_os_def demo_os_def)
  show ?thesis
    unfolding cm_Get_spec [OF g] using x by (simp add: Let_def demo_entry_def)
qed

text \<open>Read your writes: after a successful \<open>Put\<close>, a \<open>Get\<close> within the TTL (at any time for a sole
  writer) finds the entry valid with the metadata of the \<open>Put\<close>, and reading the disk store
  returns exactly the requested bytes of what was put.\<close>

theorem cache_read_after_put:
  assumes "cm_ok m s" and "cm_Put b k src meta now m s = (None, m', s')"
    and "\<And>db. bolt_View (ms_bolt (cm_meta m)) db = None"
    and "\<And>op. fault s op (ds_Path (cm_store m) b k) = None"
    and "sw \<or> t \<le> now + ttl" and "0 \<le> off"
  shows "fst (cm_Get b k ttl sw t s' m') =
      (ds_Path (cm_store m) b k, Some (cache_entry m b k meta now), True, None) \<and>
    ds_Read (cm_store m') b k off n s' =
      Inr (take n (drop (nat off) (snd src)), length (drop (nat off) (snd src)) < n)"
proof -
  from assms(1,2) have f: "files s' = fmupd (ds_Path (cm_store m) b k) (snd src) (files s)"
    and e: "ms_map (cm_meta m') (entryKey b k) = Some (cache_entry m b k meta now)"
    by (cases rule: cm_Put_cases; simp)+
  note st = cm_Put_store [OF assms(2)] and env = cm_Put_env [OF assms(2)]
  have g: "ms_Get (cm_meta m') b k = Inr (Some (cache_entry m b k meta now))"
    using ms_Get_view [OF _ e] assms(3) cm_Put_bolt [OF assms(2)] by simp
  have x: "ds_Exists (cm_store m') b k s'"
    using st env assms(4) f by (simp add: ds_Exists_iff)
  have "fst (cm_Get b k ttl sw t s' m') =
      (ds_Path (cm_store m) b k, Some (cache_entry m b k meta now), True, None)"
    unfolding cm_Get_spec [OF g] using x assms(5) by (auto simp: cache_entry_def Let_def)
  moreover have "ds_Read (cm_store m') b k off n s' =
      Inr (take n (drop (nat off) (snd src)), length (drop (nat off) (snd src)) < n)"
    using st env assms(4,6) f by (auto simp: ds_Read_def os_Open_def read_at_def Let_def)
  ultimately show ?thesis ..
qed

definition demo_objmeta :: ObjectMeta where
  "demo_objmeta = \<lparr>om_ETag = ''e'', om_Size = 5, om_LastModified = 0, om_ContentType = []\<rparr>"

theorem cache_read_after_put_witness:
  "\<exists>m' s'. cm_Put ''b'' ''k'' (''/tmp/f'', ''hello'') demo_objmeta 2 (demo_manager [(demo_entry ''b'' 5 2)\<lparr>ce_CachedAt := 2\<rparr>] []) demo_os =
      (None, m', s') \<and>
    ds_Read (cm_store m') ''b'' ''k'' 1 3 s' = Inr (''ell'', False)"
proof -
  let ?m = "demo_manager [(demo_entry ''b'' 5 2)\<lparr>ce_CachedAt := 2\<rparr>] []"
  have ok: "cm_ok ?m demo_os" by (rule demo_empty_ok) (simp add: demo_os_def)
  have e: "cache_entry ?m ''b'' ''k'' demo_objmeta 2 = (demo_entry ''b'' 5 2)\<lparr>ce_CachedAt := 2\<rparr>"
    by (simp add: cache_entry_def demo_manager_def demo_entry_def demo_objmeta_def)
  have "fst (ds_Write demo_store ''b'' ''k'' (''/tmp/f'', ''hello'') demo_os) = None"
    by (simp add: ds_Write_def os_MkdirAll_def os_CreateTemp_def io_Copy_def os_Rename_def Let_def demo_os_def)
  then obtain s1 where w: "ds_Write (cm_store ?m) ''b'' ''k'' (''/tmp/f'', ''hello'') demo_os = (None, s1)"
    by (metis demo_manager_def Manager.select_convs(2) prod.collapse)
  have "fst (cm_Put ''b'' ''k'' (''/tmp/f'', ''hello'') demo_objmeta 2 ?m demo_os) = None"
    by (simp add: cm_Put_def e w split: prod.split option.split)
      (simp add: demo_manager_def ms_Put_def ms_update_def demo_meta_def alist_bolt_def table_codec_def Let_def)
  then obtain m' s' where p: "cm_Put ''b'' ''k'' (''/tmp/f'', ''hello'') demo_objmeta 2 ?m demo_os = (None, m', s')"
    by (metis prod.collapse)
  have "True \<or> 2 \<le> 2 + (0::int)" by simp
  from cache_read_after_put [OF ok p _ _ this, of 1 3]
  have "ds_Read (cm_store m') ''b'' ''k'' 1 3 s' = Inr (''ell'', False)"
    by (simp add: demo_manager_def demo_meta_def alist_bolt_def demo_os_def)
  with p show ?thesis by blast
qed

text \<open>Objects do not disturb each other: whatever a \<open>Put\<close> of one object returns, the entry of
  another object is unchanged, and so are its cached bytes if it had any.\<close>

theorem cache_put_frame:
  assumes "cm_ok m s" and "cm_Put b k src meta now m s = (r, m', s')"
    and "entryKey b' k' \<noteq> entryKey b k" and "ds_Path (cm_store m) b' k' \<noteq> ds_Path (cm_store m) b k"
  shows "cached_entry m' b' k' = cached_entry m b' k' \<and>
    (cached_data m s b' k' \<noteq> None \<longrightarrow> cached_data m' s' b' k' = cached_data m s b' k')"
  using assms(1,2)
proof (cases rule: cm_Put_cases)
  case stored
  then show ?thesis
    using assms(3,4) cm_Put_store [OF assms(2)] by (simp add: cached_entry_def cached_data_def)
next
  case metadata_failed
  then show ?thesis
    using assms(3,4) cm_Put_store [OF assms(2)] by (simp add: cached_entry_def cached_data_def)
next
  case write_failed
  then show ?thesis
    using assms(3,4) cm_Put_store [OF assms(2)] by (simp add: cached_entry_def cached_data_def)
qed

theorem cache_put_frame_witness:
  "\<exists>m' s'. snd (cm_Put ''b'' ''k'' (''/tmp/f'', ''hello'') demo_objmeta 2 (demo_manager demo_two [(''a/k'', [])]) demo_two_os) =
      (m', s') \<and>
    cached_data m' s' ''a'' ''k'' = Some ''aaaaaa''"
proof -
  let ?m = "demo_manager demo_two [(''a/k'', [])]"
  have ok: "cm_ok ?m demo_two_os" by (rule demo_one_ok) (simp add: demo_two_os_def demo_os_def)
  obtain r m' s' where p: "cm_Put ''b'' ''k'' (''/tmp/f'', ''hello'') demo_objmeta 2 ?m demo_two_os = (r, m', s')"
    by (metis prod_cases3)
  have ne: "entryKey ''a'' ''k'' \<noteq> entryKey ''b'' ''k''" by (simp add: entryKey_def)
  have pne: "ds_Path (cm_store ?m) ''a'' ''k'' \<noteq> ds_Path (cm_store ?m) ''b'' ''k''"
    using demo_path_ne by (simp add: demo_manager_def)
  have "cached_data ?m demo_two_os ''a'' ''k'' = Some ''aaaaaa''"
    by (simp add: cached_data_def demo_manager_def demo_two_os_def)
  with cache_put_frame [OF ok p ne pne] p show ?thesis by auto
qed

section \<open>Invalidation\<close>

text \<open>After an \<open>Invalidate\<close> that reports success the object is a miss for every later \<open>Get\<close>, in
  every mode and at every time, even if its file could not be removed.\<close>

theorem invalidate_then_miss:
  assumes "cm_ok m s" and "cm_Invalidate b k m s = (None, m', s')"
  shows "cached_entry m' b k = None \<and>
    (case cm_Get b k ttl sw t s'' m' of ((path, entry, valid, err), m'') \<Rightarrow> entry = None \<and> \<not> valid)"
proof -
  obtain r ms' where d: "ms_Delete (cm_meta m) b k = (r, ms')" by (cases "ms_Delete (cm_meta m) b k")
  with assms(2) have r: "r = None" "cm_meta m' = ms'"
    by (auto simp: cm_Invalidate_def split: prod.splits)
  have ok: "ms_ok (cm_meta m)" using assms(1) by (simp add: cm_ok_def)
  have none: "ms_map ms' (entryKey b k) = None"
    using delete_key_step [OF ok d [unfolded ms_Delete_key]] r by auto
  have "case cm_Get b k ttl sw t s'' m' of ((path, entry, valid, err), m'') \<Rightarrow> entry = None \<and> \<not> valid"
  proof (cases "ms_Get (cm_meta m') b k")
    case (Inr x)
    with none r have "x = None" using ms_Get_Inr [OF Inr] by simp
    with Inr show ?thesis by (simp add: cm_Get_def)
  qed (simp add: cm_Get_def)
  with none r show ?thesis by (simp add: cached_entry_def)
qed

theorem invalidate_then_miss_witness:
  "\<exists>m' s'. cm_Invalidate ''a'' ''k'' (demo_manager demo_two [(''a/k'', [])]) demo_two_os = (None, m', s') \<and>
     cached_entry m' ''a'' ''k'' = None"
proof -
  let ?m = "demo_manager demo_two [(''a/k'', [])]"
  have ok: "cm_ok ?m demo_two_os" by (rule demo_one_ok) (simp add: demo_two_os_def demo_os_def)
  have "fst (cm_Invalidate ''a'' ''k'' ?m demo_two_os) = None"
    by (simp add: cm_Invalidate_def demo_manager_def ms_Delete_def ms_update_def demo_meta_def alist_bolt_def
        split: prod.split)
  then obtain m' s' where i: "cm_Invalidate ''a'' ''k'' ?m demo_two_os = (None, m', s')"
    by (metis prod.collapse)
  with invalidate_then_miss [OF ok i] show ?thesis by blast
qed

end
