(* ===== verification/Catalog_Store.thy ===== *)
theory Catalog_Store
  imports Interfaces Go_Strings
begin

text \<open>
  \<open>internal/catalog/store.go\<close>: the catalog's two SQL tables and the statements run on
  them. A table with \<open>PRIMARY KEY\<close> is a list of rows under distinct keys, in insertion
  order; a statement is read with the documented meaning of SQLite's SQL (\<open>ON CONFLICT DO
  UPDATE\<close>, \<open>LIKE\<close>, \<open>ORDER BY\<close> with the binary collation). Any statement can fail:
  \<open>sql_fault\<close> is the engine's choice of error, and a statement that fails has no effect.
\<close>

section \<open>State\<close>

record Entry =
  e_Key :: string
  e_Parent :: string
  e_Name :: string
  e_Size :: int
  e_ETag :: string
  e_Modified :: time
  e_IsDir :: bool

text \<open>The columns of \<open>objects\<close> outside its primary key \<open>(bucket, key)\<close>.\<close>

record row =
  r_parent :: string
  r_name :: string
  r_size :: int
  r_etag :: string
  r_modified :: int     \<comment> \<open>Unix seconds\<close>
  r_is_dir :: int

type_synonym object_key = "string \<times> string"

datatype sql_stmt =
    SqlOpen | SqlPragma | SqlSchema | SqlOpenRead | SqlPragmaRead | SqlCloseRead | SqlClose
  | SqlListDir string string | SqlScan string | SqlRows string
  | SqlLookup string string | SqlPut string string
  | SqlBegin | SqlPrepare | SqlCommit
  | SqlDelete string string | SqlDeletePrefix string string | SqlHasDir string string
  | SqlGetCursor string string | SqlSetCursor string string | SqlKnownDirs string | SqlCount string

record Store =
  st_objects :: "(object_key, row) gomap"
  st_cursors :: "(string \<times> string, int) gomap"
  sql_fault :: "sql_stmt \<Rightarrow> go_error option"

section \<open>Opening and closing\<close>

text \<open>
  \<open>file\<close> holds the tables of the database file, \<open>None\<close> when they do not exist yet: the schema
  creates the tables that are absent and leaves the others.
\<close>

definition createSchema :: "(sql_stmt \<Rightarrow> go_error option) \<Rightarrow> go_error option" where
  "createSchema flt = map_option (wrapf ''create catalog schema'') (flt SqlSchema)"

definition NewStore ::
  "(sql_stmt \<Rightarrow> go_error option) \<Rightarrow>
   ((object_key, row) gomap \<times> (string \<times> string, int) gomap) option \<Rightarrow> go_error + Store" where
  "NewStore flt file =
     (case flt SqlOpen of Some err \<Rightarrow> Inl (wrapf ''open catalog db'' err) | None \<Rightarrow>
     (case flt SqlPragma of Some err \<Rightarrow> Inl (wrapf ''set cache_size'' err) | None \<Rightarrow>
     (case createSchema flt of Some err \<Rightarrow> Inl err | None \<Rightarrow>
     (case flt SqlOpenRead of Some err \<Rightarrow> Inl (wrapf ''open catalog read db'' err) | None \<Rightarrow>
     (case flt SqlPragmaRead of Some err \<Rightarrow> Inl (wrapf ''set reader cache_size'' err) | None \<Rightarrow>
       (case file of
          None \<Rightarrow> Inr \<lparr>st_objects = [], st_cursors = [], sql_fault = flt\<rparr>
        | Some (obj, cur) \<Rightarrow> Inr \<lparr>st_objects = obj, st_cursors = cur, sql_fault = flt\<rparr>))))))"

definition st_Close :: "Store \<Rightarrow> go_error option" where
  "st_Close s =
     (let err1 = sql_fault s SqlCloseRead; err2 = sql_fault s SqlClose
      in if err1 \<noteq> None then err1 else err2)"

section \<open>Rows and entries\<close>

definition boolToInt :: "bool \<Rightarrow> int" where
  "boolToInt b = (if b then 1 else 0)"

definition row_of :: "Entry \<Rightarrow> row" where
  "row_of e = \<lparr>r_parent = e_Parent e, r_name = e_Name e, r_size = e_Size e, r_etag = e_ETag e,
     r_modified = unix_seconds (e_Modified e), r_is_dir = boolToInt (e_IsDir e)\<rparr>"

text \<open>What a scanned row becomes.\<close>

definition entry_of :: "string \<Rightarrow> row \<Rightarrow> Entry" where
  "entry_of k r = \<lparr>e_Key = k, e_Parent = r_parent r, e_Name = r_name r, e_Size = r_size r,
     e_ETag = r_etag r, e_Modified = time_of_unix (r_modified r), e_IsDir = r_is_dir r \<noteq> 0\<rparr>"

section \<open>Queries\<close>

definition dir_order :: "object_key \<times> row \<Rightarrow> int \<times> string" where
  "dir_order x = (- r_is_dir (snd x), r_name (snd x))"

fun scan_rows :: "(sql_stmt \<Rightarrow> go_error option) \<Rightarrow> (object_key \<times> row) list \<Rightarrow> go_error + Entry list" where
  "scan_rows flt [] = Inr []"
| "scan_rows flt (((b, k), r) # xs) =
     (case flt (SqlScan k) of
        Some err \<Rightarrow> Inl (wrapf ''scan entry'' err)
      | None \<Rightarrow> (case scan_rows flt xs of Inl e \<Rightarrow> Inl e | Inr es \<Rightarrow> Inr (entry_of k r # es)))"

definition st_ListDir :: "string \<Rightarrow> string \<Rightarrow> Store \<Rightarrow> go_error + Entry list" where
  "st_ListDir bucket parent s =
     (case sql_fault s (SqlListDir bucket parent) of
        Some err \<Rightarrow> Inl (wrapf ''list dir'' err)
      | None \<Rightarrow>
          (case scan_rows (sql_fault s)
             (sort_key dir_order (filter (\<lambda>((b, _), r). b = bucket \<and> r_parent r = parent) (st_objects s))) of
             Inl err \<Rightarrow> Inl err
           | Inr entries \<Rightarrow>
               (case sql_fault s (SqlRows bucket) of Some err \<Rightarrow> Inl err | None \<Rightarrow> Inr entries)))"

text \<open>A query with no row is not an error: the result is \<open>nil\<close>.\<close>

definition st_Lookup :: "string \<Rightarrow> string \<Rightarrow> Store \<Rightarrow> go_error + Entry option" where
  "st_Lookup bucket key s =
     (case sql_fault s (SqlLookup bucket key) of
        Some err \<Rightarrow> Inl (wrapf ''lookup'' err)
      | None \<Rightarrow> Inr (map_option (entry_of key) (map_of (st_objects s) (bucket, key))))"

definition st_HasDir :: "string \<Rightarrow> string \<Rightarrow> Store \<Rightarrow> go_error + bool" where
  "st_HasDir bucket parent s =
     (case sql_fault s (SqlHasDir bucket parent) of
        Some err \<Rightarrow> Inl (wrapf ''has dir'' err)
      | None \<Rightarrow>
          Inr (length (filter (\<lambda>((b, _), r). b = bucket \<and> r_parent r = parent) (st_objects s)) > 0))"

definition st_Count :: "string \<Rightarrow> Store \<Rightarrow> go_error + int" where
  "st_Count bucket s =
     (case sql_fault s (SqlCount bucket) of
        Some err \<Rightarrow> Inl err
      | None \<Rightarrow> Inr (int (length (filter (\<lambda>((b, _), _). b = bucket) (st_objects s)))))"

fun scan_keys :: "(sql_stmt \<Rightarrow> go_error option) \<Rightarrow> (object_key \<times> row) list \<Rightarrow> go_error + string list" where
  "scan_keys flt [] = Inr []"
| "scan_keys flt (((b, k), r) # xs) =
     (case flt (SqlScan k) of
        Some err \<Rightarrow> Inl err
      | None \<Rightarrow> (case scan_keys flt xs of Inl e \<Rightarrow> Inl e | Inr ks \<Rightarrow> Inr (k # ks)))"

definition st_KnownDirs :: "string \<Rightarrow> Store \<Rightarrow> go_error + string list" where
  "st_KnownDirs bucket s =
     (case sql_fault s (SqlKnownDirs bucket) of
        Some err \<Rightarrow> Inl (wrapf ''known dirs'' err)
      | None \<Rightarrow>
          (case scan_keys (sql_fault s) (filter (\<lambda>((b, _), r). b = bucket \<and> r_is_dir r = 1) (st_objects s)) of
             Inl err \<Rightarrow> Inl err
           | Inr dirs \<Rightarrow>
               (case sql_fault s (SqlRows bucket) of Some err \<Rightarrow> Inl err | None \<Rightarrow> Inr dirs)))"

text \<open>A prefix never synchronised has the zero time.\<close>

definition GetSyncCursor :: "string \<Rightarrow> string \<Rightarrow> Store \<Rightarrow> go_error + time" where
  "GetSyncCursor bucket prefix s =
     (case sql_fault s (SqlGetCursor bucket prefix) of
        Some err \<Rightarrow> Inl (wrapf ''get sync cursor'' err)
      | None \<Rightarrow>
          (case map_of (st_cursors s) (bucket, prefix) of
             None \<Rightarrow> Inr zero_time
           | Some ts \<Rightarrow> Inr (time_of_unix ts)))"

section \<open>Updates\<close>

definition st_Put :: "string \<Rightarrow> Entry \<Rightarrow> Store \<Rightarrow> go_error option \<times> Store" where
  "st_Put bucket e s =
     (case sql_fault s (SqlPut bucket (e_Key e)) of
        Some err \<Rightarrow> (Some (wrapf ''put entry'' err), s)
      | None \<Rightarrow> (None, s\<lparr>st_objects := AList.update (bucket, e_Key e) (row_of e) (st_objects s)\<rparr>))"

text \<open>The transaction's statements act on its own view \<open>objs\<close> of the table.\<close>

fun batch_insert ::
  "(sql_stmt \<Rightarrow> go_error option) \<Rightarrow> string \<Rightarrow> Entry list \<Rightarrow> (object_key, row) gomap \<Rightarrow>
   go_error + (object_key, row) gomap" where
  "batch_insert flt bucket [] objs = Inr objs"
| "batch_insert flt bucket (e # es) objs =
     (case flt (SqlPut bucket (e_Key e)) of
        Some err \<Rightarrow> Inl (wrapf ''batch insert'' err)
      | None \<Rightarrow> batch_insert flt bucket es (AList.update (bucket, e_Key e) (row_of e) objs))"

definition st_PutBatch :: "string \<Rightarrow> Entry list \<Rightarrow> Store \<Rightarrow> go_error option \<times> Store" where
  "st_PutBatch bucket entries s =
     (case sql_fault s SqlBegin of Some err \<Rightarrow> (Some (wrapf ''begin batch'' err), s) | None \<Rightarrow>
     (case sql_fault s SqlPrepare of Some err \<Rightarrow> (Some (wrapf ''prepare batch'' err), s) | None \<Rightarrow>
     (case batch_insert (sql_fault s) bucket entries (st_objects s) of
        Inl err \<Rightarrow> (Some err, s)     \<comment> \<open>the deferred \<open>Rollback\<close>\<close>
      | Inr objs \<Rightarrow>
          (case sql_fault s SqlCommit of
             Some err \<Rightarrow> (Some err, s)
           | None \<Rightarrow> (None, s\<lparr>st_objects := objs\<rparr>)))))"

definition st_Delete :: "string \<Rightarrow> string \<Rightarrow> Store \<Rightarrow> go_error option \<times> Store" where
  "st_Delete bucket key s =
     (case sql_fault s (SqlDelete bucket key) of
        Some err \<Rightarrow> (Some (wrapf ''delete entry'' err), s)
      | None \<Rightarrow> (None, s\<lparr>st_objects := AList.delete (bucket, key) (st_objects s)\<rparr>))"

text \<open>
  SQLite's \<open>LIKE\<close>: \<open>%\<close> matches any run of characters, \<open>_\<close> one character (a UTF-8 sequence),
  and letters match without regard to ASCII case.
\<close>

definition utf8_continuation :: "char \<Rightarrow> bool" where
  "utf8_continuation c \<longleftrightarrow> (128 :: nat) \<le> of_char c \<and> (of_char c :: nat) < 192"

function sql_like :: "string \<Rightarrow> string \<Rightarrow> bool" where
  "sql_like [] s \<longleftrightarrow> s = []"
| "sql_like (p # ps) [] \<longleftrightarrow> p = CHR ''%'' \<and> sql_like ps []"
| "sql_like (p # ps) (c # s) \<longleftrightarrow>
     (if p = CHR ''%'' then sql_like ps (c # s) \<or> sql_like (p # ps) s
      else if p = CHR ''_'' then sql_like ps (dropWhile utf8_continuation s)
      else lower_char p = lower_char c \<and> sql_like ps s)"
  by pat_completeness auto

termination sql_like
  by (relation "measure (\<lambda>(p, s). length p + length s)")
    (auto simp: less_Suc_eq_le intro: le_trans [OF length_dropWhile_le])

definition st_DeletePrefix :: "string \<Rightarrow> string \<Rightarrow> Store \<Rightarrow> go_error option \<times> Store" where
  "st_DeletePrefix bucket prefix s =
     (case sql_fault s (SqlDeletePrefix bucket prefix) of
        Some err \<Rightarrow> (Some (wrapf ''delete prefix'' err), s)
      | None \<Rightarrow>
          (None, s\<lparr>st_objects := filter (\<lambda>((b, k), _). \<not> (b = bucket \<and> sql_like (prefix @ ''%'') k)) (st_objects s)\<rparr>))"

definition SetSyncCursor :: "string \<Rightarrow> string \<Rightarrow> time \<Rightarrow> Store \<Rightarrow> go_error option \<times> Store" where
  "SetSyncCursor bucket prefix t s =
     (case sql_fault s (SqlSetCursor bucket prefix) of
        Some err \<Rightarrow> (Some (wrapf ''set sync cursor'' err), s)
      | None \<Rightarrow> (None, s\<lparr>st_cursors := AList.update (bucket, prefix) (unix_seconds t) (st_cursors s)\<rparr>))"

section \<open>The table as a map\<close>

definition st_map :: "Store \<Rightarrow> object_key \<Rightarrow> row option" where
  "st_map s = map_of (st_objects s)"

text \<open>A column that holds a boolean.\<close>

definition flag :: "int \<Rightarrow> bool" where
  "flag n \<longleftrightarrow> n = 0 \<or> n = 1"

definition st_wf :: "Store \<Rightarrow> bool" where
  "st_wf s \<longleftrightarrow> distinct (map fst (st_objects s)) \<and> distinct (map fst (st_cursors s)) \<and>
     (\<forall>bk r. st_map s bk = Some r \<longrightarrow> flag (r_is_dir r))"

lemma row_of_is_dir [simp]: "flag (r_is_dir (row_of e))"
  by (simp add: row_of_def boolToInt_def flag_def)

lemma st_Put_step:
  "st_wf s \<Longrightarrow> st_Put b e s = (r, s') \<Longrightarrow>
     st_wf s' \<and> sql_fault s' = sql_fault s \<and> st_cursors s' = st_cursors s \<and>
     st_map s' = (if r = None then (st_map s)((b, e_Key e) \<mapsto> row_of e) else st_map s)"
  by (auto simp: st_Put_def st_wf_def st_map_def simp del: map_of_eq_Some_iff split: option.splits if_splits)

lemma st_Delete_step:
  "st_wf s \<Longrightarrow> st_Delete b k s = (r, s') \<Longrightarrow>
     st_wf s' \<and> sql_fault s' = sql_fault s \<and> st_cursors s' = st_cursors s \<and>
     st_map s' = (if r = None then (st_map s)((b, k) := None) else st_map s)"
  by (auto simp: st_Delete_def st_wf_def st_map_def simp del: map_of_eq_Some_iff split: option.splits if_splits)

text \<open>The columns as a caller sees them: what is stored can be read back.\<close>

type_synonym columns = "string \<times> string \<times> int \<times> string \<times> int \<times> bool"

definition columns_of :: "row \<Rightarrow> columns" where
  "columns_of r = (r_parent r, r_name r, r_size r, r_etag r, r_modified r, r_is_dir r \<noteq> 0)"

fun entry_with :: "string \<Rightarrow> columns \<Rightarrow> Entry" where
  "entry_with k (p, n, sz, t, m, d) = \<lparr>e_Key = k, e_Parent = p, e_Name = n, e_Size = sz, e_ETag = t,
     e_Modified = time_of_unix m, e_IsDir = d\<rparr>"

lemma columns_of_row_of_entry_with [simp]:
  "columns_of (row_of (entry_with k v)) = v" "e_Key (entry_with k v) = k"
  by (cases v; simp add: columns_of_def row_of_def boolToInt_def)+

lemma entry_of_columns: "entry_of k r = entry_with k (columns_of r)"
  by (simp add: entry_of_def columns_of_def)

definition st_lookup :: "Store \<Rightarrow> object_key \<Rightarrow> columns option" where
  "st_lookup s bk = map_option columns_of (st_map s bk)"

definition put_columns :: "Store \<Rightarrow> object_key \<Rightarrow> columns \<Rightarrow> go_error option \<times> Store" where
  "put_columns s bk v = st_Put (fst bk) (entry_with (snd bk) v) s"

definition delete_row :: "Store \<Rightarrow> object_key \<Rightarrow> go_error option \<times> Store" where
  "delete_row s bk = st_Delete (fst bk) (snd bk) s"

interpretation objects: tx_map st_lookup put_columns delete_row st_wf
proof (unfold_locales, goal_cases)
  case (1 s k v s')
  with st_Put_step [OF 1(1) 1(2) [unfolded put_columns_def]] show ?case
    by (auto simp: st_lookup_def fun_eq_iff)
next
  case (2 s k v e s')
  with st_Put_step [OF 2(1) 2(2) [unfolded put_columns_def]] show ?case by (simp add: st_lookup_def fun_eq_iff)
next
  case (3 s k s')
  with st_Delete_step [OF 3(1) 3(2) [unfolded delete_row_def]] show ?case
    by (auto simp: st_lookup_def fun_eq_iff)
next
  case (4 s k e s')
  with st_Delete_step [OF 4(1) 4(2) [unfolded delete_row_def]] show ?case by (simp add: st_lookup_def fun_eq_iff)
next
  case (5 s k v)
  then show ?case using st_Put_step [OF 5, of "fst k" "entry_with (snd k) v"]
    by (metis prod.collapse put_columns_def)
next
  case (6 s k)
  then show ?case using st_Delete_step [OF 6, of "fst k" "snd k"] by (metis prod.collapse delete_row_def)
qed

lemma st_Lookup_case:
  "st_Lookup b k s = (case sql_fault s (SqlLookup b k) of
     Some err \<Rightarrow> Inl (wrapf ''lookup'' err) | None \<Rightarrow> Inr (map_option (entry_of k) (st_map s (b, k))))"
  by (simp add: st_Lookup_def st_map_def split: option.split)

lemma st_Lookup_map:
  "sql_fault s (SqlLookup b k) = None \<Longrightarrow> st_Lookup b k s = Inr (map_option (entry_of k) (st_map s (b, k)))"
  by (simp add: st_Lookup_def st_map_def)

text \<open>What a batch leaves under each key: the last of its entries for it.\<close>

definition batch_row :: "string \<Rightarrow> Entry list \<Rightarrow> object_key \<Rightarrow> row option" where
  "batch_row b es bk = map_option row_of (List.find (\<lambda>e. (b, e_Key e) = bk) (rev es))"

lemma batch_insert_map:
  "batch_insert flt b es objs = Inr objs' \<Longrightarrow>
     map_of objs' = map_of objs ++ batch_row b es \<and>
     (distinct (map fst objs) \<longrightarrow> distinct (map fst objs'))"
proof (induction es arbitrary: objs)
  case Nil
  then show ?case by (simp add: batch_row_def map_add_def)
next
  case (Cons e es)
  then have "batch_insert flt b es (AList.update (b, e_Key e) (row_of e) objs) = Inr objs'"
    by (auto split: option.splits)
  from Cons.IH [OF this] show ?case
    by (auto simp: batch_row_def map_add_def find_append fun_eq_iff split: option.splits)
qed

lemma batch_row_is_dir: "batch_row b es bk = Some r \<Longrightarrow> flag (r_is_dir r)"
  by (auto simp: batch_row_def)

lemma st_PutBatch_step:
  "st_wf s \<Longrightarrow> st_PutBatch b es s = (r, s') \<Longrightarrow>
     st_wf s' \<and> sql_fault s' = sql_fault s \<and> st_cursors s' = st_cursors s \<and>
     st_map s' = (if r = None then st_map s ++ batch_row b es else st_map s)"
  by (auto simp: st_PutBatch_def st_wf_def st_map_def map_add_Some_iff simp del: map_of_eq_Some_iff dest!: batch_insert_map batch_row_is_dir
      split: option.splits sum.splits)

text \<open>Without a fault nothing fails.\<close>

definition sql_faultfree :: "Store \<Rightarrow> bool" where
  "sql_faultfree s \<longleftrightarrow> sql_fault s = (\<lambda>_. None)"

lemma batch_insert_ok: "\<exists>objs'. batch_insert (\<lambda>_. None) b es objs = Inr objs'"
  by (induction es arbitrary: objs) auto

lemma st_PutBatch_ok: "sql_faultfree s \<Longrightarrow> fst (st_PutBatch b es s) = None"
  using batch_insert_ok [of b es "st_objects s"] by (auto simp: st_PutBatch_def sql_faultfree_def)

definition row_entry :: "object_key \<times> row \<Rightarrow> Entry" where
  "row_entry x = entry_of (snd (fst x)) (snd x)"

text \<open>Directories first, then by name.\<close>

definition listing_order :: "Entry \<Rightarrow> bool \<times> string" where
  "listing_order e = (\<not> e_IsDir e, e_Name e)"

lemma scan_rows_ok: "scan_rows (\<lambda>_. None) xs = Inr (map row_entry xs)"
  by (induction "\<lambda>_ :: sql_stmt. None :: go_error option" xs rule: scan_rows.induct) (auto simp: row_entry_def)

lemma scan_rows_Inr: "scan_rows flt xs = Inr es \<Longrightarrow> es = map row_entry xs"
  by (induction flt xs arbitrary: es rule: scan_rows.induct) (auto simp: row_entry_def split: option.splits sum.splits)

lemma scan_keys_Inr: "scan_keys flt xs = Inr ks \<Longrightarrow> ks = map (snd \<circ> fst) xs"
  by (induction flt xs arbitrary: ks rule: scan_keys.induct) (auto split: option.splits sum.splits)

section \<open>LIKE\<close>

definition literal :: "string \<Rightarrow> bool" where
  "literal p \<longleftrightarrow> CHR ''%'' \<notin> set p \<and> CHR ''_'' \<notin> set p"

lemma like_percent [simp]: "sql_like ''%'' k"
  by (induction k) auto

lemma like_literal: "literal p \<Longrightarrow> sql_like (p @ ''%'') k \<longleftrightarrow> HasPrefix (ToLower k) (ToLower p)"
proof (induction p arbitrary: k)
  case Nil
  then show ?case by (simp add: HasPrefix_def ToLower_def)
next
  case (Cons c p)
  then show ?case by (cases k) (auto simp: literal_def HasPrefix_def ToLower_def)
qed

text \<open>No underscore is followed by a continuation byte: true of every well-formed UTF-8 text.\<close>

fun underscores_ok :: "string \<Rightarrow> bool" where
  "underscores_ok (c # d # s) \<longleftrightarrow> (c = CHR ''_'' \<longrightarrow> \<not> utf8_continuation d) \<and> underscores_ok (d # s)"
| "underscores_ok s \<longleftrightarrow> True"

lemma like_percent_absorb: "sql_like ps s \<Longrightarrow> sql_like (CHR ''%'' # ps) s"
  by (cases s) auto

lemma like_self: "underscores_ok (p @ t) \<Longrightarrow> sql_like (p @ ''%'') (p @ t)"
proof (induction p)
  case (Cons c p)
  have u: "underscores_ok (p @ t)" using Cons.prems by (cases "p @ t") auto
  have d: "c = CHR ''_'' \<Longrightarrow> dropWhile utf8_continuation (p @ t) = p @ t"
    using Cons.prems by (cases "p @ t") auto
  show ?case using Cons.IH [OF u] d like_percent_absorb by auto
qed simp

lemma st_DeletePrefix_step:
  "st_wf s \<Longrightarrow> st_DeletePrefix b p s = (r, s') \<Longrightarrow>
     st_wf s' \<and> sql_fault s' = sql_fault s \<and> st_cursors s' = st_cursors s \<and>
     st_map s' = (if r = None then (\<lambda>bk. if fst bk = b \<and> sql_like (p @ ''%'') (snd bk) then None else st_map s bk)
                  else st_map s)"
  by (auto simp: st_DeletePrefix_def st_wf_def st_map_def fun_eq_iff map_of_filter_Some distinct_keys_filter
      simp del: map_of_eq_Some_iff split: option.splits if_splits)

section \<open>Properties\<close>

lemma dir_order_entry:
  "flag (r_is_dir (snd x)) \<Longrightarrow> flag (r_is_dir (snd y)) \<Longrightarrow> dir_order x \<le> dir_order y \<Longrightarrow>
     listing_order (row_entry x) \<le> listing_order (row_entry y)"
  unfolding flag_def by (elim disjE) (simp_all add: dir_order_def row_entry_def entry_of_def listing_order_def)

lemma ListDir_rows:
  assumes "st_wf s" and "st_ListDir b parent s = Inr es"
  shows "set es = {entry_of k r | k r. st_map s (b, k) = Some r \<and> r_parent r = parent} \<and>
    distinct (map e_Key es) \<and> sorted (map listing_order es)"
proof -
  let ?P = "\<lambda>((b', k), r). b' = b \<and> r_parent r = parent"
  let ?rows = "sort_key dir_order (filter ?P (st_objects s))"
  have es: "es = map row_entry ?rows"
    using assms(2) by (auto simp: st_ListDir_def dest!: scan_rows_Inr split: option.splits sum.splits)
  have d: "distinct (map fst (st_objects s))" using assms(1) by (simp add: st_wf_def)
  have mem: "((b', k), r) \<in> set ?rows \<longleftrightarrow> b' = b \<and> st_map s (b, k) = Some r \<and> r_parent r = parent" for b' k r
    using d by (auto simp: st_map_def)
  have "e \<in> set es \<longleftrightarrow> (\<exists>b' k r. ((b', k), r) \<in> set ?rows \<and> e = entry_of k r)" for e
    unfolding es by (simp only: set_map image_iff Bex_def split_paired_Ex row_entry_def fst_conv snd_conv)
  then have "set es = {entry_of k r | k r. st_map s (b, k) = Some r \<and> r_parent r = parent}"
    unfolding mem by blast
  moreover have "distinct (map fst ?rows)"
    using distinct_keys_filter [OF d, of ?P] by (auto simp: distinct_map inj_on_def)
  then have "distinct (map (snd \<circ> fst) ?rows)"
    using mem by (auto simp: distinct_map inj_on_def)
  then have "distinct (map e_Key es)"
    unfolding es by (simp add: row_entry_def entry_of_def comp_def)
  moreover have "sorted (map (listing_order \<circ> row_entry) ?rows)"
  proof (rule sorted_map_change, rule sorted_sort_key, goal_cases)
    case (1 x y)
    obtain bx kx rx b' k' r' where xy: "x = ((bx, kx), rx)" "y = ((b', k'), r')" by (metis surj_pair)
    then have "flag (r_is_dir rx)" "flag (r_is_dir r')"
      using 1(1,2) mem assms(1) unfolding st_wf_def by blast+
    then show ?case using 1(3) by (simp add: dir_order_entry xy)
  qed
  then have "sorted (map listing_order es)" unfolding es by simp
  ultimately show ?thesis by blast
qed

text \<open>C32: a directory listing is complete, exact and in order. When the query succeeds, its
  entries are those of the bucket's rows with that parent, each once, directories before
  files and by name within each group.\<close>

theorem ListDir_exact:
  assumes "st_wf s" and "st_ListDir b parent s = Inr es"
  shows "set es = {entry_of k r | k r. st_map s (b, k) = Some r \<and> r_parent r = parent} \<and>
    distinct (map e_Key es) \<and> sorted (map listing_order es)"
  using assms by (rule ListDir_rows)

definition demo_store_entry :: Entry where
  "demo_store_entry = \<lparr>e_Key = ''d/f'', e_Parent = ''d/'', e_Name = ''f'', e_Size = 3, e_ETag = ''t'',
     e_Modified = 1500000001, e_IsDir = False\<rparr>"

definition demo_dir_entry :: Entry where
  "demo_dir_entry = \<lparr>e_Key = ''d/s/'', e_Parent = ''d/'', e_Name = ''s'', e_Size = 0, e_ETag = [],
     e_Modified = zero_time, e_IsDir = True\<rparr>"

definition empty_store :: Store where
  "empty_store = \<lparr>st_objects = [], st_cursors = [], sql_fault = (\<lambda>_. None)\<rparr>"

definition demo_catalog :: Store where
  "demo_catalog = snd (st_PutBatch ''b'' [demo_store_entry, demo_dir_entry] empty_store)"

lemma empty_store_wf [simp]: "st_wf empty_store" "sql_faultfree empty_store" "st_map empty_store = Map.empty"
  by (simp_all add: st_wf_def empty_store_def st_map_def sql_faultfree_def)

lemma demo_catalog_wf: "st_wf demo_catalog" "sql_faultfree demo_catalog"
  using st_PutBatch_step [OF empty_store_wf(1) surjective_pairing, of "''b''" "[demo_store_entry, demo_dir_entry]"]
    empty_store_wf(2)
  by (simp_all add: demo_catalog_def sql_faultfree_def)

lemma demo_catalog_ListDir:
  "\<exists>es. st_ListDir ''b'' ''d/'' demo_catalog = Inr es \<and> map e_Name es = [''s'', ''f'']"
proof -
  have "(case st_ListDir ''b'' ''d/'' demo_catalog of Inr es \<Rightarrow> map e_Name es = [''s'', ''f''] | Inl _ \<Rightarrow> False)"
    by code_simp
  then show ?thesis by (simp split: sum.splits)
qed

theorem ListDir_exact_witness:
  "\<exists>es. set es = {entry_of k r | k r. st_map demo_catalog (''b'', k) = Some r \<and> r_parent r = ''d/''} \<and>
    map e_Name es = [''s'', ''f''] \<and> sorted (map listing_order es)"
proof -
  from demo_catalog_ListDir obtain es
    where es: "st_ListDir ''b'' ''d/'' demo_catalog = Inr es" and n: "map e_Name es = [''s'', ''f'']"
    by (elim exE conjE)
  note l = ListDir_exact [OF demo_catalog_wf(1) es]
  show ?thesis using conjunct1 [OF l] n conjunct2 [OF conjunct2 [OF l]] by (intro exI [of _ es] conjI)
qed

text \<open>\<open>PutBatch\<close> is all or nothing. If it reports an error, the store is as before. If it
  succeeds, each key of the batch holds the last of the batch's entries for it, and no other
  key changed.\<close>

theorem PutBatch_atomic:
  assumes "st_wf s" and "st_PutBatch b es s = (r, s')"
  shows "if r = None
    then st_map s' = (\<lambda>bk. case List.find (\<lambda>e. (b, e_Key e) = bk) (rev es) of
           Some e \<Rightarrow> Some (row_of e) | None \<Rightarrow> st_map s bk)
    else s' = s"
proof (cases r)
  case None
  then have "st_map s' = st_map s ++ batch_row b es" using st_PutBatch_step [OF assms] by simp
  also have "\<dots> = (\<lambda>bk. case List.find (\<lambda>e. (b, e_Key e) = bk) (rev es) of
           Some e \<Rightarrow> Some (row_of e) | None \<Rightarrow> st_map s bk)"
    by (rule ext) (simp add: map_add_def batch_row_def split: option.split)
  finally show ?thesis using None by simp
next
  case (Some e)
  with assms(2) show ?thesis by (auto simp: st_PutBatch_def split: option.splits sum.splits)
qed

theorem PutBatch_atomic_witness:
  "st_map (snd (st_PutBatch ''b'' [demo_store_entry, demo_store_entry\<lparr>e_Size := 9\<rparr>] empty_store)) (''b'', ''d/f'')
     = Some (row_of (demo_store_entry\<lparr>e_Size := 9\<rparr>))"
proof -
  let ?es = "[demo_store_entry, demo_store_entry\<lparr>e_Size := 9\<rparr>]"
  have "fst (st_PutBatch ''b'' ?es empty_store) = None" by (rule st_PutBatch_ok) simp
  then have "st_PutBatch ''b'' ?es empty_store = (None, snd (st_PutBatch ''b'' ?es empty_store))"
    by (metis prod.collapse)
  from PutBatch_atomic [OF empty_store_wf(1) this] show ?thesis by (simp add: demo_store_entry_def)
qed

text \<open>What \<open>Put\<close> stored, \<open>Lookup\<close> returns: every field as it was, except that the
  modification time is cut to whole seconds. Every other key reads as before.\<close>

theorem store_read_after_put:
  assumes "st_wf s" and "st_Put b e s = (None, s')" and "sql_fault s (SqlLookup b (e_Key e)) = None"
  shows "st_Lookup b (e_Key e) s' =
      Inr (Some (e\<lparr>e_Modified := time_of_unix (unix_seconds (e_Modified e))\<rparr>)) \<and>
    (\<forall>b' k. (b', k) \<noteq> (b, e_Key e) \<longrightarrow> st_Lookup b' k s' = st_Lookup b' k s)"
proof -
  have step: "sql_fault s' = sql_fault s" "st_map s' = (st_map s)((b, e_Key e) \<mapsto> row_of e)"
    using st_Put_step [OF assms(1,2)] by simp_all
  have "entry_of (e_Key e) (row_of e) = e\<lparr>e_Modified := time_of_unix (unix_seconds (e_Modified e))\<rparr>"
    by (cases e) (simp add: entry_of_def row_of_def boolToInt_def)
  with step assms(3) show ?thesis
    by (auto simp: st_Lookup_case split: option.split)
qed

theorem store_read_after_put_witness:
  "st_Lookup ''b'' ''d/f'' (snd (st_Put ''b'' demo_store_entry empty_store)) =
     Inr (Some (demo_store_entry\<lparr>e_Modified := 1000000000\<rparr>))"
  using store_read_after_put [OF empty_store_wf(1), of "''b''" demo_store_entry
      "snd (st_Put ''b'' demo_store_entry empty_store)"]
  by (simp add: st_Put_def empty_store_def demo_store_entry_def unix_seconds_def time_of_unix_def second_def)

text \<open>Deleting a directory's rows. When it succeeds, \<open>DeletePrefix\<close> leaves no row whose
  key begins with the prefix (for keys in well-formed UTF-8) and touches no other bucket.
  For a prefix without \<open>%\<close> and \<open>_\<close> it removes exactly the keys that begin with the prefix
  when ASCII case is ignored.\<close>

theorem DeletePrefix_rows:
  assumes "st_wf s" and "st_DeletePrefix b p s = (None, s')"
  shows "(\<forall>t. underscores_ok (p @ t) \<longrightarrow> st_map s' (b, p @ t) = None) \<and>
    (\<forall>b' k. b' \<noteq> b \<longrightarrow> st_map s' (b', k) = st_map s (b', k)) \<and>
    (literal p \<longrightarrow> (\<forall>k. st_map s' (b, k) =
       (if HasPrefix (ToLower k) (ToLower p) then None else st_map s (b, k))))"
  using st_DeletePrefix_step [OF assms] by (auto simp: like_self like_literal)

theorem DeletePrefix_rows_witness:
  "st_map (snd (st_DeletePrefix ''b'' ''d/'' demo_catalog)) (''b'', ''d/'' @ ''f'') = None"
proof -
  have "st_DeletePrefix ''b'' ''d/'' demo_catalog = (None, snd (st_DeletePrefix ''b'' ''d/'' demo_catalog))"
    using demo_catalog_wf(2) by (simp add: st_DeletePrefix_def sql_faultfree_def)
  from DeletePrefix_rows [OF demo_catalog_wf(1) this] show ?thesis by simp
qed

text \<open>The prefix is not quoted. Deleting the rows of the directory \<open>a_c/\<close> also deletes
  those of its siblings \<open>abc/\<close> and \<open>A_C/\<close>: the underscore is a wildcard of \<open>LIKE\<close>, and
  \<open>LIKE\<close> ignores case.\<close>

theorem DeletePrefix_wildcard:
  assumes "st_wf s" and "st_DeletePrefix b ''a_c/'' s = (None, s')"
  shows "st_map s' (b, ''abc/x'') = None \<and> st_map s' (b, ''A_C/x'') = None \<and>
    \<not> HasPrefix ''abc/x'' ''a_c/''"
proof -
  have "sql_like ''a_c/%'' ''abc/x''" "sql_like ''a_c/%'' ''A_C/x''" by code_simp+
  then show ?thesis using st_DeletePrefix_step [OF assms] by (simp add: HasPrefix_def)
qed

theorem DeletePrefix_wildcard_witness:
  "st_map (snd (st_DeletePrefix ''b'' ''a_c/''
     (snd (st_Put ''b'' (demo_store_entry\<lparr>e_Key := ''abc/x''\<rparr>) empty_store)))) (''b'', ''abc/x'') = None"
proof -
  let ?s = "snd (st_Put ''b'' (demo_store_entry\<lparr>e_Key := ''abc/x''\<rparr>) empty_store)"
  have s: "st_wf ?s" "sql_fault ?s = (\<lambda>_. None)"
    using st_Put_step [OF empty_store_wf(1) surjective_pairing] empty_store_wf(2)
    by (simp_all add: sql_faultfree_def)
  then have "st_DeletePrefix ''b'' ''a_c/'' ?s = (None, snd (st_DeletePrefix ''b'' ''a_c/'' ?s))"
    by (simp add: st_DeletePrefix_def)
  from DeletePrefix_wildcard [OF s(1) this] show ?thesis by simp
qed

end
