(* ===== verification/Dir_Cache.thy ===== *)
theory Dir_Cache
  imports Catalog_Store
begin

text \<open>
  \<open>internal/catalog/dircache.go\<close>: the listings of recently read directories, per bucket
  and parent, each with the time it expires. A slice is a list value here: \<open>Get\<close> and \<open>Set\<close>
  copy it, so no caller shares it with the cache.
\<close>

section \<open>State and operations\<close>

record dirCacheEntry =
  de_entries :: "Entry list"
  de_expires :: time

record DirCache =
  dc_buckets :: "(string, (string, dirCacheEntry) gomap) gomap"
  dc_ttl :: duration

definition NewDirCache :: "duration \<Rightarrow> DirCache" where
  "NewDirCache ttl = \<lparr>dc_buckets = [], dc_ttl = ttl\<rparr>"

definition dc_Get :: "string \<Rightarrow> string \<Rightarrow> time \<Rightarrow> DirCache \<Rightarrow> Entry list option" where
  "dc_Get bucket parent now dc =
     (case map_of (dc_buckets dc) bucket of
        None \<Rightarrow> None
      | Some b \<Rightarrow>
          (case map_of b parent of
             None \<Rightarrow> None
           | Some e \<Rightarrow> if now > de_expires e then None else Some (de_entries e)))"

definition dc_Set :: "string \<Rightarrow> string \<Rightarrow> Entry list \<Rightarrow> time \<Rightarrow> DirCache \<Rightarrow> DirCache" where
  "dc_Set bucket parent entries now dc =
     (let b = (case map_of (dc_buckets dc) bucket of Some b \<Rightarrow> b | None \<Rightarrow> []);
          e = \<lparr>de_entries = entries, de_expires = now + dc_ttl dc\<rparr>
      in dc\<lparr>dc_buckets := AList.update bucket (AList.update parent e b) (dc_buckets dc)\<rparr>)"

definition dc_Invalidate :: "string \<Rightarrow> string \<Rightarrow> DirCache \<Rightarrow> DirCache" where
  "dc_Invalidate bucket parent dc =
     (case map_of (dc_buckets dc) bucket of
        None \<Rightarrow> dc
      | Some b \<Rightarrow> dc\<lparr>dc_buckets := AList.update bucket (AList.delete parent b) (dc_buckets dc)\<rparr>)"

definition dc_InvalidateAll :: "string \<Rightarrow> DirCache \<Rightarrow> DirCache" where
  "dc_InvalidateAll bucket dc = dc\<lparr>dc_buckets := AList.delete bucket (dc_buckets dc)\<rparr>"

text \<open>One tick of the reaper.\<close>

fun reap_buckets ::
  "time \<Rightarrow> (string, (string, dirCacheEntry) gomap) gomap \<Rightarrow> (string, (string, dirCacheEntry) gomap) gomap" where
  "reap_buckets now [] = []"
| "reap_buckets now ((bucket, b) # bs) =
     (let b = filter (\<lambda>(k, e). \<not> now > de_expires e) b
      in if length b = 0 then reap_buckets now bs else (bucket, b) # reap_buckets now bs)"

definition dc_reap :: "time \<Rightarrow> DirCache \<Rightarrow> DirCache" where
  "dc_reap now dc = dc\<lparr>dc_buckets := reap_buckets now (dc_buckets dc)\<rparr>"

section \<open>The cache as a map\<close>

definition dc_find :: "DirCache \<Rightarrow> string \<times> string \<Rightarrow> dirCacheEntry option" where
  "dc_find dc bp = Option.bind (map_of (dc_buckets dc) (fst bp)) (\<lambda>b. map_of b (snd bp))"

definition dc_inv :: "DirCache \<Rightarrow> bool" where
  "dc_inv dc \<longleftrightarrow> distinct (map fst (dc_buckets dc)) \<and>
     (\<forall>b m. map_of (dc_buckets dc) b = Some m \<longrightarrow> distinct (map fst m))"

lemma dc_Get_find:
  "dc_Get b p now dc =
     (case dc_find dc (b, p) of None \<Rightarrow> None | Some e \<Rightarrow> if now > de_expires e then None else Some (de_entries e))"
  by (simp add: dc_Get_def dc_find_def split: option.split)

lemma NewDirCache_inv [simp]: "dc_inv (NewDirCache d)" "dc_find (NewDirCache d) bp = None" "dc_ttl (NewDirCache d) = d"
  by (simp_all add: dc_inv_def NewDirCache_def dc_find_def)

lemma dc_Set_find:
  "dc_find (dc_Set b p es now dc) =
     (dc_find dc)((b, p) \<mapsto> \<lparr>de_entries = es, de_expires = now + dc_ttl dc\<rparr>)"
  by (auto simp: fun_eq_iff dc_Set_def dc_find_def Let_def split: option.split)

lemma dc_Invalidate_find: "dc_find (dc_Invalidate b p dc) = (dc_find dc)((b, p) := None)"
  by (auto simp: fun_eq_iff dc_Invalidate_def dc_find_def split: option.split)

lemma dc_InvalidateAll_find: "dc_find (dc_InvalidateAll b dc) = (\<lambda>bp. if fst bp = b then None else dc_find dc bp)"
  by (auto simp: fun_eq_iff dc_InvalidateAll_def dc_find_def)

lemma reap_buckets_keys: "set (map fst (reap_buckets now bs)) \<subseteq> set (map fst bs)"
  by (induction now bs rule: reap_buckets.induct) (auto simp: Let_def)

lemma reap_buckets_absent: "b \<notin> fst ` set bs \<Longrightarrow> map_of (reap_buckets now bs) b = None"
  using reap_buckets_keys [of now bs] by (auto simp: map_of_eq_None_iff)

lemma reap_buckets_find:
  "distinct (map fst bs) \<Longrightarrow> (\<forall>b m. map_of bs b = Some m \<longrightarrow> distinct (map fst m)) \<Longrightarrow>
     Option.bind (map_of (reap_buckets now bs) b) (\<lambda>m. map_of m p) =
     (case Option.bind (map_of bs b) (\<lambda>m. map_of m p) of
        None \<Rightarrow> None | Some e \<Rightarrow> if now > de_expires e then None else Some e)"
proof (induction now bs rule: reap_buckets.induct)
  case (2 now bucket m bs)
  let ?m = "filter (\<lambda>(k, e). \<not> now > de_expires e) m"
  have dm: "distinct (map fst m)" using "2.prems"(2) by (metis map_of_Cons_code(2))
  have fm: "map_of ?m p = (case map_of m p of None \<Rightarrow> None | Some e \<Rightarrow> if now > de_expires e then None else Some e)"
    using map_of_filter_Some [OF dm, of "\<lambda>(k, e). \<not> now > de_expires e" p] by (auto split: option.split)
  have "bucket \<notin> fst ` set bs" using "2.prems"(1) by simp
  note absent = reap_buckets_absent [OF this, of now] and fresh = this
  have "\<forall>b m. map_of bs b = Some m \<longrightarrow> distinct (map fst m)"
    using "2.prems"(2) fresh by (metis map_of_Cons_code(2) map_of_eq_None_iff option.distinct(1))
  then have ih: "Option.bind (map_of (reap_buckets now bs) b) (\<lambda>m. map_of m p) =
     (case Option.bind (map_of bs b) (\<lambda>m. map_of m p) of
        None \<Rightarrow> None | Some e \<Rightarrow> if now > de_expires e then None else Some e)"
    using "2.IH" [OF refl] "2.prems"(1) by (cases "?m = []") simp_all
  show ?case
  proof (cases "b = bucket")
    case True
    then show ?thesis using fm absent by (cases "?m = []") (simp_all add: Let_def)
  next
    case False
    then show ?thesis using ih by (simp add: Let_def)
  qed
qed simp

lemma dc_reap_find:
  "dc_inv dc \<Longrightarrow> dc_find (dc_reap now dc) bp =
     (case dc_find dc bp of None \<Rightarrow> None | Some e \<Rightarrow> if now > de_expires e then None else Some e)"
  using reap_buckets_find [of "dc_buckets dc" now "fst bp" "snd bp"]
  by (simp add: dc_inv_def dc_find_def dc_reap_def)

text \<open>The invariant.\<close>

lemma reap_buckets_mem: "(b, m) \<in> set (reap_buckets now bs) \<Longrightarrow>
    \<exists>m'. (b, m') \<in> set bs \<and> m = filter (\<lambda>(k, e). \<not> now > de_expires e) m'"
  by (induction now bs rule: reap_buckets.induct) (auto simp: Let_def split: if_splits)

lemma reap_buckets_distinct: "distinct (map fst bs) \<Longrightarrow> distinct (map fst (reap_buckets now bs))"
proof (induction now bs rule: reap_buckets.induct)
  case (2 now bucket m bs)
  have "bucket \<notin> fst ` set (reap_buckets now bs)"
    using reap_buckets_keys [of now bs] "2.prems" by auto
  with 2 show ?case by (simp add: Let_def)
qed simp

lemma dc_inv_iff: "dc_inv dc \<longleftrightarrow> distinct (map fst (dc_buckets dc)) \<and> (\<forall>(b, m) \<in> set (dc_buckets dc). distinct (map fst m))"
  by (auto simp: dc_inv_def)

lemma dc_inv_step:
  assumes "dc_inv dc"
  shows "dc_inv (dc_Set b p es now dc)" "dc_inv (dc_Invalidate b p dc)" "dc_inv (dc_InvalidateAll b dc)"
    "dc_inv (dc_reap now dc)"
proof -
  show "dc_inv (dc_reap now dc)"
    using assms reap_buckets_distinct [of "dc_buckets dc" now]
    by (force simp: dc_inv_iff dc_reap_def distinct_keys_filter dest!: reap_buckets_mem)
  show "dc_inv (dc_Set b p es now dc)" "dc_inv (dc_Invalidate b p dc)" "dc_inv (dc_InvalidateAll b dc)"
    using assms
    by (auto simp: dc_inv_def dc_Set_def dc_Invalidate_def dc_InvalidateAll_def Let_def
        simp del: map_of_eq_Some_iff split: option.splits if_splits)
qed

lemma dc_ttl_step [simp]:
  "dc_ttl (dc_Set b p es now dc) = dc_ttl dc" "dc_ttl (dc_Invalidate b p dc) = dc_ttl dc"
  "dc_ttl (dc_InvalidateAll b dc) = dc_ttl dc" "dc_ttl (dc_reap now dc) = dc_ttl dc"
  by (simp_all add: dc_Set_def dc_Invalidate_def dc_InvalidateAll_def dc_reap_def Let_def split: option.split)

section \<open>Staleness\<close>

definition dir_live :: "time \<Rightarrow> DirCache \<Rightarrow> string \<times> string \<Rightarrow> Entry list option" where
  "dir_live t dc bp = dc_Get (fst bp) (snd bp) t dc"

definition dir_put :: "time \<Rightarrow> string \<times> string \<Rightarrow> Entry list \<Rightarrow> DirCache \<Rightarrow> DirCache" where
  "dir_put u bp es = dc_Set (fst bp) (snd bp) es u"

text \<open>One directory or a whole bucket.\<close>

type_synonym dir_dropping = "string \<times> string + string"

fun dir_drop :: "dir_dropping \<Rightarrow> DirCache \<Rightarrow> DirCache" where
  "dir_drop (Inl (b, p)) dc = dc_Invalidate b p dc"
| "dir_drop (Inr b) dc = dc_InvalidateAll b dc"

fun dir_covers :: "dir_dropping \<Rightarrow> string \<times> string \<Rightarrow> bool" where
  "dir_covers (Inl bp) = (=) bp"
| "dir_covers (Inr b) = (\<lambda>bp. fst bp = b)"

lemma dir_live_find: "dir_live t dc bp = (case dc_find dc bp of None \<Rightarrow> None
    | Some e \<Rightarrow> if t > de_expires e then None else Some (de_entries e))"
  by (cases bp) (simp add: dir_live_def dc_Get_find)

lemma dir_drop_find: "dc_find (dir_drop d dc) = (\<lambda>bp. if dir_covers d bp then None else dc_find dc bp)"
  by (cases d) (auto simp: fun_eq_iff dc_Invalidate_find dc_InvalidateAll_find split: if_splits)

lemma dir_drop_inv: "dc_inv dc \<Longrightarrow> dc_inv (dir_drop d dc) \<and> dc_ttl (dir_drop d dc) = dc_ttl dc"
  by (cases d) (auto simp: dc_inv_step)

interpretation dirs: ttl_cache dir_live dir_put dir_drop dir_covers dc_reap dc_inv dc_ttl
  by unfold_locales
    (auto simp: dir_live_find dir_put_def dc_Set_find dir_drop_find dc_reap_find dc_inv_step dir_drop_inv
      split: option.splits if_splits)

text \<open>A cached listing is never older than its time to live and never survives an
  invalidation. In any sequence of operations from the empty cache (newest first), if
  \<open>Get\<close> serves a listing at time \<open>t\<close>, it is the one the last operation that concerns the
  directory, a \<open>Set\<close> at some \<open>u\<close> with \<open>t \<le> u + ttl\<close>, stored.\<close>

theorem dir_cache_staleness:
  assumes "dc_Get b p t (cache_run dir_put dir_drop dc_reap (NewDirCache d) ops) = Some es"
  shows "\<exists>u. last_put dir_covers (b, p) ops = Some (u, es) \<and> t \<le> u + d"
  using dirs.bounded_staleness [of "NewDirCache d" t ops "(b, p)" es] assms
  by (simp add: dir_live_find dc_Get_find)

theorem dir_cache_staleness_witness:
  "\<exists>u. last_put dir_covers (''b'', ''d/'') [CTidy (9 :: time), CDrop (Inr ''c''), CPut 5 (''b'', ''d/'') [demo_store_entry]]
     = Some (u, [demo_store_entry]) \<and> 10 \<le> u + 8"
proof (rule dir_cache_staleness)
  show "dc_Get ''b'' ''d/'' 10 (cache_run dir_put dir_drop dc_reap (NewDirCache 8)
      [CTidy 9, CDrop (Inr ''c''), CPut 5 (''b'', ''d/'') [demo_store_entry]]) = Some [demo_store_entry]"
    by (simp add: dc_Get_def dc_reap_def dir_put_def dc_Set_def dc_InvalidateAll_def NewDirCache_def Let_def)
qed

end
