(* ===== verification/Neg_Cache.thy ===== *)
theory Neg_Cache
  imports Interfaces Go_Strings
begin

text \<open>
  \<open>internal/catalog/negcache.go\<close>: the bounded cache of keys known not to exist. The code
  keeps each entry in a map per bucket and in one list from the oldest to the newest, and
  shares the entry between the two by pointer. The model has a heap of entries; map and
  list hold references into it. The abstract specification is a single queue of keys with
  their expiry.
\<close>

section \<open>State\<close>

record negEntry =
  ne_bucket :: string
  ne_key :: string
  ne_expires :: time

type_synonym ref = nat

record NegCache =
  nc_buckets :: "(string, (string, ref) gomap) gomap"
  nc_heap :: "ref \<Rightarrow> negEntry"
  nc_next :: ref            \<comment> \<open>the next reference to allocate\<close>
  nc_lru :: "ref list"      \<comment> \<open>front = oldest, back = newest\<close>
  nc_ttl :: duration
  nc_maxSize :: nat

definition defaultNegCacheMaxSize :: nat where
  "defaultNegCacheMaxSize = 10000"

section \<open>Operations\<close>

definition NewNegCache :: "duration \<Rightarrow> NegCache" where
  "NewNegCache ttl =
     \<lparr>nc_buckets = [], nc_heap = (\<lambda>_. \<lparr>ne_bucket = [], ne_key = [], ne_expires = 0\<rparr>), nc_next = 0,
      nc_lru = [], nc_ttl = ttl, nc_maxSize = defaultNegCacheMaxSize\<rparr>"

definition removeLocked :: "ref \<Rightarrow> NegCache \<Rightarrow> NegCache" where
  "removeLocked e nc =
     (let nc = nc\<lparr>nc_lru := remove1 e (nc_lru nc)\<rparr>;
          bucket = ne_bucket (nc_heap nc e)
      in case map_of (nc_buckets nc) bucket of
           None \<Rightarrow> nc
         | Some b \<Rightarrow>
             (let b = AList.delete (ne_key (nc_heap nc e)) b
              in nc\<lparr>nc_buckets := (if length b = 0 then AList.delete bucket (nc_buckets nc)
                                   else AList.update bucket b (nc_buckets nc))\<rparr>))"

definition nc_Contains :: "string \<Rightarrow> string \<Rightarrow> time \<Rightarrow> NegCache \<Rightarrow> bool \<times> NegCache" where
  "nc_Contains bucket key now nc =
     (case map_of (nc_buckets nc) bucket of
        None \<Rightarrow> (False, nc)
      | Some b \<Rightarrow>
          (case map_of b key of
             None \<Rightarrow> (False, nc)
           | Some e \<Rightarrow>
               if \<not> now < ne_expires (nc_heap nc e) then (False, removeLocked e nc)
               else (True, nc)))"

text \<open>The loop of \<open>Add\<close> that evicts from the front while the list is too long.\<close>

function nc_trim :: "NegCache \<Rightarrow> NegCache" where
  "nc_trim nc =
     (if length (nc_lru nc) > nc_maxSize nc then
        (case nc_lru nc of [] \<Rightarrow> nc | front # _ \<Rightarrow> nc_trim (removeLocked front nc))
      else nc)"
  by pat_completeness auto

lemma removeLocked_lru [simp]: "nc_lru (removeLocked e nc) = remove1 e (nc_lru nc)"
  by (simp add: removeLocked_def Let_def split: option.split)

termination nc_trim
  by (relation "measure (\<lambda>nc. length (nc_lru nc))") auto

declare nc_trim.simps [simp del]

definition nc_Add :: "string \<Rightarrow> string \<Rightarrow> time \<Rightarrow> NegCache \<Rightarrow> NegCache" where
  "nc_Add bucket key now nc =
     (let b = (case map_of (nc_buckets nc) bucket of Some b \<Rightarrow> b | None \<Rightarrow> []);
          nc = (case map_of (nc_buckets nc) bucket of
                  Some _ \<Rightarrow> nc | None \<Rightarrow> nc\<lparr>nc_buckets := AList.update bucket [] (nc_buckets nc)\<rparr>)
      in case map_of b key of
           Some e \<Rightarrow>
             nc\<lparr>nc_heap := (nc_heap nc)(e := (nc_heap nc e)\<lparr>ne_expires := now + nc_ttl nc\<rparr>),
                nc_lru := remove1 e (nc_lru nc) @ [e]\<rparr>
         | None \<Rightarrow>
             (let e = nc_next nc;
                  nc = nc\<lparr>nc_heap := (nc_heap nc)(e := \<lparr>ne_bucket = bucket, ne_key = key,
                                                        ne_expires = now + nc_ttl nc\<rparr>),
                          nc_next := Suc e,
                          nc_lru := nc_lru nc @ [e],
                          nc_buckets := AList.update bucket (AList.update key e b) (nc_buckets nc)\<rparr>
              in nc_trim nc))"

definition nc_Remove :: "string \<Rightarrow> string \<Rightarrow> NegCache \<Rightarrow> NegCache" where
  "nc_Remove bucket key nc =
     (case map_of (nc_buckets nc) bucket of
        None \<Rightarrow> nc
      | Some b \<Rightarrow> (case map_of b key of None \<Rightarrow> nc | Some e \<Rightarrow> removeLocked e nc))"

fun nc_remove_matching :: "string \<Rightarrow> (string \<times> ref) list \<Rightarrow> NegCache \<Rightarrow> NegCache" where
  "nc_remove_matching prefix [] nc = nc"
| "nc_remove_matching prefix ((k, e) # kes) nc =
     nc_remove_matching prefix kes (if HasPrefix k prefix then removeLocked e nc else nc)"

definition nc_RemovePrefix :: "string \<Rightarrow> string \<Rightarrow> NegCache \<Rightarrow> NegCache" where
  "nc_RemovePrefix bucket prefix nc =
     (case map_of (nc_buckets nc) bucket of
        None \<Rightarrow> nc
      | Some b \<Rightarrow> nc_remove_matching prefix b nc)"

text \<open>One tick of the reaper: from the front until an entry is still valid.\<close>

function nc_reap :: "time \<Rightarrow> NegCache \<Rightarrow> NegCache" where
  "nc_reap now nc =
     (case nc_lru nc of
        [] \<Rightarrow> nc
      | e # _ \<Rightarrow> if now < ne_expires (nc_heap nc e) then nc else nc_reap now (removeLocked e nc))"
  by pat_completeness auto

termination nc_reap
  by (relation "measure (\<lambda>(now, nc). length (nc_lru nc))") auto

declare nc_reap.simps [simp del]

section \<open>The specification: one queue\<close>

type_synonym neg_queue = "((string \<times> string) \<times> time) list"

definition q_remove :: "(string \<times> string \<Rightarrow> bool) \<Rightarrow> neg_queue \<Rightarrow> neg_queue" where
  "q_remove P q = filter (\<lambda>x. \<not> P (fst x)) q"

definition q_add :: "duration \<Rightarrow> nat \<Rightarrow> string \<times> string \<Rightarrow> time \<Rightarrow> neg_queue \<Rightarrow> neg_queue" where
  "q_add ttl maxSize bk now q =
     (let q' = q_remove ((=) bk) q @ [(bk, now + ttl)] in drop (length q' - maxSize) q')"

definition q_contains :: "string \<times> string \<Rightarrow> time \<Rightarrow> neg_queue \<Rightarrow> bool" where
  "q_contains bk now q = (case map_of q bk of None \<Rightarrow> False | Some t \<Rightarrow> now < t)"

definition q_reap :: "time \<Rightarrow> neg_queue \<Rightarrow> neg_queue" where
  "q_reap now q = dropWhile (\<lambda>x. \<not> now < snd x) q"

section \<open>Abstraction and invariant\<close>

definition ent :: "NegCache \<Rightarrow> ref \<Rightarrow> (string \<times> string) \<times> time" where
  "ent nc r = ((ne_bucket (nc_heap nc r), ne_key (nc_heap nc r)), ne_expires (nc_heap nc r))"

definition neg_abs :: "NegCache \<Rightarrow> neg_queue" where
  "neg_abs nc = map (ent nc) (nc_lru nc)"

definition nc_find :: "NegCache \<Rightarrow> string \<times> string \<Rightarrow> ref option" where
  "nc_find nc bk = Option.bind (map_of (nc_buckets nc) (fst bk)) (\<lambda>b. map_of b (snd bk))"

text \<open>
  The map and the list hold the same references, each under the key its entry carries; no
  bucket map is left empty or holds a key twice; the list has no duplicates and at most \<open>maxSize\<close> elements.
  \<open>neg_lens\<close> is the invariant without the bound.
\<close>

definition neg_lens :: "NegCache \<Rightarrow> bool" where
  "neg_lens nc \<longleftrightarrow>
     distinct (nc_lru nc) \<and> (\<forall>r \<in> set (nc_lru nc). r < nc_next nc) \<and>
     (\<forall>b m. map_of (nc_buckets nc) b = Some m \<longrightarrow> m \<noteq> [] \<and> distinct (map fst m)) \<and>
     (\<forall>bk r. nc_find nc bk = Some r \<longleftrightarrow> r \<in> set (nc_lru nc) \<and> fst (ent nc r) = bk)"

definition neg_inv :: "NegCache \<Rightarrow> bool" where
  "neg_inv nc \<longleftrightarrow> neg_lens nc \<and> length (nc_lru nc) \<le> nc_maxSize nc"

lemma neg_lensD:
  assumes "neg_lens nc"
  shows "distinct (nc_lru nc)" "r \<in> set (nc_lru nc) \<Longrightarrow> r < nc_next nc"
    "map_of (nc_buckets nc) b = Some m \<Longrightarrow> m \<noteq> [] \<and> distinct (map fst m)"
    "nc_find nc bk = Some r \<longleftrightarrow> r \<in> set (nc_lru nc) \<and> fst (ent nc r) = bk"
  using assms unfolding neg_lens_def by blast+

lemma removeLocked_heap [simp]:
  "nc_heap (removeLocked e nc) = nc_heap nc" "nc_next (removeLocked e nc) = nc_next nc"
  "nc_ttl (removeLocked e nc) = nc_ttl nc" "nc_maxSize (removeLocked e nc) = nc_maxSize nc"
  by (simp_all add: removeLocked_def Let_def split: option.split)

lemma ent_removeLocked [simp]: "ent (removeLocked e nc) = ent nc"
  by (simp add: ent_def fun_eq_iff)

lemma delete_Nil_others: "AList.delete k m = [] \<Longrightarrow> k' \<noteq> k \<Longrightarrow> map_of m k' = None"
  using map_of_delete [of k m] by (metis fun_upd_other map_of.simps(1))

lemma nc_find_removeLocked:
  "nc_find (removeLocked e nc) bk = (if bk = fst (ent nc e) then None else nc_find nc bk)"
  by (cases bk) (auto simp: removeLocked_def nc_find_def ent_def Let_def delete_Nil_others
      split: option.split)

lemma ent_inj: "neg_lens nc \<Longrightarrow> r \<in> set (nc_lru nc) \<Longrightarrow> r' \<in> set (nc_lru nc) \<Longrightarrow>
    fst (ent nc r) = fst (ent nc r') \<Longrightarrow> r = r'"
  using neg_lensD(4) by (metis option.inject)

lemma neg_lens_removeLocked:
  assumes "neg_lens nc" and "e \<in> set (nc_lru nc)"
  shows "neg_lens (removeLocked e nc)"
proof -
  note d = neg_lensD [OF assms(1)]
  have "map_of (nc_buckets (removeLocked e nc)) b = Some m \<Longrightarrow>
      m \<noteq> [] \<and> distinct (map fst m)" for b m
    using d(3) by (auto simp: removeLocked_def Let_def split: option.splits if_splits)
  moreover have "nc_find (removeLocked e nc) bk = Some r \<longleftrightarrow>
      r \<in> set (nc_lru (removeLocked e nc)) \<and> fst (ent (removeLocked e nc) r) = bk" for bk r
    using d(1,4) ent_inj [OF assms(1) _ assms(2)] assms(2)
    by (auto simp: nc_find_removeLocked)
  ultimately show ?thesis
    unfolding neg_lens_def using d(1,2) by (auto dest: notin_set_remove1)
qed

lemma neg_abs_removeLocked:
  assumes "neg_lens nc" and "e \<in> set (nc_lru nc)"
  shows "neg_abs (removeLocked e nc) = q_remove ((=) (fst (ent nc e))) (neg_abs nc)"
proof -
  have "remove1 e (nc_lru nc) = filter (\<lambda>r. r \<noteq> e) (nc_lru nc)"
    using neg_lensD(1) [OF assms(1)] by (auto simp: distinct_remove1_removeAll removeAll_filter_not_eq intro: filter_cong)
  also have "\<dots> = filter (\<lambda>r. fst (ent nc e) \<noteq> fst (ent nc r)) (nc_lru nc)"
    using ent_inj [OF assms(1) _ assms(2)] by (intro filter_cong) auto
  finally show ?thesis by (simp add: neg_abs_def q_remove_def filter_map comp_def)
qed

lemma neg_abs_map_of:
  assumes "neg_lens nc"
  shows "map_of (neg_abs nc) bk = map_option (\<lambda>r. ne_expires (nc_heap nc r)) (nc_find nc bk)"
proof (cases "nc_find nc bk")
  case None
  then have "\<forall>r \<in> set (nc_lru nc). fst (ent nc r) \<noteq> bk"
    using neg_lensD(4) [OF assms] by (metis option.distinct(1))
  then have "bk \<notin> fst ` set (neg_abs nc)" by (auto simp: neg_abs_def)
  then show ?thesis using None by (simp add: map_of_eq_None_iff)
next
  case (Some r)
  then have r: "r \<in> set (nc_lru nc)" "fst (ent nc r) = bk" using neg_lensD(4) [OF assms] by auto
  have "distinct (map fst (neg_abs nc))"
    using neg_lensD(1) [OF assms] ent_inj [OF assms]
    by (auto simp: neg_abs_def distinct_map comp_def intro!: inj_onI)
  moreover have "(bk, ne_expires (nc_heap nc r)) \<in> set (neg_abs nc)"
    using r by (force simp: neg_abs_def ent_def image_iff)
  ultimately show ?thesis using Some by (simp add: map_of_is_SomeI)
qed

lemma nc_find_Some: "nc_find nc (b, k) = Some r \<longleftrightarrow> (\<exists>m. map_of (nc_buckets nc) b = Some m \<and> map_of m k = Some r)"
  by (auto simp: nc_find_def bind_eq_Some_conv)

lemma nc_find_None: "nc_find nc (b, k) = None \<longleftrightarrow>
    (map_of (nc_buckets nc) b = None \<or> (\<exists>m. map_of (nc_buckets nc) b = Some m \<and> map_of m k = None))"
  by (cases "map_of (nc_buckets nc) b") (simp_all add: nc_find_def)

section \<open>Every operation refines the queue\<close>

lemma neg_abs_length: "length (neg_abs nc) = length (nc_lru nc)"
  by (simp add: neg_abs_def)

lemma Contains_find:
  "nc_Contains b k now nc =
     (case nc_find nc (b, k) of
        None \<Rightarrow> (False, nc)
      | Some e \<Rightarrow> if \<not> now < ne_expires (nc_heap nc e) then (False, removeLocked e nc) else (True, nc))"
  by (auto simp: nc_Contains_def nc_find_def split: option.split)

lemma Remove_find:
  "nc_Remove b k nc = (case nc_find nc (b, k) of None \<Rightarrow> nc | Some e \<Rightarrow> removeLocked e nc)"
  by (auto simp: nc_Remove_def nc_find_def split: option.split)

lemma neg_inv_removeLocked:
  "neg_inv nc \<Longrightarrow> e \<in> set (nc_lru nc) \<Longrightarrow> neg_inv (removeLocked e nc)"
  by (auto simp: neg_inv_def neg_lens_removeLocked length_remove1 split: if_splits)

lemma q_remove_absent: "map_of q bk = None \<Longrightarrow> q_remove ((=) bk) q = q"
  by (auto simp: q_remove_def map_of_eq_None_iff intro!: filter_True)

lemma nc_Contains_refines:
  assumes "neg_inv nc"
  shows "neg_inv (snd (nc_Contains b k now nc))"
    and "fst (nc_Contains b k now nc) = q_contains (b, k) now (neg_abs nc)"
    and "neg_abs (snd (nc_Contains b k now nc)) =
      (if q_contains (b, k) now (neg_abs nc) then neg_abs nc else q_remove ((=) (b, k)) (neg_abs nc))"
proof -
  have l: "neg_lens nc" using assms by (simp add: neg_inv_def)
  note m = neg_abs_map_of [OF l, of "(b, k)"]
  show "neg_inv (snd (nc_Contains b k now nc))"
    using neg_inv_removeLocked [OF assms] neg_lensD(4) [OF l, of "(b, k)"] assms
    by (auto simp: Contains_find split: option.split)
  show "fst (nc_Contains b k now nc) = q_contains (b, k) now (neg_abs nc)"
    by (auto simp: Contains_find q_contains_def m split: option.split)
  show "neg_abs (snd (nc_Contains b k now nc)) =
      (if q_contains (b, k) now (neg_abs nc) then neg_abs nc else q_remove ((=) (b, k)) (neg_abs nc))"
  proof (cases "nc_find nc (b, k)")
    case None
    then show ?thesis using m q_remove_absent [of "neg_abs nc" "(b, k)"] by (simp add: Contains_find)
  next
    case (Some e)
    then have "e \<in> set (nc_lru nc)" "fst (ent nc e) = (b, k)" using neg_lensD(4) [OF l] by auto
    with Some m neg_abs_removeLocked [OF l] show ?thesis by (auto simp: Contains_find q_contains_def)
  qed
qed

lemma nc_Remove_refines:
  assumes "neg_inv nc"
  shows "neg_inv (nc_Remove b k nc)" and "neg_abs (nc_Remove b k nc) = q_remove ((=) (b, k)) (neg_abs nc)"
proof -
  have l: "neg_lens nc" using assms by (simp add: neg_inv_def)
  note m = neg_abs_map_of [OF l, of "(b, k)"]
  show "neg_inv (nc_Remove b k nc)"
    using neg_inv_removeLocked [OF assms] neg_lensD(4) [OF l, of "(b, k)"] assms
    by (auto simp: Remove_find split: option.split)
  show "neg_abs (nc_Remove b k nc) = q_remove ((=) (b, k)) (neg_abs nc)"
  proof (cases "nc_find nc (b, k)")
    case None
    then show ?thesis using m q_remove_absent [of "neg_abs nc" "(b, k)"] by (simp add: Remove_find)
  next
    case (Some e)
    then have "e \<in> set (nc_lru nc)" "fst (ent nc e) = (b, k)" using neg_lensD(4) [OF l] by auto
    with Some neg_abs_removeLocked [OF l] show ?thesis by (simp add: Remove_find)
  qed
qed

text \<open>Trimming and reaping pop the front of the queue.\<close>

lemma pop_front:
  assumes "neg_lens nc" and "nc_lru nc = e # es"
  shows "neg_lens (removeLocked e nc)" "nc_lru (removeLocked e nc) = es"
    "neg_abs (removeLocked e nc) = tl (neg_abs nc)"
  using neg_lens_removeLocked [OF assms(1)] assms(2) by (simp_all add: neg_abs_def)

lemma nc_trim_refines:
  "neg_lens nc \<Longrightarrow> neg_inv (nc_trim nc) \<and>
     neg_abs (nc_trim nc) = drop (length (nc_lru nc) - nc_maxSize nc) (neg_abs nc) \<and>
     nc_maxSize (nc_trim nc) = nc_maxSize nc \<and> nc_ttl (nc_trim nc) = nc_ttl nc"
proof (induction nc rule: nc_trim.induct)
  case (1 nc)
  show ?case
  proof (cases "length (nc_lru nc) > nc_maxSize nc")
    case True
    then obtain e es where l: "nc_lru nc = e # es" by (cases "nc_lru nc") auto
    note p = pop_front [OF "1.prems" l]
    from True l have "nc_trim nc = nc_trim (removeLocked e nc)" by (simp add: nc_trim.simps [of nc])
    moreover from True l have "Suc (length es) - nc_maxSize nc = Suc (length es - nc_maxSize nc)" by simp
    ultimately show ?thesis using "1.IH" [OF True l p(1)] p(2,3) l by (simp add: drop_Suc)
  next
    case False
    then show ?thesis using "1.prems" by (simp add: nc_trim.simps [of nc] neg_inv_def)
  qed
qed

lemma nc_reap_refines:
  "neg_inv nc \<Longrightarrow> neg_inv (nc_reap now nc) \<and> neg_abs (nc_reap now nc) = q_reap now (neg_abs nc)"
proof (induction now nc rule: nc_reap.induct)
  case (1 now nc)
  have l: "neg_lens nc" using "1.prems" by (simp add: neg_inv_def)
  show ?case
  proof (cases "nc_lru nc")
    case Nil
    then show ?thesis using "1.prems" by (simp add: nc_reap.simps [of now nc] neg_abs_def q_reap_def)
  next
    case (Cons e es)
    show ?thesis
    proof (cases "now < ne_expires (nc_heap nc e)")
      case True
      then show ?thesis
        using "1.prems" Cons by (simp add: nc_reap.simps [of now nc] neg_abs_def q_reap_def ent_def)
    next
      case False
      have inv: "neg_inv (removeLocked e nc)" using neg_inv_removeLocked "1.prems" Cons by simp
      have "nc_reap now nc = nc_reap now (removeLocked e nc)"
        using Cons False by (simp add: nc_reap.simps [of now nc])
      moreover have "q_reap now (neg_abs nc) = q_reap now (tl (neg_abs nc))"
        using Cons False by (simp add: neg_abs_def q_reap_def ent_def)
      ultimately show ?thesis using "1.IH" [OF Cons False inv] pop_front(3) [OF l Cons] by simp
    qed
  qed
qed

lemma neg_abs_keys: "neg_lens nc \<Longrightarrow> bk \<in> fst ` set (neg_abs nc) \<longleftrightarrow> nc_find nc bk \<noteq> None"
  using neg_abs_map_of [of nc bk] map_of_eq_None_iff [of "neg_abs nc" bk] by auto

lemma nc_Add_find_cases:
  "nc_Add b k now nc =
     (case nc_find nc (b, k) of
        Some e \<Rightarrow> nc\<lparr>nc_heap := (nc_heap nc)(e := (nc_heap nc e)\<lparr>ne_expires := now + nc_ttl nc\<rparr>),
                     nc_lru := remove1 e (nc_lru nc) @ [e]\<rparr>
      | None \<Rightarrow>
          (let m = (case map_of (nc_buckets nc) b of Some m \<Rightarrow> m | None \<Rightarrow> []);
               bs = (case map_of (nc_buckets nc) b of Some _ \<Rightarrow> nc_buckets nc | None \<Rightarrow> AList.update b [] (nc_buckets nc))
           in nc_trim (nc\<lparr>nc_heap := (nc_heap nc)(nc_next nc := \<lparr>ne_bucket = b, ne_key = k,
                                                        ne_expires = now + nc_ttl nc\<rparr>),
                          nc_next := Suc (nc_next nc),
                          nc_lru := nc_lru nc @ [nc_next nc],
                          nc_buckets := AList.update b (AList.update k (nc_next nc) m) bs\<rparr>)))"
  by (cases "map_of (nc_buckets nc) b")
    (simp_all add: nc_Add_def nc_find_def Let_def split: option.split)

lemma nc_Add_fresh:
  assumes l: "neg_lens nc" and n: "nc_find nc (b, k) = None"
    and m: "m = (case map_of (nc_buckets nc) b of Some m \<Rightarrow> m | None \<Rightarrow> [])"
    and bs: "bs = (case map_of (nc_buckets nc) b of Some _ \<Rightarrow> nc_buckets nc | None \<Rightarrow> AList.update b [] (nc_buckets nc))"
    and nc': "nc' = nc\<lparr>nc_heap := (nc_heap nc)(nc_next nc := \<lparr>ne_bucket = b, ne_key = k, ne_expires = t\<rparr>),
                          nc_next := Suc (nc_next nc), nc_lru := nc_lru nc @ [nc_next nc],
                          nc_buckets := AList.update b (AList.update k (nc_next nc) m) bs\<rparr>"
  shows "neg_lens nc'" "neg_abs nc' = neg_abs nc @ [((b, k), t)]"
proof -
  note d = neg_lensD [OF l]
  let ?e = "nc_next nc"
  have fresh: "?e \<notin> set (nc_lru nc)" using d(2) by blast
  have ent: "ent nc' r = (if r = ?e then ((b, k), t) else ent nc r)" for r
    by (simp add: nc' ent_def)
  have find: "nc_find nc' bk = (if bk = (b, k) then Some ?e else nc_find nc bk)" for bk
    by (cases bk) (auto simp: nc' nc_find_def m bs split: option.split)
  have maps: "map_of (nc_buckets nc') b' = Some m' \<Longrightarrow> m' \<noteq> [] \<and> distinct (map fst m')" for b' m'
    using d(3) [of b] d(3) [of b' m'] by (auto simp: nc' m bs split: option.splits if_splits)
  have lru: "set (nc_lru nc') = insert ?e (set (nc_lru nc))" by (simp add: nc')
  have "nc_find nc' bk = Some r \<longleftrightarrow> r \<in> set (nc_lru nc') \<and> fst (ent nc' r) = bk" for bk r
  proof (cases "r = ?e")
    case True
    then show ?thesis using d(4) [of bk r] fresh by (auto simp: find ent lru)
  next
    case False
    then show ?thesis using d(4) [of bk r] n by (auto simp: find ent lru)
  qed
  moreover have "distinct (nc_lru nc')" using d(1) fresh by (simp add: nc')
  moreover have "\<forall>r \<in> set (nc_lru nc'). r < nc_next nc'" using d(2) by (force simp: nc')
  ultimately show "neg_lens nc'" using maps unfolding neg_lens_def by blast
  show "neg_abs nc' = neg_abs nc @ [((b, k), t)]"
    using fresh ent by (auto simp: neg_abs_def nc' intro!: map_cong)
qed

lemma nc_Add_refresh:
  assumes i: "neg_inv nc" and f: "nc_find nc (b, k) = Some e"
    and nc': "nc' = nc\<lparr>nc_heap := (nc_heap nc)(e := (nc_heap nc e)\<lparr>ne_expires := t\<rparr>),
                     nc_lru := remove1 e (nc_lru nc) @ [e]\<rparr>"
  shows "neg_inv nc'" "neg_abs nc' = q_remove ((=) (b, k)) (neg_abs nc) @ [((b, k), t)]"
proof -
  have l: "neg_lens nc" using i by (simp add: neg_inv_def)
  note d = neg_lensD [OF l]
  have e: "e \<in> set (nc_lru nc)" "fst (ent nc e) = (b, k)" using d(4) f by auto
  have ent: "fst (ent nc' r) = fst (ent nc r)" "r \<noteq> e \<Longrightarrow> ent nc' r = ent nc r" for r
    by (auto simp: nc' ent_def)
  have set': "set (nc_lru nc') = set (nc_lru nc)" using d(1) e by (auto simp: nc')
  have find: "nc_find nc' = nc_find nc" by (simp add: nc' nc_find_def fun_eq_iff)
  have "distinct (nc_lru nc')" using d(1) by (simp add: nc')
  moreover have "nc_next nc' = nc_next nc" "nc_buckets nc' = nc_buckets nc" by (simp_all add: nc')
  ultimately have "neg_lens nc'"
    using d(2-4) unfolding neg_lens_def set' find ent by metis
  moreover have "length (nc_lru nc') \<le> nc_maxSize nc'"
    using i e length_pos_if_in_set [OF e(1)] by (simp add: neg_inv_def nc' length_remove1)
  ultimately show "neg_inv nc'" by (simp add: neg_inv_def)
  have "q_remove ((=) (b, k)) (neg_abs nc) = map (ent nc) (remove1 e (nc_lru nc))"
    using neg_abs_removeLocked [OF l e(1)] e(2) by (simp add: neg_abs_def)
  moreover have "\<dots> = map (ent nc') (remove1 e (nc_lru nc))" using d(1) ent(2) by (intro map_cong) auto
  moreover have "ent nc' e = ((b, k), t)" using e(2) by (simp add: nc' ent_def)
  ultimately show "neg_abs nc' = q_remove ((=) (b, k)) (neg_abs nc) @ [((b, k), t)]"
    by (simp add: neg_abs_def nc')
qed

lemma nc_Add_refines:
  assumes i: "neg_inv nc"
  shows "neg_inv (nc_Add b k now nc)"
    and "neg_abs (nc_Add b k now nc) = q_add (nc_ttl nc) (nc_maxSize nc) (b, k) now (neg_abs nc)"
    and "nc_ttl (nc_Add b k now nc) = nc_ttl nc" "nc_maxSize (nc_Add b k now nc) = nc_maxSize nc"
proof -
  have l: "neg_lens nc" and len: "length (nc_lru nc) \<le> nc_maxSize nc" using i by (simp_all add: neg_inv_def)
  let ?nc' = "nc_Add b k now nc"
  have "neg_inv ?nc' \<and> neg_abs ?nc' = q_add (nc_ttl nc) (nc_maxSize nc) (b, k) now (neg_abs nc) \<and>
    nc_ttl ?nc' = nc_ttl nc \<and> nc_maxSize ?nc' = nc_maxSize nc"
  proof (cases "nc_find nc (b, k)")
    case (Some e)
    note r = nc_Add_refresh [OF i Some refl, of "now + nc_ttl nc"]
    have "e \<in> set (nc_lru nc)" using neg_lensD(4) [OF l] Some by auto
    then have "length (q_remove ((=) (b, k)) (neg_abs nc) @ [((b, k), now + nc_ttl nc)]) \<le> nc_maxSize nc"
      using len arg_cong [OF r(2), of length] length_pos_if_in_set [of e "nc_lru nc"]
      by (simp add: neg_abs_def length_remove1 del: length_greater_0_conv)
    then show ?thesis using r Some by (simp add: nc_Add_find_cases q_add_def Let_def)
  next
    case None
    note f = nc_Add_fresh [OF l None refl refl refl, of "now + nc_ttl nc"]
    have "q_remove ((=) (b, k)) (neg_abs nc) = neg_abs nc"
      using neg_abs_map_of [OF l] None by (intro q_remove_absent) simp
    then show ?thesis using nc_trim_refines [OF f(1)] f(2) None neg_abs_length [of nc]
      by (simp add: nc_Add_find_cases q_add_def Let_def)
  qed
  then show "neg_inv ?nc'" "neg_abs ?nc' = q_add (nc_ttl nc) (nc_maxSize nc) (b, k) now (neg_abs nc)"
    "nc_ttl ?nc' = nc_ttl nc" "nc_maxSize ?nc' = nc_maxSize nc" by auto
qed

text \<open>\<open>RemovePrefix\<close> walks the bucket's map while it deletes from it.\<close>

definition under_prefix :: "string \<Rightarrow> string \<Rightarrow> string \<times> string \<Rightarrow> bool" where
  "under_prefix b p bk \<longleftrightarrow> fst bk = b \<and> HasPrefix (snd bk) p"

lemma nc_remove_matching_refines:
  "neg_inv nc \<Longrightarrow> distinct (map fst kes) \<Longrightarrow> (\<forall>(k, e) \<in> set kes. nc_find nc (b, k) = Some e) \<Longrightarrow>
     neg_inv (nc_remove_matching p kes nc) \<and>
     nc_ttl (nc_remove_matching p kes nc) = nc_ttl nc \<and>
     nc_maxSize (nc_remove_matching p kes nc) = nc_maxSize nc \<and>
     neg_abs (nc_remove_matching p kes nc) =
       q_remove (\<lambda>bk. under_prefix b p bk \<and> snd bk \<in> fst ` set kes) (neg_abs nc)"
proof (induction kes arbitrary: nc)
  case Nil
  then show ?case by (simp add: q_remove_def)
next
  case (Cons ke kes)
  obtain k e where ke: "ke = (k, e)" by (cases ke)
  have l: "neg_lens nc" using Cons.prems(1) by (simp add: neg_inv_def)
  have f: "nc_find nc (b, k) = Some e" using Cons.prems(3) ke by simp
  then have e: "e \<in> set (nc_lru nc)" "fst (ent nc e) = (b, k)" using neg_lensD(4) [OF l] by auto
  show ?case
  proof (cases "HasPrefix k p")
    case False
    then have "neg_inv (nc_remove_matching p kes nc) \<and>
        nc_ttl (nc_remove_matching p kes nc) = nc_ttl nc \<and>
        nc_maxSize (nc_remove_matching p kes nc) = nc_maxSize nc \<and>
        neg_abs (nc_remove_matching p kes nc) =
          q_remove (\<lambda>bk. under_prefix b p bk \<and> snd bk \<in> fst ` set kes) (neg_abs nc)"
      using Cons by auto
    moreover have "q_remove (\<lambda>bk. under_prefix b p bk \<and> snd bk \<in> fst ` set kes) q =
      q_remove (\<lambda>bk. under_prefix b p bk \<and> snd bk \<in> fst ` set (ke # kes)) q" for q
      using False by (auto simp: q_remove_def under_prefix_def ke intro!: filter_cong)
    ultimately show ?thesis using False by (simp add: ke)
  next
    case True
    let ?nc = "removeLocked e nc"
    have i: "neg_inv ?nc" using neg_inv_removeLocked [OF Cons.prems(1) e(1)] .
    have "\<forall>(k', e') \<in> set kes. nc_find ?nc (b, k') = Some e'"
      using Cons.prems(2,3) e(2) by (force simp: nc_find_removeLocked ke)
    from Cons.IH [OF i _ this] Cons.prems(2) have
      "neg_inv (nc_remove_matching p kes ?nc) \<and> nc_ttl (nc_remove_matching p kes ?nc) = nc_ttl nc \<and>
       nc_maxSize (nc_remove_matching p kes ?nc) = nc_maxSize nc \<and>
       neg_abs (nc_remove_matching p kes ?nc) =
         q_remove (\<lambda>bk. under_prefix b p bk \<and> snd bk \<in> fst ` set kes) (q_remove ((=) (b, k)) (neg_abs nc))"
      using neg_abs_removeLocked [OF l e(1)] e(2) by simp
    moreover have "q_remove (\<lambda>bk. under_prefix b p bk \<and> snd bk \<in> fst ` set kes) (q_remove ((=) (b, k)) q) =
      q_remove (\<lambda>bk. under_prefix b p bk \<and> snd bk \<in> fst ` set (ke # kes)) q" for q
      using True by (auto simp: q_remove_def under_prefix_def ke intro!: filter_cong)
    ultimately show ?thesis using True by (simp add: ke)
  qed
qed

lemma nc_RemovePrefix_refines:
  assumes i: "neg_inv nc"
  shows "neg_inv (nc_RemovePrefix b p nc)"
    and "neg_abs (nc_RemovePrefix b p nc) = q_remove (under_prefix b p) (neg_abs nc)"
    and "nc_ttl (nc_RemovePrefix b p nc) = nc_ttl nc" "nc_maxSize (nc_RemovePrefix b p nc) = nc_maxSize nc"
proof -
  have l: "neg_lens nc" using i by (simp add: neg_inv_def)
  have "neg_inv (nc_RemovePrefix b p nc) \<and>
    neg_abs (nc_RemovePrefix b p nc) = q_remove (under_prefix b p) (neg_abs nc) \<and>
    nc_ttl (nc_RemovePrefix b p nc) = nc_ttl nc \<and> nc_maxSize (nc_RemovePrefix b p nc) = nc_maxSize nc"
  proof (cases "map_of (nc_buckets nc) b")
    case None
    then have "nc_find nc (b, k) = None" for k by (simp add: nc_find_def)
    then have "bk \<in> fst ` set (neg_abs nc) \<Longrightarrow> \<not> under_prefix b p bk" for bk
      using neg_abs_keys [OF l, of bk] by (cases bk) (auto simp: under_prefix_def)
    then have "q_remove (under_prefix b p) (neg_abs nc) = neg_abs nc"
      by (auto simp: q_remove_def intro!: filter_True)
    then show ?thesis using None i by (simp add: nc_RemovePrefix_def)
  next
    case (Some m)
    have dm: "distinct (map fst m)" using neg_lensD(3) [OF l Some] by simp
    then have fm: "\<forall>(k, e) \<in> set m. nc_find nc (b, k) = Some e" using Some by (auto simp: nc_find_def)
    have mem: "under_prefix b p bk \<and> snd bk \<in> fst ` set m \<longleftrightarrow> under_prefix b p bk"
      if "bk \<in> fst ` set (neg_abs nc)" for bk
      using that neg_abs_keys [OF l, of bk] Some map_of_eq_None_iff [of m "snd bk"]
      by (cases bk) (auto simp: under_prefix_def nc_find_def)
    have "q_remove (\<lambda>bk. under_prefix b p bk \<and> snd bk \<in> fst ` set m) (neg_abs nc) =
        q_remove (under_prefix b p) (neg_abs nc)"
      using mem unfolding q_remove_def by (intro filter_cong) auto
    then show ?thesis using nc_remove_matching_refines [OF i dm fm, of p] Some by (simp add: nc_RemovePrefix_def)
  qed
  then show "neg_inv (nc_RemovePrefix b p nc)"
    "neg_abs (nc_RemovePrefix b p nc) = q_remove (under_prefix b p) (neg_abs nc)"
    "nc_ttl (nc_RemovePrefix b p nc) = nc_ttl nc" "nc_maxSize (nc_RemovePrefix b p nc) = nc_maxSize nc"
    by auto
qed

section \<open>Runs of the cache\<close>

datatype neg_op =
    NAdd string string time
  | NContains string string time
  | NRemove string string
  | NRemovePrefix string string
  | NReap time

fun nc_step :: "neg_op \<Rightarrow> NegCache \<Rightarrow> NegCache" where
  "nc_step (NAdd b k t) nc = nc_Add b k t nc"
| "nc_step (NContains b k t) nc = snd (nc_Contains b k t nc)"
| "nc_step (NRemove b k) nc = nc_Remove b k nc"
| "nc_step (NRemovePrefix b p) nc = nc_RemovePrefix b p nc"
| "nc_step (NReap t) nc = nc_reap t nc"

fun q_step :: "duration \<Rightarrow> nat \<Rightarrow> neg_op \<Rightarrow> neg_queue \<Rightarrow> neg_queue" where
  "q_step d m (NAdd b k t) q = q_add d m (b, k) t q"
| "q_step d m (NContains b k t) q = (if q_contains (b, k) t q then q else q_remove ((=) (b, k)) q)"
| "q_step d m (NRemove b k) q = q_remove ((=) (b, k)) q"
| "q_step d m (NRemovePrefix b p) q = q_remove (under_prefix b p) q"
| "q_step d m (NReap t) q = q_reap t q"

lemma removeLocked_keeps [simp]:
  "nc_ttl (snd (nc_Contains b k t nc)) = nc_ttl nc" "nc_maxSize (snd (nc_Contains b k t nc)) = nc_maxSize nc"
  "nc_ttl (nc_Remove b k nc) = nc_ttl nc" "nc_maxSize (nc_Remove b k nc) = nc_maxSize nc"
  by (simp_all add: Contains_find Remove_find split: option.split)

lemma nc_reap_keeps [simp]:
  "nc_ttl (nc_reap t nc) = nc_ttl nc" "nc_maxSize (nc_reap t nc) = nc_maxSize nc"
proof (induction t nc rule: nc_reap.induct)
  case (1 t nc)
  { case 1 show ?case using "1.IH"(1) by (auto simp: nc_reap.simps [of t nc] split: list.split) }
  { case 2 show ?case using "1.IH"(2) by (auto simp: nc_reap.simps [of t nc] split: list.split) }
qed

lemma nc_step_refines:
  "neg_inv nc \<Longrightarrow> neg_inv (nc_step x nc) \<and>
     neg_abs (nc_step x nc) = q_step (nc_ttl nc) (nc_maxSize nc) x (neg_abs nc) \<and>
     nc_ttl (nc_step x nc) = nc_ttl nc \<and> nc_maxSize (nc_step x nc) = nc_maxSize nc"
  using nc_Add_refines nc_Contains_refines nc_Remove_refines nc_RemovePrefix_refines nc_reap_refines
  by (cases x) auto

lemma NewNegCache_inv [simp]: "neg_inv (NewNegCache d)" "neg_abs (NewNegCache d) = []"
  "nc_ttl (NewNegCache d) = d" "nc_maxSize (NewNegCache d) = 10000"
  by (auto simp: NewNegCache_def neg_inv_def neg_lens_def nc_find_def neg_abs_def defaultNegCacheMaxSize_def)

lemma fold_nc_step_refines:
  "neg_inv nc \<Longrightarrow> neg_inv (fold nc_step ops nc) \<and>
     neg_abs (fold nc_step ops nc) = fold (q_step (nc_ttl nc) (nc_maxSize nc)) ops (neg_abs nc) \<and>
     nc_maxSize (fold nc_step ops nc) = nc_maxSize nc"
  by (induction ops arbitrary: nc) (auto simp: nc_step_refines)

section \<open>What a lookup answers\<close>

lemma neg_abs_distinct: "neg_lens nc \<Longrightarrow> distinct (map fst (neg_abs nc))"
  using neg_lensD(1) ent_inj by (auto simp: neg_abs_def distinct_map comp_def intro!: inj_onI)

lemma Contains_iff:
  assumes "neg_inv nc"
  shows "fst (nc_Contains b k t nc) \<longleftrightarrow> (\<exists>x. ((b, k), x) \<in> set (neg_abs nc) \<and> t < x)"
proof -
  have "distinct (map fst (neg_abs nc))" using assms neg_abs_distinct by (simp add: neg_inv_def)
  then have "((b, k), x) \<in> set (neg_abs nc) \<longleftrightarrow> map_of (neg_abs nc) (b, k) = Some x" for x by simp
  then show ?thesis
    unfolding nc_Contains_refines(2) [OF assms] q_contains_def by (simp split: option.split)
qed

definition neg_live :: "time \<Rightarrow> NegCache \<Rightarrow> string \<times> string \<Rightarrow> unit option" where
  "neg_live t nc bk = (if fst (nc_Contains (fst bk) (snd bk) t nc) then Some () else None)"

lemma neg_live_Some: "neg_inv nc \<Longrightarrow> neg_live t nc bk = Some u \<longleftrightarrow> (\<exists>x. (bk, x) \<in> set (neg_abs nc) \<and> t < x)"
  by (cases bk) (simp add: neg_live_def Contains_iff)

text \<open>A key or a prefix to drop; a reaper's tick or a \<open>Contains\<close>.\<close>

type_synonym neg_dropping = "string \<times> string + string \<times> string"
type_synonym neg_tidying = "time + string \<times> string \<times> time"

fun neg_drop :: "neg_dropping \<Rightarrow> NegCache \<Rightarrow> NegCache" where
  "neg_drop (Inl (b, k)) nc = nc_Remove b k nc"
| "neg_drop (Inr (b, p)) nc = nc_RemovePrefix b p nc"

fun neg_covers :: "neg_dropping \<Rightarrow> string \<times> string \<Rightarrow> bool" where
  "neg_covers (Inl bk) = (=) bk"
| "neg_covers (Inr (b, p)) = under_prefix b p"

fun neg_tidy :: "neg_tidying \<Rightarrow> NegCache \<Rightarrow> NegCache" where
  "neg_tidy (Inl t) nc = nc_reap t nc"
| "neg_tidy (Inr (b, k, t)) nc = snd (nc_Contains b k t nc)"

lemma neg_drop_refines:
  "neg_inv nc \<Longrightarrow> neg_inv (neg_drop d nc) \<and> nc_ttl (neg_drop d nc) = nc_ttl nc \<and>
     neg_abs (neg_drop d nc) = q_remove (neg_covers d) (neg_abs nc)"
  by (cases d) (auto simp: nc_Remove_refines nc_RemovePrefix_refines)

lemma neg_tidy_refines:
  "neg_inv nc \<Longrightarrow> neg_inv (neg_tidy q nc) \<and> nc_ttl (neg_tidy q nc) = nc_ttl nc \<and>
     set (neg_abs (neg_tidy q nc)) \<subseteq> set (neg_abs nc)"
  by (cases q) (auto simp: nc_reap_refines nc_Contains_refines q_remove_def q_reap_def
      split: if_splits dest: set_dropWhileD)

lemma neg_add_refines:
  "neg_inv nc \<Longrightarrow> neg_inv (nc_Add b k u nc) \<and> nc_ttl (nc_Add b k u nc) = nc_ttl nc \<and>
     set (neg_abs (nc_Add b k u nc)) \<subseteq>
       insert ((b, k), u + nc_ttl nc) {x \<in> set (neg_abs nc). fst x \<noteq> (b, k)}"
  by (auto simp: nc_Add_refines q_add_def q_remove_def Let_def dest: in_set_dropD)

interpretation neg: ttl_cache neg_live "\<lambda>u bk _. nc_Add (fst bk) (snd bk) u" neg_drop neg_covers neg_tidy
    neg_inv nc_ttl
proof (unfold_locales, goal_cases)
  case (1 s t u k v w)
  with neg_add_refines [OF 1(1), of "fst k" "snd k" u] show ?case by (force simp: neg_live_Some)
next
  case (2 s k' k t u v w)
  with neg_add_refines [OF 2(1), of "fst k" "snd k" u] show ?case by (force simp: neg_live_Some)
next
  case (3 s d k t)
  with neg_drop_refines [OF 3(1), of d] show ?case
    by (cases "neg_live t (neg_drop d s) k") (auto simp: neg_live_Some q_remove_def)
next
  case (4 s t d k' w)
  with neg_drop_refines [OF 4(1), of d] show ?case by (force simp: neg_live_Some q_remove_def)
next
  case (5 s t q k' w)
  with neg_tidy_refines [OF 5(1), of q] show ?case by (force simp: neg_live_Some)
next
  case (6 s u k v)
  then show ?case using neg_add_refines by blast
next
  case (7 s d)
  then show ?case using neg_drop_refines by blast
next
  case (8 s q)
  then show ?case using neg_tidy_refines by blast
qed

section \<open>The reaper and the order of the queue\<close>

fun stamp :: "neg_op \<Rightarrow> time list" where
  "stamp (NAdd b k t) = [t]"
| "stamp (NContains b k t) = [t]"
| "stamp (NRemove b k) = []"
| "stamp (NRemovePrefix b p) = []"
| "stamp (NReap t) = [t]"

definition chronological :: "neg_op list \<Rightarrow> bool" where
  "chronological ops \<longleftrightarrow> sorted (concat (map stamp ops))"

lemma sorted_map_drop: "sorted (map f xs) \<Longrightarrow> sorted (map f (drop n xs))"
  by (simp add: sorted_wrt_drop flip: drop_map)

lemma sorted_map_dropWhile: "sorted (map f xs) \<Longrightarrow> sorted (map f (dropWhile P xs))"
  by (metis dropWhile_eq_drop sorted_map_drop)

lemma q_step_mem: "y \<in> set (q_step d m x q) \<Longrightarrow> y \<in> set q \<or> (\<exists>t. stamp x = [t] \<and> snd y = t + d)"
  by (cases x) (auto simp: q_add_def q_remove_def q_reap_def Let_def
      split: if_splits dest!: in_set_dropD dest: set_dropWhileD)

lemma sorted_q_remove: "sorted (map snd q) \<Longrightarrow> sorted (map snd (q_remove P q))"
  by (simp add: q_remove_def sorted_filter)

lemma sorted_q_add:
  assumes "sorted (map snd q)" and "\<forall>x \<in> set q. snd x \<le> t + d"
  shows "sorted (map snd (q_add d m bk t q))"
proof -
  have "sorted (map snd (q_remove ((=) bk) q @ [(bk, t + d)]))"
    using sorted_q_remove [OF assms(1)] assms(2) by (auto simp: sorted_append q_remove_def)
  then show ?thesis unfolding q_add_def Let_def by (rule sorted_map_drop)
qed

lemma q_step_sorted:
  assumes "sorted (map snd q)" and "\<forall>x \<in> set q. snd x \<le> u + d" and "\<forall>t \<in> set (stamp x). u \<le> t"
  shows "sorted (map snd (q_step d m x q))"
    and "\<forall>y \<in> set (q_step d m x q). snd y \<le> (case stamp x of [] \<Rightarrow> u | t # _ \<Rightarrow> t) + d"
proof -
  show "sorted (map snd (q_step d m x q))"
  proof (cases x)
    case (NAdd b k t)
    then have "\<forall>y \<in> set q. snd y \<le> t + d" using assms(2,3) by fastforce
    then show ?thesis using NAdd assms(1) by (simp add: sorted_q_add)
  qed (use assms(1) in \<open>simp_all add: sorted_q_remove q_reap_def sorted_map_dropWhile\<close>)
  have "snd y \<le> (case stamp x of [] \<Rightarrow> u | t # _ \<Rightarrow> t) + d" if "y \<in> set (q_step d m x q)" for y
    using q_step_mem [OF that] assms(2,3) by (fastforce split: list.split)
  then show "\<forall>y \<in> set (q_step d m x q). snd y \<le> (case stamp x of [] \<Rightarrow> u | t # _ \<Rightarrow> t) + d" by blast
qed

lemma fold_q_sorted:
  "sorted (map snd q) \<Longrightarrow> \<forall>x \<in> set q. snd x \<le> u + d \<Longrightarrow> chronological ops \<Longrightarrow>
     \<forall>t \<in> set (concat (map stamp ops)). u \<le> t \<Longrightarrow> sorted (map snd (fold (q_step d m) ops q))"
proof (induction ops arbitrary: q u)
  case (Cons x ops)
  let ?u = "case stamp x of [] \<Rightarrow> u | t # _ \<Rightarrow> t"
  have s: "\<forall>t \<in> set (stamp x). u \<le> t" using Cons.prems(4) by auto
  note q = q_step_sorted [OF Cons.prems(1,2) s]
  have "chronological ops" "\<forall>t \<in> set (concat (map stamp ops)). ?u \<le> t"
    using Cons.prems(3,4) by (cases x; auto simp: chronological_def)+
  then show ?case using Cons.IH [OF q] by simp
qed simp

lemma dropWhile_sorted: "sorted (map f xs) \<Longrightarrow> dropWhile (\<lambda>x. \<not> t < f x) xs = filter (\<lambda>x. t < (f x :: time)) xs"
  by (induction xs) (force intro!: filter_True [symmetric])+

section \<open>Properties\<close>

text \<open>C14: the negative cache is one bounded queue. Through any sequence of operations the map
  per bucket and the shared list stay in step, at most 10000 keys are remembered, and what
  \<open>Contains\<close> answers is what the queue specification says: add moves the key to the back and
  evicts from the front, remove filters, the reaper pops expired entries from the front.\<close>

theorem neg_cache_refines_queue:
  "let nc = fold nc_step ops (NewNegCache d); q = fold (q_step d 10000) ops []
   in neg_inv nc \<and> neg_abs nc = q \<and> length q \<le> 10000 \<and> fst (nc_Contains b k t nc) = q_contains (b, k) t q"
proof -
  let ?nc = "fold nc_step ops (NewNegCache d)"
  have r: "neg_inv ?nc \<and> neg_abs ?nc = fold (q_step d 10000) ops [] \<and> nc_maxSize ?nc = 10000"
    using fold_nc_step_refines [of "NewNegCache d" ops] by simp
  then have "length (neg_abs ?nc) \<le> 10000" by (metis neg_inv_def neg_abs_length)
  with r nc_Contains_refines(2) [of ?nc b k t] show ?thesis by (simp add: Let_def)
qed

text \<open>C30: a negative answer is never older than the time to live and never survives an
  invalidation. In any sequence of operations from the empty cache (newest first), if
  \<open>Contains\<close> says that a key is absent at time \<open>t\<close>, then the last operation that concerns
  the key is an \<open>Add\<close>, not a \<open>Remove\<close> or \<open>RemovePrefix\<close> that covers it, and it was made at
  some \<open>u\<close> with \<open>t \<le> u + ttl\<close>.\<close>

theorem neg_cache_staleness:
  assumes "fst (nc_Contains b k t
    (cache_run (\<lambda>u bk _. nc_Add (fst bk) (snd bk) u) neg_drop neg_tidy (NewNegCache d) ops))"
  shows "\<exists>u. last_put neg_covers (b, k) ops = Some (u, ()) \<and> t \<le> u + d"
proof -
  have "neg_live t' (NewNegCache d) bk = None" for t' bk
    by (cases "neg_live t' (NewNegCache d) bk") (simp_all add: neg_live_Some)
  with neg.bounded_staleness [of "NewNegCache d" t ops "(b, k)" "()"] assms show ?thesis
    by (simp add: neg_live_def)
qed

theorem neg_cache_staleness_witness:
  "\<exists>u. last_put neg_covers (''b'', ''k'') [CTidy (Inl 9 :: neg_tidying), CPut 5 (''b'', ''k'') ()] = Some (u, ()) \<and> 10 \<le> u + 8"
proof (rule neg_cache_staleness)
  show "fst (nc_Contains ''b'' ''k'' 10
      (cache_run (\<lambda>u bk _. nc_Add (fst bk) (snd bk) u) neg_drop neg_tidy (NewNegCache 8)
        [CTidy (Inl 9), CPut 5 (''b'', ''k'') ()]))"
    by (simp add: nc_Contains_def nc_Add_def NewNegCache_def nc_trim.simps nc_reap.simps Let_def
        defaultNegCacheMaxSize_def)
qed

text \<open>The reaper may stop at the first entry that is still valid. When the operations
  carry the clock's times in order, one tick at \<open>t\<close> removes exactly the expired entries,
  those behind the first valid one included.\<close>

theorem neg_reap_exact:
  assumes "chronological ops"
  shows "neg_abs (nc_reap t (fold nc_step ops (NewNegCache d))) =
    filter (\<lambda>x. t < snd x) (neg_abs (fold nc_step ops (NewNegCache d)))"
proof -
  let ?nc = "fold nc_step ops (NewNegCache d)"
  obtain u where u: "\<forall>t \<in> set (concat (map stamp ops)). u \<le> t"
    using assms sorted_nth_mono unfolding chronological_def
    by (cases "concat (map stamp ops)") auto
  have r: "neg_inv ?nc" "neg_abs ?nc = fold (q_step d 10000) ops []"
    using fold_nc_step_refines [of "NewNegCache d" ops] by auto
  have "sorted (map snd (neg_abs ?nc))"
    using fold_q_sorted [OF _ _ assms u, of "[]" d 10000] r(2) by simp
  then show ?thesis using nc_reap_refines [OF r(1), of t] by (simp add: q_reap_def dropWhile_sorted)
qed

theorem neg_reap_exact_witness:
  "neg_abs (nc_reap 9 (fold nc_step [NAdd ''b'' ''k'' 1, NRemove ''b'' ''x'', NAdd ''b'' ''l'' 5] (NewNegCache 5))) =
    filter (\<lambda>x. 9 < snd x)
      (neg_abs (fold nc_step [NAdd ''b'' ''k'' 1, NRemove ''b'' ''x'', NAdd ''b'' ''l'' 5] (NewNegCache 5)))"
  by (rule neg_reap_exact) (simp add: chronological_def)

end
