(* ===== verification/Sync.thy ===== *)
theory Sync
  imports Test_Doubles Dir_Cache Neg_Cache
begin

text \<open>
  \<open>internal/catalog/sync.go\<close>: keys are split into parent and name, and the listing of a
  prefix in S3, page by page, is written to the store. The manager shares the store and the
  two caches with the catalog: the model keeps them here. S3 is the client's parameter and
  may never stop giving pages, so the loops are \<open>partial_function (option)\<close>: \<open>None\<close> is a
  call that does not return.
\<close>

section \<open>Keys\<close>

definition SplitKeyExported :: "string \<Rightarrow> string \<times> string" where
  "SplitKeyExported key =
     (let clean = TrimSuffix key ''/'';
          parent = path_Dir clean
      in (if parent = ''.'' then [] else parent @ ''/'', path_Base clean))"

definition splitKey :: "string \<Rightarrow> string \<times> string" where
  "splitKey key = SplitKeyExported key"

section \<open>State\<close>

text \<open>
  \<open>sm_stop\<close> is the stop channel as the loops see it: closed after that many more polls, or
  open for ever.
\<close>

record 'w SyncManager =
  sm_store :: Store
  sm_dirCache :: DirCache
  sm_negCache :: NegCache
  sm_interval :: duration
  sm_concurrency :: int
  sm_stop :: "nat option"
  sm_buckets :: "(string, 'w client) gomap"

definition NewSyncManager ::
  "Store \<Rightarrow> DirCache \<Rightarrow> NegCache \<Rightarrow> duration \<Rightarrow> int \<Rightarrow> 'w SyncManager" where
  "NewSyncManager store dirCache negCache interval concurrency =
     \<lparr>sm_store = store, sm_dirCache = dirCache, sm_negCache = negCache, sm_interval = interval,
      sm_concurrency = concurrency, sm_stop = None, sm_buckets = []\<rparr>"

definition sm_RegisterBucket :: "string \<Rightarrow> 'w client \<Rightarrow> 'w SyncManager \<Rightarrow> 'w SyncManager" where
  "sm_RegisterBucket name client sm = sm\<lparr>sm_buckets := AList.update name client (sm_buckets sm)\<rparr>"

text \<open>\<open>select { case <-stopCh: ...; default: }\<close>.\<close>

definition poll_stop :: "'w SyncManager \<Rightarrow> bool \<times> 'w SyncManager" where
  "poll_stop sm =
     (case sm_stop sm of
        None \<Rightarrow> (False, sm)
      | Some 0 \<Rightarrow> (True, sm)
      | Some (Suc n) \<Rightarrow> (False, sm\<lparr>sm_stop := Some n\<rparr>))"

section \<open>One page\<close>

definition prefix_entry :: "string \<Rightarrow> Entry" where
  "prefix_entry cp =
     (case splitKey cp of (parent, name) \<Rightarrow>
        \<lparr>e_Key = cp, e_Parent = parent, e_Name = name, e_Size = 0, e_ETag = [],
         e_Modified = zero_time, e_IsDir = True\<rparr>)"

definition marker_entry :: "ObjectEntry \<Rightarrow> Entry" where
  "marker_entry obj =
     (case splitKey (oe_Key obj) of (parent, name) \<Rightarrow>
        \<lparr>e_Key = oe_Key obj, e_Parent = parent, e_Name = name, e_Size = 0, e_ETag = [],
         e_Modified = oe_LastModified obj, e_IsDir = True\<rparr>)"

definition object_entry :: "ObjectEntry \<Rightarrow> Entry" where
  "object_entry obj =
     (case splitKey (oe_Key obj) of (parent, name) \<Rightarrow>
        \<lparr>e_Key = oe_Key obj, e_Parent = parent, e_Name = name, e_Size = oe_Size obj,
         e_ETag = oe_ETag obj, e_Modified = oe_LastModified obj, e_IsDir = False\<rparr>)"

text \<open>The loop over \<open>result.Objects\<close> in \<open>syncOnePrefix\<close> and the one in \<open>SyncPrefix\<close>.\<close>

fun sync_objects :: "string \<Rightarrow> ObjectEntry list \<Rightarrow> Entry list" where
  "sync_objects prefix [] = []"
| "sync_objects prefix (obj # objs) =
     (if oe_Key obj = prefix then sync_objects prefix objs
      else if HasSuffix (oe_Key obj) ''/'' then marker_entry obj # sync_objects prefix objs
      else object_entry obj # sync_objects prefix objs)"

fun prefix_objects :: "ObjectEntry list \<Rightarrow> Entry list" where
  "prefix_objects [] = []"
| "prefix_objects (obj # objs) =
     (if HasSuffix (oe_Key obj) ''/'' then prefix_objects objs
      else object_entry obj # prefix_objects objs)"

definition sync_page :: "string \<Rightarrow> ListResult \<Rightarrow> Entry list" where
  "sync_page prefix result =
     map prefix_entry (lr_CommonPrefixes result) @ sync_objects prefix (lr_Objects result)"

definition prefix_page :: "ListResult \<Rightarrow> Entry list" where
  "prefix_page result = map prefix_entry (lr_CommonPrefixes result) @ prefix_objects (lr_Objects result)"

text \<open>\<open>if len(entries) > 0\<close> the page is written in one transaction.\<close>

definition put_page :: "string \<Rightarrow> Entry list \<Rightarrow> 'w SyncManager \<Rightarrow> go_error option \<times> 'w SyncManager" where
  "put_page bucket entries sm =
     (if length entries > 0 then
        (case st_PutBatch bucket entries (sm_store sm) of (err, store) \<Rightarrow> (err, sm\<lparr>sm_store := store\<rparr>))
      else (None, sm))"

section \<open>The loops\<close>

partial_function (option) syncOnePrefix_loop ::
  "string \<Rightarrow> 'w client \<Rightarrow> string \<Rightarrow> string option \<Rightarrow> int \<Rightarrow> 'w SyncManager \<Rightarrow> 'w \<Rightarrow>
   ((int \<times> go_error option) \<times> 'w SyncManager \<times> 'w) option" where
  "syncOnePrefix_loop bucket s3c prefix token totalSynced sm w =
     (case poll_stop sm of (stopped, sm1) \<Rightarrow>
        if stopped then Some ((totalSynced, None), sm1, w)
        else (case ListObjects s3c prefix ''/'' token w of
            (Inl err, w1) \<Rightarrow> Some ((totalSynced, Some err), sm1, w1)
          | (Inr result, w1) \<Rightarrow>
              (case put_page bucket (sync_page prefix result) sm1 of
                 (Some err, sm2) \<Rightarrow> Some ((totalSynced, Some err), sm2, w1)
               | (None, sm2) \<Rightarrow>
                   (if lr_ContinuationToken result = None
                    then Some ((totalSynced + int (length (sync_page prefix result)), None), sm2, w1)
                    else syncOnePrefix_loop bucket s3c prefix (lr_ContinuationToken result)
                           (totalSynced + int (length (sync_page prefix result))) sm2 w1))))"

definition syncOnePrefix ::
  "string \<Rightarrow> 'w client \<Rightarrow> string \<Rightarrow> 'w SyncManager \<Rightarrow> 'w \<Rightarrow>
   ((int \<times> go_error option) \<times> 'w SyncManager \<times> 'w) option" where
  "syncOnePrefix bucket s3c prefix sm w = syncOnePrefix_loop bucket s3c prefix None 0 sm w"

partial_function (option) SyncPrefix_loop ::
  "string \<Rightarrow> 'w client \<Rightarrow> string \<Rightarrow> string option \<Rightarrow> 'w SyncManager \<Rightarrow> 'w \<Rightarrow>
   (go_error option \<times> 'w SyncManager \<times> 'w) option" where
  "SyncPrefix_loop bucket s3c prefix token sm w =
     (case ListObjects s3c prefix ''/'' token w of
        (Inl err, w1) \<Rightarrow> Some (Some err, sm, w1)
      | (Inr result, w1) \<Rightarrow>
          (case put_page bucket (prefix_page result) sm of
             (Some err, sm1) \<Rightarrow> Some (Some err, sm1, w1)
           | (None, sm1) \<Rightarrow>
               (if lr_ContinuationToken result = None then Some (None, sm1, w1)
                else SyncPrefix_loop bucket s3c prefix (lr_ContinuationToken result) sm1 w1)))"

definition SyncPrefix ::
  "string \<Rightarrow> string \<Rightarrow> 'w SyncManager \<Rightarrow> 'w \<Rightarrow> (go_error option \<times> 'w SyncManager \<times> 'w) option" where
  "SyncPrefix bucket prefix sm w =
     (case map_of (sm_buckets sm) bucket of
        None \<Rightarrow> Some (None, sm, w)
      | Some s3c \<Rightarrow>
          (case SyncPrefix_loop bucket s3c prefix None sm w of
             None \<Rightarrow> None
           | Some (Some err, sm1, w1) \<Rightarrow> Some (Some err, sm1, w1)
           | Some (None, sm1, w1) \<Rightarrow>
               Some (None, sm1\<lparr>sm_dirCache := dc_Invalidate bucket prefix (sm_dirCache sm1),
                               sm_negCache := nc_RemovePrefix bucket prefix (sm_negCache sm1)\<rparr>, w1)))"

text \<open>
  The directories known to the catalog, one after the other; an error in one is logged and
  the next is tried. The first component tells whether the stop channel ended the loop.
\<close>

fun syncBucket_dirs ::
  "string \<Rightarrow> 'w client \<Rightarrow> string list \<Rightarrow> 'w SyncManager \<Rightarrow> 'w \<Rightarrow> (bool \<times> 'w SyncManager \<times> 'w) option" where
  "syncBucket_dirs bucket s3c [] sm w = Some (False, sm, w)"
| "syncBucket_dirs bucket s3c (dir # dirs) sm w =
     (if dir = [] then syncBucket_dirs bucket s3c dirs sm w
      else (case poll_stop sm of (stopped, sm1) \<Rightarrow>
        if stopped then Some (True, sm1, w)
        else (case syncOnePrefix bucket s3c dir sm1 w of
                None \<Rightarrow> None
              | Some (_, sm2, w1) \<Rightarrow> syncBucket_dirs bucket s3c dirs sm2 w1)))"

definition syncBucket ::
  "string \<Rightarrow> 'w client \<Rightarrow> time \<Rightarrow> 'w SyncManager \<Rightarrow> 'w \<Rightarrow> (go_error option \<times> 'w SyncManager \<times> 'w) option" where
  "syncBucket bucket s3c start sm w =
     (case syncOnePrefix bucket s3c [] sm w of
        None \<Rightarrow> None
      | Some ((_, Some err), sm1, w1) \<Rightarrow> Some (Some err, sm1, w1)
      | Some ((_, None), sm1, w1) \<Rightarrow>
          (let knownDirs = (case st_KnownDirs bucket (sm_store sm1) of Inl err \<Rightarrow> [] | Inr dirs \<Rightarrow> dirs)
           in case syncBucket_dirs bucket s3c knownDirs sm1 w1 of
                None \<Rightarrow> None
              | Some (True, sm2, w2) \<Rightarrow> Some (None, sm2, w2)
              | Some (False, sm2, w2) \<Rightarrow>
                  Some (None,
                    sm2\<lparr>sm_store := snd (SetSyncCursor bucket [] start (sm_store sm2)),
                        sm_dirCache := dc_InvalidateAll bucket (sm_dirCache sm2)\<rparr>, w2)))"

text \<open>
  All buckets; the goroutines of one pass work on different buckets' rows, and are run one
  after the other here. An error is logged.
\<close>

fun sync_buckets ::
  "time \<Rightarrow> (string, 'w client) gomap \<Rightarrow> 'w SyncManager \<Rightarrow> 'w \<Rightarrow> ('w SyncManager \<times> 'w) option" where
  "sync_buckets now [] sm w = Some (sm, w)"
| "sync_buckets now ((name, client) # bs) sm w =
     (case syncBucket name client now sm w of
        None \<Rightarrow> None
      | Some (_, sm1, w1) \<Rightarrow> sync_buckets now bs sm1 w1)"

definition syncAll :: "time \<Rightarrow> 'w SyncManager \<Rightarrow> 'w \<Rightarrow> ('w SyncManager \<times> 'w) option" where
  "syncAll now sm w = sync_buckets now (sm_buckets sm) sm w"

section \<open>Splitting keys\<close>

text \<open>The prefix of a directory: each element with its slash.\<close>

definition dir_of :: "string list \<Rightarrow> string" where
  "dir_of ws = concat (map (\<lambda>w. w @ ''/'') ws)"

lemma dir_of_simps [simp]: "dir_of [] = []" "dir_of (w # ws) = w @ ''/'' @ dir_of ws" "dir_of (ws @ vs) = dir_of ws @ dir_of vs"
  by (simp_all add: dir_of_def)

lemma dir_of_join: "ws \<noteq> [] \<Longrightarrow> dir_of ws = join_slash ws @ ''/''"
  by (induction ws rule: join_slash.induct) auto

lemma plain_no_slash_end: "plain n \<Longrightarrow> \<not> HasSuffix (p @ n) ''/''"
  unfolding plain_def by (metis HasSuffix_single append_is_Nil_conv last_appendR last_in_set)

lemma Split_clean:
  assumes "\<forall>w \<in> set ws. plain w" and "plain n"
  shows "path_Dir (dir_of ws @ n) = (if ws = [] then ''.'' else join_slash ws)" "path_Base (dir_of ws @ n) = n"
    "join_slash ws \<noteq> ''.''"
proof -
  show "path_Dir (dir_of ws @ n) = (if ws = [] then ''.'' else join_slash ws)"
    using Dir_plain [OF assms(2)] Dir_plain_path [OF _ assms] by (simp add: dir_of_join)
  show "path_Base (dir_of ws @ n) = n"
    using Base_plain [OF assms(2)] by (cases "ws = []") (simp_all add: dir_of_join)
  show "join_slash ws \<noteq> ''.''"
  proof
    assume j: "join_slash ws = ''.''"
    then have "ws \<noteq> []" by auto
    with assms(1) have "split_slash (join_slash ws) = ws" by (intro split_join) (auto simp: plain_def)
    moreover have "split_slash ''.'' = [''.'']" by simp
    ultimately have "ws = [''.'']" using j by metis
    with assms(1) show False by (simp add: plain_def)
  qed
qed

lemma SplitKey_file:
  "\<forall>w \<in> set ws. plain w \<Longrightarrow> plain n \<Longrightarrow> SplitKeyExported (dir_of ws @ n) = (dir_of ws, n)"
  using Split_clean [of ws n] plain_no_slash_end [of n "dir_of ws"]
  by (simp add: SplitKeyExported_def TrimSuffix_no dir_of_join Let_def)

lemma SplitKey_dir:
  "\<forall>w \<in> set ws. plain w \<Longrightarrow> plain n \<Longrightarrow> SplitKeyExported (dir_of ws @ n @ ''/'') = (dir_of ws, n)"
  using Split_clean [of ws n] TrimSuffix_append [of "dir_of ws @ n" "''/''"]
  by (simp add: SplitKeyExported_def dir_of_join Let_def)

text \<open>Splitting a key inverts joining. For a directory of plain elements and a plain
  name, both the file's key and the directory's key (with its slash) split into exactly that
  directory and name, so a file's parent and name always rebuild its key.\<close>

theorem SplitKey_roundtrip:
  assumes "\<forall>w \<in> set ws. plain w" and "plain n"
  shows "SplitKeyExported (dir_of ws @ n) = (dir_of ws, n) \<and>
    SplitKeyExported (dir_of ws @ n @ ''/'') = (dir_of ws, n)"
  using SplitKey_file [OF assms] SplitKey_dir [OF assms] by blast

theorem SplitKey_roundtrip_witness:
  "SplitKeyExported (dir_of [''a'', ''b''] @ ''c.txt'') = (''a/b/'', ''c.txt'')"
  using SplitKey_roundtrip [of "[''a'', ''b'']" "''c.txt''"] by (simp add: plain_def)

section \<open>What a synchronisation does to the store\<close>

lemma batch_row_append: "batch_row b (xs @ ys) = batch_row b xs ++ batch_row b ys"
  by (rule ext) (simp add: batch_row_def map_add_def find_append split: option.split)

lemma batch_row_Nil [simp]: "batch_row b [] = Map.empty"
  by (simp add: batch_row_def fun_eq_iff)

lemma batch_row_other: "fst bk \<noteq> b \<Longrightarrow> batch_row b es bk = None"
  by (auto simp: batch_row_def find_None_iff)

text \<open>Rows of one bucket are added or replaced.\<close>

definition grows :: "string \<Rightarrow> Store \<Rightarrow> Store \<Rightarrow> bool" where
  "grows b s s' \<longleftrightarrow> (st_wf s \<longrightarrow> st_wf s' \<and> sql_fault s' = sql_fault s \<and>
     (\<forall>bk. fst bk \<noteq> b \<longrightarrow> st_map s' bk = st_map s bk) \<and>
     (\<forall>bk. st_map s bk \<noteq> None \<longrightarrow> st_map s' bk \<noteq> None))"

lemma grows_refl [simp]: "grows b s s"
  by (simp add: grows_def)

lemma grows_trans: "grows b s s' \<Longrightarrow> grows b s' s'' \<Longrightarrow> grows b s s''"
  unfolding grows_def by metis

lemma put_page_grows: "put_page b es sm = (r, sm') \<Longrightarrow> grows b (sm_store sm) (sm_store sm')"
proof -
  assume p: "put_page b es sm = (r, sm')"
  show ?thesis
  proof (cases "es = []")
    case True
    with p show ?thesis by (simp add: put_page_def)
  next
    case False
    obtain err store where b: "st_PutBatch b es (sm_store sm) = (err, store)" by (metis surj_pair)
    with p False have "sm_store sm' = store" by (auto simp: put_page_def)
    with st_PutBatch_step [OF _ b] show ?thesis
      by (auto simp: grows_def batch_row_other map_add_def split: option.split)
  qed
qed

lemma put_page_frame: "put_page b es sm = (r, sm') \<Longrightarrow> sm' = sm\<lparr>sm_store := sm_store sm'\<rparr>"
  by (auto simp: put_page_def split: if_splits prod.splits)

lemma poll_stop_keeps [simp]:
  "sm_store (snd (poll_stop sm)) = sm_store sm" "sm_dirCache (snd (poll_stop sm)) = sm_dirCache sm"
  "sm_negCache (snd (poll_stop sm)) = sm_negCache sm" "sm_buckets (snd (poll_stop sm)) = sm_buckets sm"
  by (simp_all add: poll_stop_def split: option.split nat.split)

lemma poll_stop_frame: "poll_stop sm = (x, sm') \<Longrightarrow> sm' = sm\<lparr>sm_stop := sm_stop sm'\<rparr>"
  by (auto simp: poll_stop_def split: option.splits nat.splits)

text \<open>A pass on the bucket changes the store and leaves the two caches alone.\<close>

definition sync_frame :: "string \<Rightarrow> 'w SyncManager \<Rightarrow> 'w SyncManager \<Rightarrow> bool" where
  "sync_frame b sm sm' \<longleftrightarrow> grows b (sm_store sm) (sm_store sm') \<and> sm_negCache sm' = sm_negCache sm \<and>
     sm_dirCache sm' = sm_dirCache sm"

lemma sync_frame_refl [simp]: "sync_frame b sm sm"
  by (simp add: sync_frame_def)

lemma sync_frame_trans: "sync_frame b sm sm' \<Longrightarrow> sync_frame b sm' sm'' \<Longrightarrow> sync_frame b sm sm''"
  by (auto simp: sync_frame_def intro: grows_trans)

lemma put_page_sync_frame: "put_page b es sm = (r, sm') \<Longrightarrow> sync_frame b sm sm'"
  by (auto simp: sync_frame_def put_page_grows) (auto simp: put_page_def split: if_splits prod.splits)

lemma poll_stop_sync_frame: "poll_stop sm = (x, sm') \<Longrightarrow> sync_frame b sm sm'"
  using poll_stop_keeps [of sm] by (simp add: sync_frame_def)

lemma syncOnePrefix_loop_frame:
  "syncOnePrefix_loop b c p t n sm w = Some res \<Longrightarrow> sync_frame b sm (fst (snd res))"
proof (rule syncOnePrefix_loop.raw_induct
    [where P = "\<lambda>b c p t n sm w res. sync_frame b sm (fst (snd res))"], goal_cases)
  case (1 loop b c p t n sm w res)
  obtain st sm1 where poll: "poll_stop sm = (st, sm1)" by (metis surj_pair)
  note f1 = poll_stop_sync_frame [OF poll, of b]
  obtain ans w1 where ls: "ListObjects c p ''/'' t w = (ans, w1)" by (metis surj_pair)
  show ?case
  proof (cases "st \<or> isl ans")
    case True
    with 1(3) poll ls f1 show ?thesis by (cases ans) (auto split: if_splits)
  next
    case False
    then obtain r where r: "ans = Inr r" and st: "\<not> st" by (cases ans) auto
    obtain e sm2 where put: "put_page b (sync_page p r) sm1 = (e, sm2)" by (metis surj_pair)
    have g: "sync_frame b sm sm2" using sync_frame_trans [OF f1 put_page_sync_frame [OF put]] .
    show ?thesis
    proof (cases "e = None \<and> lr_ContinuationToken r \<noteq> None")
      case True
      with 1(3) poll ls put r st have "loop b c p (lr_ContinuationToken r)
          (n + int (length (sync_page p r))) sm2 w1 = Some res" by simp
      from 1(2) [OF this] g show ?thesis by (metis sync_frame_trans)
    next
      case False
      with 1(3) poll ls put r st g show ?thesis by (auto split: option.splits if_splits)
    qed
  qed
qed

lemma syncOnePrefix_frame: "syncOnePrefix b c p sm w = Some (r, sm', w') \<Longrightarrow> sync_frame b sm sm'"
  using syncOnePrefix_loop_frame [of b c p None 0 sm w "(r, sm', w')"] by (simp add: syncOnePrefix_def)

lemma syncBucket_dirs_frame: "syncBucket_dirs b c ds sm w = Some (x, sm', w') \<Longrightarrow> sync_frame b sm sm'"
proof (induction ds arbitrary: sm w)
  case (Cons d ds)
  obtain st sm1 where poll: "poll_stop sm = (st, sm1)" by (metis surj_pair)
  note f1 = poll_stop_sync_frame [OF poll, of b]
  show ?case
  proof (cases "d = [] \<or> st")
    case True
    with Cons poll f1 show ?thesis by (auto split: if_splits)
  next
    case False
    with Cons.prems poll obtain y sm2 w1 where o: "syncOnePrefix b c d sm1 w = Some (y, sm2, w1)"
      and r: "syncBucket_dirs b c ds sm2 w1 = Some (x, sm', w')" by (auto split: option.splits)
    show ?thesis using sync_frame_trans [OF f1 sync_frame_trans [OF syncOnePrefix_frame [OF o] Cons.IH [OF r]]] .
  qed
qed simp

lemma SetSyncCursor_grows: "grows b s (snd (SetSyncCursor b' p t s))"
  by (auto simp: grows_def SetSyncCursor_def st_wf_def st_map_def simp del: map_of_eq_Some_iff split: option.split)

lemma syncBucket_frame:
  assumes "syncBucket b c start sm w = Some (r, sm', w')"
  shows "grows b (sm_store sm) (sm_store sm')" "sm_negCache sm' = sm_negCache sm"
    "sm_dirCache sm' = sm_dirCache sm \<or> sm_dirCache sm' = dc_InvalidateAll b (sm_dirCache sm)"
proof -
  obtain n e sm1 w1 where o: "syncOnePrefix b c [] sm w = Some ((n, e), sm1, w1)"
    using assms(1) by (auto simp: syncBucket_def split: option.splits)
  have "\<exists>sm2. sync_frame b sm sm2 \<and> (sm' = sm2 \<or> sm' = sm2\<lparr>sm_store := snd (SetSyncCursor b [] start (sm_store sm2)),
      sm_dirCache := dc_InvalidateAll b (sm_dirCache sm2)\<rparr>)"
  proof (cases e)
    case (Some err)
    with assms(1) o show ?thesis using syncOnePrefix_frame [OF o] by (auto simp: syncBucket_def)
  next
    case None
    let ?ds = "case st_KnownDirs b (sm_store sm1) of Inl err \<Rightarrow> [] | Inr dirs \<Rightarrow> dirs"
    obtain x sm2 w2 where d: "syncBucket_dirs b c ?ds sm1 w1 = Some (x, sm2, w2)"
      using assms(1) o None by (auto simp: syncBucket_def Let_def split: option.splits)
    then show ?thesis
      using assms(1) o None sync_frame_trans [OF syncOnePrefix_frame [OF o] syncBucket_dirs_frame [OF d]]
      by (intro exI [of _ sm2]) (cases x; auto simp: syncBucket_def Let_def)
  qed
  then show "grows b (sm_store sm) (sm_store sm')" "sm_negCache sm' = sm_negCache sm"
    "sm_dirCache sm' = sm_dirCache sm \<or> sm_dirCache sm' = dc_InvalidateAll b (sm_dirCache sm)"
    by (auto simp: sync_frame_def intro: grows_trans [OF _ SetSyncCursor_grows])
qed

text \<open>A synchronisation pass never removes a row and never touches another bucket.
  Whatever S3 and the database answer, and whether or not the pass is stopped or fails, when
  \<open>syncBucket\<close> returns every row the bucket had is still there, and every other bucket's rows
  are as they were. In particular an object deleted in S3 by someone else stays in the
  catalog.\<close>

theorem syncBucket_keeps_rows:
  assumes "syncBucket b c start sm w = Some (r, sm', w')" and "st_wf (sm_store sm)"
  shows "(st_map (sm_store sm) (b, k) \<noteq> None \<longrightarrow> st_map (sm_store sm') (b, k) \<noteq> None) \<and>
    (b' \<noteq> b \<longrightarrow> st_map (sm_store sm') (b', k) = st_map (sm_store sm) (b', k))"
  using syncBucket_frame(1) [OF assms(1)] assms(2) by (auto simp: grows_def)

text \<open>A bucket with one file in one directory.\<close>

definition demo_client :: "mem_world client" where
  "demo_client = \<lparr>c_inner = mem_s3, c_bucket = ''b''\<rparr>"

definition demo_world :: mem_world where
  "demo_world = [((''b'', ''d/f''), ''xyz'', 1500000001)]"

definition demo_sync :: "mem_world SyncManager" where
  "demo_sync = sm_RegisterBucket ''b'' demo_client (NewSyncManager empty_store (NewDirCache 8) (NewNegCache 8) 60 2)"

lemma demo_sync_simps [simp]:
  "sm_store demo_sync = empty_store" "map_of (sm_buckets demo_sync) ''b'' = Some demo_client"
  "sm_negCache demo_sync = NewNegCache 8" "sm_dirCache demo_sync = NewDirCache 8"
  by (simp_all add: demo_sync_def sm_RegisterBucket_def NewSyncManager_def)

definition demo_one_row :: Store where
  "demo_one_row = snd (st_Put ''b'' demo_store_entry empty_store)"

lemma demo_one_row: "st_wf demo_one_row" "st_map demo_one_row (''b'', ''d/f'') \<noteq> None"
  using st_Put_step [OF empty_store_wf(1) surjective_pairing, of "''b''" demo_store_entry]
  by (simp_all add: demo_one_row_def st_Put_def empty_store_def demo_store_entry_def)

lemma demo_syncBucket:
  "\<exists>sm'. syncBucket ''b'' demo_client 5 (demo_sync\<lparr>sm_store := demo_one_row\<rparr>) [] = Some (None, sm', [])"
  by (simp add: syncBucket_def syncOnePrefix_def syncOnePrefix_loop.simps poll_stop_def demo_sync_def
      sm_RegisterBucket_def NewSyncManager_def ListObjects_def demo_client_def mem_s3_def listed_def
      sync_page_def put_page_def st_KnownDirs_def demo_one_row_def st_Put_def empty_store_def
      demo_store_entry_def row_of_def boolToInt_def Let_def)

theorem syncBucket_keeps_rows_witness:
  "\<exists>sm'. syncBucket ''b'' demo_client 5 (demo_sync\<lparr>sm_store := demo_one_row\<rparr>) [] = Some (None, sm', []) \<and>
     st_map (sm_store sm') (''b'', ''d/f'') \<noteq> None"
proof -
  obtain sm' where sm': "syncBucket ''b'' demo_client 5 (demo_sync\<lparr>sm_store := demo_one_row\<rparr>) [] = Some (None, sm', [])"
    using demo_syncBucket by (elim exE)
  from syncBucket_keeps_rows [OF this, of "''d/f''"] demo_one_row have "st_map (sm_store sm') (''b'', ''d/f'') \<noteq> None"
    by simp
  with sm' show ?thesis by (intro exI [of _ sm'] conjI)
qed

section \<open>A complete listing\<close>

text \<open>The pages S3 gives, if the last of them comes within \<open>n\<close> requests and none fails.\<close>

fun list_pages :: "nat \<Rightarrow> 'w client \<Rightarrow> string \<Rightarrow> string option \<Rightarrow> 'w \<Rightarrow> (ListResult list \<times> 'w) option" where
  "list_pages 0 c p t w = None"
| "list_pages (Suc n) c p t w =
     (case ListObjects c p ''/'' t w of
        (Inl _, _) \<Rightarrow> None
      | (Inr r, w1) \<Rightarrow>
          if lr_ContinuationToken r = None then Some ([r], w1)
          else map_option (\<lambda>(rs, w2). (r # rs, w2)) (list_pages n c p (lr_ContinuationToken r) w1))"

lemma put_page_ok:
  assumes "st_wf (sm_store sm)" and "sql_faultfree (sm_store sm)"
  obtains sm' where "put_page b es sm = (None, sm')" "st_wf (sm_store sm')" "sql_faultfree (sm_store sm')"
    "st_map (sm_store sm') = st_map (sm_store sm) ++ batch_row b es" "sm' = sm\<lparr>sm_store := sm_store sm'\<rparr>"
proof (cases "es = []")
  case True
  then show ?thesis using that [of sm] assms by (simp add: put_page_def)
next
  case False
  obtain store where b: "st_PutBatch b es (sm_store sm) = (None, store)"
    using st_PutBatch_ok [OF assms(2), of b es] by (metis prod.collapse)
  then show ?thesis
    using that [of "sm\<lparr>sm_store := store\<rparr>"] st_PutBatch_step [OF assms(1) b] assms(2) False
    by (simp add: put_page_def sql_faultfree_def)
qed

lemma SyncPrefix_loop_pages:
  "list_pages n c p t w = Some (rs, w') \<Longrightarrow> st_wf (sm_store sm) \<Longrightarrow> sql_faultfree (sm_store sm) \<Longrightarrow>
   \<exists>store. SyncPrefix_loop b c p t sm w = Some (None, sm\<lparr>sm_store := store\<rparr>, w') \<and> st_wf store \<and>
     st_map store = st_map (sm_store sm) ++ batch_row b (concat (map prefix_page rs))"
proof (induction n c p t w arbitrary: sm rs rule: list_pages.induct)
  case (2 n c p t w)
  obtain r w1 where ls: "ListObjects c p ''/'' t w = (Inr r, w1)"
    using "2.prems"(1) by (auto split: prod.splits sum.splits)
  obtain sm1 where put: "put_page b (prefix_page r) sm = (None, sm1)" "st_wf (sm_store sm1)"
      "sql_faultfree (sm_store sm1)" "st_map (sm_store sm1) = st_map (sm_store sm) ++ batch_row b (prefix_page r)"
      "sm1 = sm\<lparr>sm_store := sm_store sm1\<rparr>"
    using put_page_ok [OF "2.prems"(2,3)] by blast
  show ?case
  proof (cases "lr_ContinuationToken r")
    case None
    with "2.prems"(1) ls put show ?thesis
      by (subst SyncPrefix_loop.simps) (auto intro!: exI [of _ "sm_store sm1"])
  next
    case (Some t')
    then obtain rs' where rest: "list_pages n c p (lr_ContinuationToken r) w1 = Some (rs', w')" "rs = r # rs'"
      using "2.prems"(1) ls by auto
    from "2.IH" [OF ls [symmetric] refl _ rest(1) put(2,3)] Some obtain store where
      "SyncPrefix_loop b c p (lr_ContinuationToken r) sm1 w1 = Some (None, sm1\<lparr>sm_store := store\<rparr>, w')"
      "st_wf store" "st_map store = st_map (sm_store sm1) ++ batch_row b (concat (map prefix_page rs'))"
      by auto
    moreover have "sm1\<lparr>sm_store := store\<rparr> = sm\<lparr>sm_store := store\<rparr>"
      using arg_cong [OF put(5), of "sm_store_update (\<lambda>_. store)"] by simp
    ultimately show ?thesis using ls put(1,4) Some rest(2)
      by (subst SyncPrefix_loop.simps) (auto simp: batch_row_append intro!: exI [of _ store])
  qed
qed simp



end
