(* ===== verification/Catalog.thy ===== *)
theory Catalog
  imports Sync
begin

text \<open>
  \<open>internal/catalog/catalog.go\<close>: the catalog in front of the store. The struct's pointers to
  the store and the two caches are shared with its sync manager, so the sync manager's record
  is the catalog's state. \<open>singleflight\<close> runs its function once for the callers that arrive
  together; one call here is one run of the function.
\<close>

section \<open>State\<close>

type_synonym 'w Catalog = "'w SyncManager"

record catalog_config =
  cc_DBPath :: string
  cc_SyncInterval :: duration
  cc_NegCacheTTL :: duration
  cc_DirCacheTTL :: duration
  cc_SyncConcurrency :: int

definition cat_New ::
  "(sql_stmt \<Rightarrow> go_error option) \<Rightarrow>
   (string \<Rightarrow> ((object_key, row) gomap \<times> (string \<times> string, int) gomap) option) \<Rightarrow>
   catalog_config \<Rightarrow> go_error + 'w Catalog" where
  "cat_New flt disk cfg =
     (case NewStore flt (disk (cc_DBPath cfg)) of
        Inl err \<Rightarrow> Inl (wrapf ''open catalog store'' err)
      | Inr store \<Rightarrow>
          Inr (NewSyncManager store (NewDirCache (cc_DirCacheTTL cfg)) (NewNegCache (cc_NegCacheTTL cfg))
                 (cc_SyncInterval cfg) (cc_SyncConcurrency cfg)))"

definition DefaultDBPath :: "string \<Rightarrow> string" where
  "DefaultDBPath cacheDir = filepath_Join [cacheDir, ''catalog.db'']"

definition cat_RegisterBucket :: "string \<Rightarrow> 'w client \<Rightarrow> 'w Catalog \<Rightarrow> 'w Catalog" where
  "cat_RegisterBucket name client c = sm_RegisterBucket name client c"

section \<open>Reading\<close>

definition cat_ListDir :: "string \<Rightarrow> string \<Rightarrow> time \<Rightarrow> 'w Catalog \<Rightarrow> (go_error + Entry list) \<times> 'w Catalog" where
  "cat_ListDir bucket parent now c =
     (case dc_Get bucket parent now (sm_dirCache c) of
        Some cached \<Rightarrow> (Inr cached, c)
      | None \<Rightarrow>
          (case st_ListDir bucket parent (sm_store c) of
             Inl err \<Rightarrow> (Inl err, c)
           | Inr entries \<Rightarrow>
               (Inr entries, c\<lparr>sm_dirCache := dc_Set bucket parent entries now (sm_dirCache c)\<rparr>)))"

text \<open>The first entry of a cached listing with the name.\<close>

definition cached_child :: "string \<Rightarrow> string \<Rightarrow> time \<Rightarrow> DirCache \<Rightarrow> Entry option" where
  "cached_child bucket key now dc =
     (case SplitKeyExported key of (parent, name) \<Rightarrow>
        (case dc_Get bucket parent now dc of
           None \<Rightarrow> None
         | Some cached \<Rightarrow> List.find (\<lambda>e. e_Name e = name) cached))"

definition cat_Lookup :: "string \<Rightarrow> string \<Rightarrow> time \<Rightarrow> 'w Catalog \<Rightarrow> (go_error + Entry option) \<times> 'w Catalog" where
  "cat_Lookup bucket key now c =
     (case nc_Contains bucket key now (sm_negCache c) of
        (True, nc) \<Rightarrow> (Inr None, c\<lparr>sm_negCache := nc\<rparr>)
      | (False, nc) \<Rightarrow>
          (let c = c\<lparr>sm_negCache := nc\<rparr>
           in case cached_child bucket key now (sm_dirCache c) of
                Some e \<Rightarrow> (Inr (Some e), c)
              | None \<Rightarrow>
                  (case st_Lookup bucket key (sm_store c) of
                     Inl err \<Rightarrow> (Inl err, c)
                   | Inr (Some e) \<Rightarrow> (Inr (Some e), c)
                   | Inr None \<Rightarrow>
                       (Inr None, c\<lparr>sm_negCache := nc_Add bucket key now (sm_negCache c)\<rparr>))))"

definition cat_HasDir :: "string \<Rightarrow> string \<Rightarrow> 'w Catalog \<Rightarrow> go_error + bool" where
  "cat_HasDir bucket parent c = st_HasDir bucket parent (sm_store c)"

definition cat_Count :: "string \<Rightarrow> 'w Catalog \<Rightarrow> go_error + int" where
  "cat_Count bucket c = st_Count bucket (sm_store c)"

section \<open>Writing\<close>

definition cat_Put :: "string \<Rightarrow> Entry \<Rightarrow> 'w Catalog \<Rightarrow> go_error option \<times> 'w Catalog" where
  "cat_Put bucket e c =
     (case st_Put bucket e (sm_store c) of
        (Some err, store) \<Rightarrow> (Some err, c\<lparr>sm_store := store\<rparr>)
      | (None, store) \<Rightarrow>
          (None, c\<lparr>sm_store := store,
                   sm_negCache := nc_Remove bucket (e_Key e) (sm_negCache c),
                   sm_dirCache := dc_Invalidate bucket (e_Parent e) (sm_dirCache c)\<rparr>))"

text \<open>\<open>seen\<close> is the set \<open>seenParents\<close>.\<close>

fun forget_entries :: "string \<Rightarrow> Entry list \<Rightarrow> string list \<Rightarrow> 'w Catalog \<Rightarrow> 'w Catalog" where
  "forget_entries bucket [] seen c = c"
| "forget_entries bucket (e # es) seen c =
     (let c = c\<lparr>sm_negCache := nc_Remove bucket (e_Key e) (sm_negCache c)\<rparr>
      in if e_Parent e \<in> set seen then forget_entries bucket es seen c
         else forget_entries bucket es (e_Parent e # seen)
                (c\<lparr>sm_dirCache := dc_Invalidate bucket (e_Parent e) (sm_dirCache c)\<rparr>))"

definition cat_PutBatch :: "string \<Rightarrow> Entry list \<Rightarrow> 'w Catalog \<Rightarrow> go_error option \<times> 'w Catalog" where
  "cat_PutBatch bucket entries c =
     (case st_PutBatch bucket entries (sm_store c) of
        (Some err, store) \<Rightarrow> (Some err, c\<lparr>sm_store := store\<rparr>)
      | (None, store) \<Rightarrow> (None, forget_entries bucket entries [] (c\<lparr>sm_store := store\<rparr>)))"

text \<open>The error of the first lookup is dropped: then the cached listing stays.\<close>

definition cat_Delete :: "string \<Rightarrow> string \<Rightarrow> 'w Catalog \<Rightarrow> go_error option \<times> 'w Catalog" where
  "cat_Delete bucket key c =
     (let entry = (case st_Lookup bucket key (sm_store c) of Inl _ \<Rightarrow> None | Inr x \<Rightarrow> x)
      in case st_Delete bucket key (sm_store c) of
           (Some err, store) \<Rightarrow> (Some err, c\<lparr>sm_store := store\<rparr>)
         | (None, store) \<Rightarrow>
             (None, c\<lparr>sm_store := store,
                      sm_negCache := nc_Remove bucket key (sm_negCache c),
                      sm_dirCache := (case entry of
                          None \<Rightarrow> sm_dirCache c
                        | Some e \<Rightarrow> dc_Invalidate bucket (e_Parent e) (sm_dirCache c))\<rparr>))"

definition cat_DeletePrefix :: "string \<Rightarrow> string \<Rightarrow> 'w Catalog \<Rightarrow> go_error option \<times> 'w Catalog" where
  "cat_DeletePrefix bucket prefix c =
     (case st_DeletePrefix bucket prefix (sm_store c) of
        (Some err, store) \<Rightarrow> (Some err, c\<lparr>sm_store := store\<rparr>)
      | (None, store) \<Rightarrow>
          (None, c\<lparr>sm_store := store,
                   sm_negCache := nc_RemovePrefix bucket prefix (sm_negCache c),
                   sm_dirCache := dc_InvalidateAll bucket (sm_dirCache c)\<rparr>))"

definition cat_SyncPrefix ::
  "string \<Rightarrow> string \<Rightarrow> 'w Catalog \<Rightarrow> 'w \<Rightarrow> (go_error option \<times> 'w Catalog \<times> 'w) option" where
  "cat_SyncPrefix bucket prefix c w = SyncPrefix bucket prefix c w"

section \<open>Coherence of the caches with the store\<close>

definition entry_split :: "Entry \<Rightarrow> bool" where
  "entry_split e \<longleftrightarrow> (e_Parent e, e_Name e) = SplitKeyExported (e_Key e)"

definition rows_split :: "Store \<Rightarrow> bool" where
  "rows_split s \<longleftrightarrow> (\<forall>b k r. st_map s (b, k) = Some r \<longrightarrow> (r_parent r, r_name r) = SplitKeyExported k)"

text \<open>The rows of one directory, as entries.\<close>

definition children :: "Store \<Rightarrow> string \<Rightarrow> string \<Rightarrow> Entry set" where
  "children s b p = {entry_of k r | k r. st_map s (b, k) = Some r \<and> r_parent r = p}"

definition neg_sound :: "Store \<Rightarrow> NegCache \<Rightarrow> bool" where
  "neg_sound s nc \<longleftrightarrow> (\<forall>b k x. ((b, k), x) \<in> set (neg_abs nc) \<longrightarrow> st_map s (b, k) = None)"

definition dir_sound :: "Store \<Rightarrow> DirCache \<Rightarrow> bool" where
  "dir_sound s dc \<longleftrightarrow> (\<forall>b p e. dc_find dc (b, p) = Some e \<longrightarrow> set (de_entries e) = children s b p)"

definition coherent :: "'w Catalog \<Rightarrow> bool" where
  "coherent c \<longleftrightarrow> st_wf (sm_store c) \<and> neg_inv (sm_negCache c) \<and> dc_inv (sm_dirCache c) \<and>
     rows_split (sm_store c) \<and> neg_sound (sm_store c) (sm_negCache c) \<and> dir_sound (sm_store c) (sm_dirCache c)"

lemma coherentD:
  assumes "coherent c"
  shows "st_wf (sm_store c)" "neg_inv (sm_negCache c)" "dc_inv (sm_dirCache c)" "rows_split (sm_store c)"
    "neg_sound (sm_store c) (sm_negCache c)" "dir_sound (sm_store c) (sm_dirCache c)"
  using assms by (simp_all add: coherent_def)

text \<open>A write to the keys of \<open>ks\<close> keeps coherence if the caches forget what it concerns.\<close>

lemma coherent_write:
  assumes c: "coherent c" and wf: "st_wf s'" "rows_split s'"
    and frame: "\<And>bk. bk \<notin> ks \<Longrightarrow> st_map s' bk = st_map (sm_store c) bk"
    and nc: "neg_inv nc'" "set (neg_abs nc') \<subseteq> set (neg_abs (sm_negCache c))"
      "\<And>bk x. (bk, x) \<in> set (neg_abs nc') \<Longrightarrow> bk \<in> ks \<Longrightarrow> st_map s' bk = None"
    and dc: "dc_inv dc'" "\<And>bp e. dc_find dc' bp = Some e \<Longrightarrow> dc_find (sm_dirCache c) bp = Some e"
      "\<And>b k. (b, k) \<in> ks \<Longrightarrow> dc_find dc' (b, fst (SplitKeyExported k)) = None"
  shows "coherent (c\<lparr>sm_store := s', sm_negCache := nc', sm_dirCache := dc'\<rparr>)"
proof -
  note cD = coherentD [OF c]
  have "neg_sound s' nc'"
    unfolding neg_sound_def
  proof (intro allI impI)
    fix b k x assume h: "((b, k), x) \<in> set (neg_abs nc')"
    then have "st_map (sm_store c) (b, k) = None" using nc(2) cD(5) by (auto simp: neg_sound_def)
    then show "st_map s' (b, k) = None" using frame [of "(b, k)"] nc(3) [OF h] by metis
  qed
  moreover have "dir_sound s' dc'"
    unfolding dir_sound_def
  proof (intro allI impI)
    fix b p e assume h: "dc_find dc' (b, p) = Some e"
    have same: "st_map s' (b, k) = st_map (sm_store c) (b, k)" if "fst (SplitKeyExported k) = p" for k
      using that h dc(3) [of b k] frame [of "(b, k)"] by fastforce
    have parent: "r_parent r = fst (SplitKeyExported k)" if "st_map (sm_store c) (b, k) = Some r \<or> st_map s' (b, k) = Some r" for k r
      using that wf(2) cD(4) unfolding rows_split_def by (metis fst_conv)
    have "children s' b p = children (sm_store c) b p"
      unfolding children_def using same parent by fastforce
    with dc(2) [OF h] cD(6) show "set (de_entries e) = children s' b p" by (simp add: dir_sound_def)
  qed
  ultimately show ?thesis using wf nc(1) dc(1) by (simp add: coherent_def)
qed

lemma entry_split_row: "entry_split e \<Longrightarrow> (r_parent (row_of e), r_name (row_of e)) = SplitKeyExported (e_Key e)"
  by (simp add: entry_split_def row_of_def)

lemma entry_split_parent: "entry_split e \<Longrightarrow> fst (SplitKeyExported (e_Key e)) = e_Parent e"
  unfolding entry_split_def by (metis fst_conv)

lemma cat_Put_coherent:
  assumes c: "coherent c" and e: "entry_split e"
  shows "coherent (snd (cat_Put b e c))"
proof -
  obtain r s' where p: "st_Put b e (sm_store c) = (r, s')" by (metis surj_pair)
  note cD = coherentD [OF c] and st = st_Put_step [OF coherentD(1) [OF c] p]
  show ?thesis
  proof (cases r)
    case (Some err)
    then have "s' = sm_store c" using p by (auto simp: st_Put_def split: option.splits)
    with c p Some show ?thesis by (simp add: cat_Put_def)
  next
    case None
    have "coherent (c\<lparr>sm_store := s', sm_negCache := nc_Remove b (e_Key e) (sm_negCache c),
        sm_dirCache := dc_Invalidate b (e_Parent e) (sm_dirCache c)\<rparr>)"
    proof (rule coherent_write [OF c, where ks = "{(b, e_Key e)}"])
      show "st_wf s'" using st by simp
      show "rows_split s'" using st None cD(4) entry_split_row [OF e] by (auto simp: rows_split_def)
      show "\<And>bk. bk \<notin> {(b, e_Key e)} \<Longrightarrow> st_map s' bk = st_map (sm_store c) bk" using st None by simp
      show "neg_inv (nc_Remove b (e_Key e) (sm_negCache c))"
        "set (neg_abs (nc_Remove b (e_Key e) (sm_negCache c))) \<subseteq> set (neg_abs (sm_negCache c))"
        "\<And>bk x. (bk, x) \<in> set (neg_abs (nc_Remove b (e_Key e) (sm_negCache c))) \<Longrightarrow> bk \<in> {(b, e_Key e)} \<Longrightarrow>
           st_map s' bk = None"
        using nc_Remove_refines [OF cD(2), of b "e_Key e"] by (auto simp: q_remove_def)
      show "dc_inv (dc_Invalidate b (e_Parent e) (sm_dirCache c))" using cD(3) by (rule dc_inv_step)
      show "\<And>bp x. dc_find (dc_Invalidate b (e_Parent e) (sm_dirCache c)) bp = Some x \<Longrightarrow>
          dc_find (sm_dirCache c) bp = Some x"
        by (auto simp: dc_Invalidate_find split: if_splits)
      show "\<And>b' k. (b', k) \<in> {(b, e_Key e)} \<Longrightarrow>
          dc_find (dc_Invalidate b (e_Parent e) (sm_dirCache c)) (b', fst (SplitKeyExported k)) = None"
        using entry_split_parent [OF e] by (simp add: dc_Invalidate_find)
    qed
    with p None show ?thesis by (simp add: cat_Put_def)
  qed
qed

lemma forget_entries_keeps:
  "neg_inv (sm_negCache c) \<Longrightarrow> dc_inv (sm_dirCache c) \<Longrightarrow>
   sm_store (forget_entries b es seen c) = sm_store c \<and>
   neg_inv (sm_negCache (forget_entries b es seen c)) \<and> dc_inv (sm_dirCache (forget_entries b es seen c)) \<and>
   set (neg_abs (sm_negCache (forget_entries b es seen c))) =
     {x \<in> set (neg_abs (sm_negCache c)). \<forall>e \<in> set es. fst x \<noteq> (b, e_Key e)} \<and>
   dc_find (sm_dirCache (forget_entries b es seen c)) =
     (\<lambda>bp. if fst bp = b \<and> (\<exists>e \<in> set es. e_Parent e = snd bp) \<and> snd bp \<notin> set seen then None
           else dc_find (sm_dirCache c) bp)"
proof (induction es arbitrary: seen c)
  case (Cons e es)
  let ?c = "c\<lparr>sm_negCache := nc_Remove b (e_Key e) (sm_negCache c)\<rparr>"
  let ?d = "?c\<lparr>sm_dirCache := dc_Invalidate b (e_Parent e) (sm_dirCache c)\<rparr>"
  note nr = nc_Remove_refines [OF Cons.prems(1), of b "e_Key e"]
  show ?case
  proof (cases "e_Parent e \<in> set seen")
    case True
    from Cons.IH [of ?c seen] nr Cons.prems True show ?thesis
      by (auto simp: fun_eq_iff q_remove_def Let_def)
  next
    case False
    from Cons.IH [of ?d "e_Parent e # seen"] nr Cons.prems False dc_inv_step(2) [OF Cons.prems(2)]
    show ?thesis by (auto simp: fun_eq_iff q_remove_def Let_def dc_Invalidate_find)
  qed
qed simp

lemma cat_PutBatch_coherent:
  assumes c: "coherent c" and e: "\<forall>e \<in> set es. entry_split e"
  shows "coherent (snd (cat_PutBatch b es c))"
proof -
  obtain r s' where p: "st_PutBatch b es (sm_store c) = (r, s')" by (metis surj_pair)
  note cD = coherentD [OF c] and st = st_PutBatch_step [OF coherentD(1) [OF c] p]
  show ?thesis
  proof (cases r)
    case (Some err)
    then have "s' = sm_store c" using p by (auto simp: st_PutBatch_def split: option.splits sum.splits)
    with c p Some show ?thesis by (simp add: cat_PutBatch_def)
  next
    case None
    let ?c = "c\<lparr>sm_store := s'\<rparr>" and ?ks = "{(b, e_Key e) | e. e \<in> set es}"
    let ?f = "forget_entries b es [] ?c"
    have f: "sm_store ?f = s'" "neg_inv (sm_negCache ?f)" "dc_inv (sm_dirCache ?f)"
      "set (neg_abs (sm_negCache ?f)) = {x \<in> set (neg_abs (sm_negCache c)). \<forall>e \<in> set es. fst x \<noteq> (b, e_Key e)}"
      "dc_find (sm_dirCache ?f) = (\<lambda>bp. if fst bp = b \<and> (\<exists>e \<in> set es. e_Parent e = snd bp) then None
           else dc_find (sm_dirCache c) bp)"
      using forget_entries_keeps [of ?c b es "[]"] cD(2,3) by (simp_all cong: if_cong)
    have row: "batch_row b es bk = None" if "bk \<notin> ?ks" for bk
      using that by (auto simp: batch_row_def find_None_iff)
    have "coherent (c\<lparr>sm_store := s', sm_negCache := sm_negCache ?f, sm_dirCache := sm_dirCache ?f\<rparr>)"
    proof (rule coherent_write [OF c, where ks = ?ks])
      show "st_wf s'" using st by simp
      show "rows_split s'"
        using st None cD(4) e
        by (auto simp: rows_split_def map_add_Some_iff batch_row_def entry_split_row dest!: find_SomeD)
      show "\<And>bk. bk \<notin> ?ks \<Longrightarrow> st_map s' bk = st_map (sm_store c) bk" using st None row by (simp add: map_add_def)
      show "neg_inv (sm_negCache ?f)" "dc_inv (sm_dirCache ?f)" using f by blast+
      show "set (neg_abs (sm_negCache ?f)) \<subseteq> set (neg_abs (sm_negCache c))" using f(4) by blast
      show "\<And>bk x. (bk, x) \<in> set (neg_abs (sm_negCache ?f)) \<Longrightarrow> bk \<in> ?ks \<Longrightarrow> st_map s' bk = None"
        using f(4) by auto
      show "\<And>bp x. dc_find (sm_dirCache ?f) bp = Some x \<Longrightarrow> dc_find (sm_dirCache c) bp = Some x"
        using f(5) by (auto split: if_splits)
      show "\<And>b' k. (b', k) \<in> ?ks \<Longrightarrow> dc_find (sm_dirCache ?f) (b', fst (SplitKeyExported k)) = None"
        using f(5) e entry_split_parent by fastforce
    qed
    then have "coherent ?f" using f(1) by (simp add: coherent_def)
    with p None show ?thesis by (simp add: cat_PutBatch_def)
  qed
qed

lemma cat_Delete_coherent:
  assumes c: "coherent c" and nf: "sql_fault (sm_store c) (SqlLookup b k) = None"
  shows "coherent (snd (cat_Delete b k c))"
proof -
  obtain r s' where p: "st_Delete b k (sm_store c) = (r, s')" by (metis surj_pair)
  note cD = coherentD [OF c] and st = st_Delete_step [OF coherentD(1) [OF c] p]
  show ?thesis
  proof (cases r)
    case (Some err)
    then have "s' = sm_store c" using p by (auto simp: st_Delete_def split: option.splits)
    with c p Some show ?thesis by (simp add: cat_Delete_def)
  next
    case None
    let ?e = "map_option (entry_of k) (st_map (sm_store c) (b, k))"
    let ?dc = "case ?e of None \<Rightarrow> sm_dirCache c | Some e \<Rightarrow> dc_Invalidate b (e_Parent e) (sm_dirCache c)"
    let ?ks = "if st_map (sm_store c) (b, k) = None then {} else {(b, k)}"
    have "coherent (c\<lparr>sm_store := s', sm_negCache := nc_Remove b k (sm_negCache c), sm_dirCache := ?dc\<rparr>)"
    proof (rule coherent_write [OF c, where ks = ?ks])
      show "st_wf s'" using st by simp
      show "rows_split s'" using st None cD(4) by (simp add: rows_split_def)
      show "\<And>bk. bk \<notin> ?ks \<Longrightarrow> st_map s' bk = st_map (sm_store c) bk" using st None by (auto split: if_splits)
      show "neg_inv (nc_Remove b k (sm_negCache c))"
        "set (neg_abs (nc_Remove b k (sm_negCache c))) \<subseteq> set (neg_abs (sm_negCache c))"
        using nc_Remove_refines [OF cD(2), of b k] by (auto simp: q_remove_def)
      show "\<And>bk x. (bk, x) \<in> set (neg_abs (nc_Remove b k (sm_negCache c))) \<Longrightarrow> bk \<in> ?ks \<Longrightarrow> st_map s' bk = None"
        using st None by (auto split: if_splits)
      show "dc_inv ?dc" using cD(3) by (simp add: dc_inv_step split: option.split)
      show "\<And>bp x. dc_find ?dc bp = Some x \<Longrightarrow> dc_find (sm_dirCache c) bp = Some x"
        by (auto simp: dc_Invalidate_find split: if_splits option.splits)
      show "\<And>b' k'. (b', k') \<in> ?ks \<Longrightarrow> dc_find ?dc (b', fst (SplitKeyExported k')) = None"
        using cD(4) by (auto simp: rows_split_def entry_of_def dc_Invalidate_find split: if_splits) (metis fst_conv)
    qed
    with p None nf show ?thesis by (simp add: cat_Delete_def st_Lookup_map)
  qed
qed

lemma cat_DeletePrefix_coherent:
  assumes c: "coherent c"
  shows "coherent (snd (cat_DeletePrefix b p c))"
proof -
  obtain r s' where d: "st_DeletePrefix b p (sm_store c) = (r, s')" by (metis surj_pair)
  note cD = coherentD [OF c] and st = st_DeletePrefix_step [OF coherentD(1) [OF c] d]
  show ?thesis
  proof (cases r)
    case (Some err)
    then have "s' = sm_store c" using d by (auto simp: st_DeletePrefix_def split: option.splits)
    with c d Some show ?thesis by (simp add: cat_DeletePrefix_def)
  next
    case None
    have "coherent (c\<lparr>sm_store := s', sm_negCache := nc_RemovePrefix b p (sm_negCache c),
        sm_dirCache := dc_InvalidateAll b (sm_dirCache c)\<rparr>)"
    proof (rule coherent_write [OF c, where ks = "{(b, k) | k. sql_like (p @ ''%'') k}"])
      show "st_wf s'" using st by simp
      show "rows_split s'" using st None cD(4) by (auto simp: rows_split_def split: if_splits)
      show "\<And>bk. bk \<notin> {(b, k) | k. sql_like (p @ ''%'') k} \<Longrightarrow> st_map s' bk = st_map (sm_store c) bk"
        using st None by auto
      show "neg_inv (nc_RemovePrefix b p (sm_negCache c))"
        "set (neg_abs (nc_RemovePrefix b p (sm_negCache c))) \<subseteq> set (neg_abs (sm_negCache c))"
        using nc_RemovePrefix_refines [OF cD(2), of b p] by (auto simp: q_remove_def)
      show "\<And>bk x. (bk, x) \<in> set (neg_abs (nc_RemovePrefix b p (sm_negCache c))) \<Longrightarrow>
          bk \<in> {(b, k) | k. sql_like (p @ ''%'') k} \<Longrightarrow> st_map s' bk = None"
        using st None by auto
      show "dc_inv (dc_InvalidateAll b (sm_dirCache c))" using cD(3) by (rule dc_inv_step)
      show "\<And>bp x. dc_find (dc_InvalidateAll b (sm_dirCache c)) bp = Some x \<Longrightarrow> dc_find (sm_dirCache c) bp = Some x"
        by (auto simp: dc_InvalidateAll_find split: if_splits)
      show "\<And>b' k. (b', k) \<in> {(b, k) | k. sql_like (p @ ''%'') k} \<Longrightarrow>
          dc_find (dc_InvalidateAll b (sm_dirCache c)) (b', fst (SplitKeyExported k)) = None"
        by (auto simp: dc_InvalidateAll_find)
    qed
    with d None show ?thesis by (simp add: cat_DeletePrefix_def)
  qed
qed

lemma cat_ListDir_coherent:
  assumes c: "coherent c"
  shows "coherent (snd (cat_ListDir b p t c))"
    and "fst (cat_ListDir b p t c) = Inr es \<Longrightarrow> set es = children (sm_store c) b p"
proof -
  note cD = coherentD [OF c]
  have kids: "st_ListDir b p (sm_store c) = Inr es \<Longrightarrow> set es = children (sm_store c) b p" for es
    using ListDir_rows [OF cD(1)] unfolding children_def by blast
  show "coherent (snd (cat_ListDir b p t c))"
  proof (cases "dc_Get b p t (sm_dirCache c)")
    case None
    show ?thesis
    proof (cases "st_ListDir b p (sm_store c)")
      case (Inr es)
      have "dir_sound (sm_store c) (dc_Set b p es t (sm_dirCache c))"
        using cD(6) kids [OF Inr] by (auto simp: dir_sound_def dc_Set_find)
      then show ?thesis using None Inr c dc_inv_step(1) [OF cD(3)] by (simp add: cat_ListDir_def coherent_def)
    qed (use None c in \<open>simp add: cat_ListDir_def\<close>)
  qed (use c in \<open>simp add: cat_ListDir_def\<close>)
  show "fst (cat_ListDir b p t c) = Inr es \<Longrightarrow> set es = children (sm_store c) b p"
    using kids cD(6)
    by (auto simp: cat_ListDir_def dc_Get_find dir_sound_def split: option.splits sum.splits if_splits)
qed

lemma cached_child_row:
  assumes "coherent c" and "cached_child b k t (sm_dirCache c) = Some e"
  shows "\<exists>k' r. st_map (sm_store c) (b, k') = Some r \<and> e = entry_of k' r \<and> SplitKeyExported k' = SplitKeyExported k"
proof -
  note cD = coherentD [OF assms(1)]
  obtain p n where sp: "SplitKeyExported k = (p, n)" by (metis surj_pair)
  with assms(2) obtain x where x: "dc_find (sm_dirCache c) (b, p) = Some x" "e \<in> set (de_entries x)" "e_Name e = n"
    by (auto simp: cached_child_def dc_Get_find dest!: find_SomeD split: option.splits if_splits)
  then have "e \<in> children (sm_store c) b p" using cD(6) by (auto simp: dir_sound_def)
  then obtain k' r where r: "st_map (sm_store c) (b, k') = Some r" "e = entry_of k' r" "r_parent r = p"
    by (auto simp: children_def)
  moreover have "r_name r = n" using x(3) r(2) by (simp add: entry_of_def)
  ultimately show ?thesis using cD(4) sp unfolding rows_split_def by metis
qed

lemma cat_Lookup_cases:
  assumes "coherent c" and "cat_Lookup b k t c = (x, c')"
  shows "coherent c'"
    and "x = Inr (Some e) \<Longrightarrow>
      \<exists>k' r. st_map (sm_store c) (b, k') = Some r \<and> e = entry_of k' r \<and> SplitKeyExported k' = SplitKeyExported k"
    and "x = Inr None \<Longrightarrow> st_map (sm_store c) (b, k) = None"
    and "x = Inl err \<Longrightarrow> sql_fault (sm_store c) (SqlLookup b k) \<noteq> None"
proof -
  note cD = coherentD [OF assms(1)]
  obtain hit nc where n: "nc_Contains b k t (sm_negCache c) = (hit, nc)" by (metis surj_pair)
  note nr = nc_Contains_refines [OF cD(2), of b k t, unfolded n fst_conv snd_conv]
  have sub: "set (neg_abs nc) \<subseteq> set (neg_abs (sm_negCache c))" using nr(3) by (auto simp: q_remove_def split: if_splits)
  have hit: "hit \<Longrightarrow> st_map (sm_store c) (b, k) = None"
    using Contains_iff [OF cD(2), of b k t] n cD(5) by (auto simp: neg_sound_def)
  let ?c = "c\<lparr>sm_negCache := nc\<rparr>"
  have c1: "coherent ?c" using assms(1) nr(1) sub by (auto simp: coherent_def neg_sound_def)
  have add: "coherent (?c\<lparr>sm_negCache := nc_Add b k t nc\<rparr>)" if "st_map (sm_store c) (b, k) = None"
    using that c1 neg_add_refines [OF nr(1), of b k t] by (fastforce simp: coherent_def neg_sound_def)
  consider (neg) "hit" "x = Inr None" "c' = ?c"
    | (dir) e where "\<not> hit" "cached_child b k t (sm_dirCache ?c) = Some e" "x = Inr (Some e)" "c' = ?c"
    | (err) e where "\<not> hit" "st_Lookup b k (sm_store c) = Inl e" "x = Inl e" "c' = ?c"
    | (row) e where "\<not> hit" "st_Lookup b k (sm_store c) = Inr (Some e)" "x = Inr (Some e)" "c' = ?c"
    | (none) "\<not> hit" "st_Lookup b k (sm_store c) = Inr None" "x = Inr None"
        "c' = ?c\<lparr>sm_negCache := nc_Add b k t nc\<rparr>"
    using assms(2) n by (cases hit) (auto simp: cat_Lookup_def Let_def split: option.splits sum.splits)
  note cases = this
  show "coherent c'"
    by (cases rule: cases) (use c1 add in \<open>auto simp: st_Lookup_case split: option.splits\<close>)
  show "\<exists>k' r. st_map (sm_store c) (b, k') = Some r \<and> e = entry_of k' r \<and> SplitKeyExported k' = SplitKeyExported k"
    if "x = Inr (Some e)"
    using that cached_child_row [OF c1]
    by (cases rule: cases) (auto simp: st_Lookup_case split: option.splits)
  show "x = Inr None \<Longrightarrow> st_map (sm_store c) (b, k) = None"
    using hit by (cases rule: cases) (auto simp: st_Lookup_case split: option.splits)
  show "x = Inl err \<Longrightarrow> sql_fault (sm_store c) (SqlLookup b k) \<noteq> None"
    by (cases rule: cases) (auto simp: st_Lookup_case split: option.splits)
qed

section \<open>Runs\<close>

text \<open>
  What the mounts do with the catalog, one operation at a time; between two the database's
  faults may change. The background passes of the sync manager are not among the steps.
\<close>

inductive cat_step :: "'w Catalog \<Rightarrow> 'w Catalog \<Rightarrow> bool" where
  step_ListDir: "cat_step c (snd (cat_ListDir b p t c))"
| step_Lookup: "cat_step c (snd (cat_Lookup b k t c))"
| step_Put: "entry_split e \<Longrightarrow> cat_step c (snd (cat_Put b e c))"
| step_PutBatch: "\<forall>e \<in> set es. entry_split e \<Longrightarrow> cat_step c (snd (cat_PutBatch b es c))"
| step_Delete: "sql_fault (sm_store c) (SqlLookup b k) = None \<Longrightarrow> cat_step c (snd (cat_Delete b k c))"
| step_DeletePrefix: "cat_step c (snd (cat_DeletePrefix b p c))"
| step_reap_neg: "cat_step c (c\<lparr>sm_negCache := nc_reap t (sm_negCache c)\<rparr>)"
| step_reap_dirs: "cat_step c (c\<lparr>sm_dirCache := dc_reap t (sm_dirCache c)\<rparr>)"
| step_faults: "cat_step c (c\<lparr>sm_store := (sm_store c)\<lparr>sql_fault := flt\<rparr>\<rparr>)"

inductive_simps cat_step_iff: "cat_step c c'"

lemma cat_step_coherent: "cat_step c c' \<Longrightarrow> coherent c \<Longrightarrow> coherent c'"
proof (induction rule: cat_step.induct)
  case (step_Lookup c b k t)
  then show ?case using cat_Lookup_cases(1) [OF step_Lookup surjective_pairing] by simp
next
  case (step_reap_neg c t)
  then show ?case
    using nc_reap_refines [OF coherentD(2) [OF step_reap_neg], of t]
    by (auto simp: coherent_def neg_sound_def q_reap_def dest: set_dropWhileD)
next
  case (step_reap_dirs c t)
  then show ?case
    using dc_inv_step(4) [OF coherentD(3) [OF step_reap_dirs], of t]
    by (auto simp: coherent_def dir_sound_def dc_reap_find split: option.splits if_splits)
next
  case (step_faults c flt)
  then show ?case
    by (simp add: coherent_def st_wf_def rows_split_def neg_sound_def dir_sound_def children_def st_map_def)
qed (auto simp: cat_ListDir_coherent cat_Put_coherent cat_PutBatch_coherent cat_Delete_coherent
    cat_DeletePrefix_coherent)

lemma cat_run_coherent: "cat_step\<^sup>*\<^sup>* c c' \<Longrightarrow> coherent c \<Longrightarrow> coherent c'"
  by (induction rule: rtranclp_induct) (auto intro: cat_step_coherent)

text \<open>A catalog just opened on the tables of an earlier run.\<close>

definition fresh_catalog :: "'w Catalog \<Rightarrow> bool" where
  "fresh_catalog c \<longleftrightarrow> st_wf (sm_store c) \<and> rows_split (sm_store c) \<and>
     (\<exists>d. sm_negCache c = NewNegCache d) \<and> (\<exists>d. sm_dirCache c = NewDirCache d)"

lemma fresh_coherent: "fresh_catalog c \<Longrightarrow> coherent c"
  by (auto simp: fresh_catalog_def coherent_def neg_sound_def dir_sound_def)

section \<open>Properties\<close>


text \<open>A directory listing from the catalog is the store's. In every such run, a successful
  \<open>ListDir\<close>, from the cache or not, returns exactly the rows with that parent.\<close>

theorem catalog_listing_sound:
  assumes "fresh_catalog c0" and "cat_step\<^sup>*\<^sup>* c0 c" and "fst (cat_ListDir b p t c) = Inr es"
  shows "set es = children (sm_store c) b p"
  using cat_ListDir_coherent(2) [OF cat_run_coherent [OF assms(2) fresh_coherent [OF assms(1)]] assms(3)] .

text \<open>Read your writes. After a successful \<open>Put\<close> on a coherent catalog (each one reachable by
  such a run is), a \<open>Lookup\<close> of the key at any time returns the entry put (its time in whole seconds), whatever the caches held before.\<close>

theorem catalog_read_after_put:
  assumes "coherent c" and "entry_split e" and "cat_Put b e c = (None, c')"
    and "sql_fault (sm_store c) (SqlLookup b (e_Key e)) = None"
  shows "fst (cat_Lookup b (e_Key e) t c') =
    Inr (Some (e\<lparr>e_Modified := time_of_unix (unix_seconds (e_Modified e))\<rparr>))"
proof -
  note cD = coherentD [OF assms(1)]
  obtain s' where p: "st_Put b e (sm_store c) = (None, s')"
    and c': "c' = c\<lparr>sm_store := s', sm_negCache := nc_Remove b (e_Key e) (sm_negCache c),
        sm_dirCache := dc_Invalidate b (e_Parent e) (sm_dirCache c)\<rparr>"
    using assms(3) by (auto simp: cat_Put_def split: prod.splits option.splits)
  have st: "st_map s' = (st_map (sm_store c))((b, e_Key e) \<mapsto> row_of e)" "sql_fault s' = sql_fault (sm_store c)"
    using st_Put_step [OF cD(1) p] by simp_all
  let ?nc = "nc_Remove b (e_Key e) (sm_negCache c)"
  have "\<not> fst (nc_Contains b (e_Key e) t ?nc)"
    using nc_Remove_refines [OF cD(2), of b "e_Key e"] by (auto simp: Contains_iff q_remove_def)
  then obtain nc where n: "nc_Contains b (e_Key e) t ?nc = (False, nc)" by (metis prod.collapse)
  have "cached_child b (e_Key e) t (dc_Invalidate b (e_Parent e) (sm_dirCache c)) = None"
    using entry_split_parent [OF assms(2)]
    by (auto simp: cached_child_def dc_Get_find dc_Invalidate_find split: prod.split)
  moreover have "entry_of (e_Key e) (row_of e) = e\<lparr>e_Modified := time_of_unix (unix_seconds (e_Modified e))\<rparr>"
    by (cases e) (simp add: entry_of_def row_of_def boolToInt_def)
  ultimately show ?thesis
    unfolding c' using n st assms(4) by (simp add: cat_Lookup_def st_Lookup_map Let_def)
qed

text \<open>After a successful \<open>Delete\<close> on a coherent catalog no \<open>Lookup\<close> returns an entry with the deleted key.\<close>

theorem catalog_delete_then_absent:
  assumes "coherent c" and "cat_Delete b k c = (None, c')" and "sql_fault (sm_store c) (SqlLookup b k) = None"
    and "fst (cat_Lookup b k t c') = Inr (Some e)"
  shows "e_Key e \<noteq> k"
proof -
  have co: "coherent c'" using cat_Delete_coherent [OF assms(1,3)] assms(2) by simp
  obtain s' where d: "st_Delete b k (sm_store c) = (None, s')" and s': "sm_store c' = s'"
    using assms(2) by (auto simp: cat_Delete_def Let_def split: prod.splits option.splits)
  then have "st_map (sm_store c') (b, k) = None"
    using st_Delete_step [OF coherentD(1) [OF assms(1)] d] by simp
  moreover obtain k' r where "st_map (sm_store c') (b, k') = Some r" "e = entry_of k' r"
    using cat_Lookup_cases(2) [OF co surjective_pairing assms(4)] by blast
  ultimately show ?thesis by (auto simp: entry_of_def)
qed

text \<open>The background pass leaves the negative cache alone. A key remembered as absent that a
  pass of \<open>syncBucket\<close> has just written to the store is still reported absent, until its
  negative entry expires (\<open>SyncPrefix\<close> drops those entries, \<open>syncBucket\<close> does not).\<close>

theorem sync_keeps_negative_answers:
  assumes "syncBucket b cl start c w = Some (r, c', w')" and "fst (nc_Contains b k t (sm_negCache c))"
  shows "fst (cat_Lookup b k t c') = Inr None"
  using syncBucket_frame(2) [OF assms(1)] assms(2)
  by (simp add: cat_Lookup_def split: prod.split bool.split) auto

text \<open>A listing read before a write and cached after it. \<open>ListDir\<close> reads the store and then
  caches what it read, in two steps. If a \<open>Put\<close> of a new key of that directory succeeds in
  between, its invalidation comes too early: until the cached listing expires, \<open>ListDir\<close> does
  not show the new entry, though the store has it.\<close>

theorem listing_race:
  assumes "coherent c" and "entry_split e" and "st_map (sm_store c) (b, e_Key e) = None"
    and "st_ListDir b (e_Parent e) (sm_store c) = Inr es"
    and "cat_Put b e c = (None, c1)"
    and "c2 = c1\<lparr>sm_dirCache := dc_Set b (e_Parent e) es u (sm_dirCache c1)\<rparr>"
    and "t \<le> u + dc_ttl (sm_dirCache c1)"
  shows "fst (cat_ListDir b (e_Parent e) t c2) = Inr es \<and> e_Key e \<notin> e_Key ` set es \<and>
    st_map (sm_store c2) (b, e_Key e) = Some (row_of e)"
proof -
  note cD = coherentD [OF assms(1)]
  obtain s' where p: "st_Put b e (sm_store c) = (None, s')" and s': "sm_store c1 = s'"
    using assms(5) by (auto simp: cat_Put_def split: prod.splits option.splits)
  have "st_map (sm_store c2) (b, e_Key e) = Some (row_of e)"
    using st_Put_step [OF cD(1) p] s' assms(6) by simp
  moreover have "e_Key e \<notin> e_Key ` set es"
    using ListDir_rows [OF cD(1) assms(4)] assms(3) by (auto simp: entry_of_def)
  ultimately show ?thesis
    using assms(6,7) by (simp add: cat_ListDir_def dc_Get_find dc_Set_find)
qed

section \<open>Witnesses\<close>

definition demo_cat :: "mem_world Catalog" where
  "demo_cat = demo_sync\<lparr>sm_store := empty_store\<rparr>"

lemma demo_cat_fresh: "fresh_catalog demo_cat"
  by (auto simp: fresh_catalog_def demo_cat_def rows_split_def)

lemma demo_entry_split [simp]: "entry_split demo_store_entry"
  using SplitKey_file [of "[''d'']" "''f''"] by (simp add: entry_split_def demo_store_entry_def plain_def)

lemma demo_cat_put: "cat_Put ''b'' demo_store_entry demo_cat = (None, snd (cat_Put ''b'' demo_store_entry demo_cat))"
  by (simp add: cat_Put_def st_Put_def empty_store_def demo_cat_def)


theorem catalog_listing_sound_witness:
  "children (sm_store (snd (cat_Put ''b'' demo_store_entry demo_cat))) ''b'' ''d/'' =
     {demo_store_entry\<lparr>e_Modified := 1000000000\<rparr>}"
proof -
  let ?c = "snd (cat_Put ''b'' demo_store_entry demo_cat)"
  have run: "cat_step\<^sup>*\<^sup>* demo_cat ?c" by (rule r_into_rtranclp, rule step_Put) simp
  have l: "fst (cat_ListDir ''b'' ''d/'' 7 ?c) = Inr [demo_store_entry\<lparr>e_Modified := 1000000000\<rparr>]" by code_simp
  show ?thesis using catalog_listing_sound [OF demo_cat_fresh run l] by simp
qed

theorem catalog_read_after_put_witness:
  "fst (cat_Lookup ''b'' ''d/f'' 7 (snd (cat_Put ''b'' demo_store_entry demo_cat))) =
     Inr (Some (demo_store_entry\<lparr>e_Modified := 1000000000\<rparr>))"
  using catalog_read_after_put [OF fresh_coherent [OF demo_cat_fresh] demo_entry_split demo_cat_put, of 7]
  by (simp add: demo_store_entry_def unix_seconds_def time_of_unix_def second_def demo_cat_def empty_store_def)

theorem catalog_delete_then_absent_witness:
  "\<forall>e. fst (cat_Lookup ''b'' ''d/f'' 7 (snd (cat_Delete ''b'' ''d/f'' demo_cat))) = Inr (Some e) \<longrightarrow> e_Key e \<noteq> ''d/f''"
proof (intro allI impI)
  fix e assume h: "fst (cat_Lookup ''b'' ''d/f'' 7 (snd (cat_Delete ''b'' ''d/f'' demo_cat))) = Inr (Some e)"
  have "cat_Delete ''b'' ''d/f'' demo_cat = (None, snd (cat_Delete ''b'' ''d/f'' demo_cat))"
    by (simp add: cat_Delete_def st_Delete_def empty_store_def demo_cat_def st_Lookup_def)
  from catalog_delete_then_absent [OF fresh_coherent [OF demo_cat_fresh] this _ h] show "e_Key e \<noteq> ''d/f''"
    by (simp add: demo_cat_def empty_store_def)
qed

definition demo_negative :: "mem_world Catalog" where
  "demo_negative = demo_sync\<lparr>sm_store := demo_one_row, sm_negCache := nc_Add ''b'' ''d/f'' 5 (NewNegCache 8)\<rparr>"

lemma demo_negative_sync: "\<exists>c'. syncBucket ''b'' demo_client 5 demo_negative [] = Some (None, c', [])"
  by (simp add: demo_negative_def syncBucket_def syncOnePrefix_def syncOnePrefix_loop.simps poll_stop_def demo_sync_def
      sm_RegisterBucket_def NewSyncManager_def ListObjects_def demo_client_def mem_s3_def listed_def
      sync_page_def put_page_def st_KnownDirs_def demo_one_row_def st_Put_def empty_store_def
      demo_store_entry_def row_of_def boolToInt_def Let_def)

theorem sync_keeps_negative_answers_witness:
  "\<exists>c'. syncBucket ''b'' demo_client 5 demo_negative [] = Some (None, c', []) \<and>
     fst (cat_Lookup ''b'' ''d/f'' 7 c') = Inr None"
proof -
  obtain c' where c': "syncBucket ''b'' demo_client 5 demo_negative [] = Some (None, c', [])"
    using demo_negative_sync by (elim exE)
  have "fst (nc_Contains ''b'' ''d/f'' 7 (sm_negCache demo_negative))"
    by (simp add: demo_negative_def nc_Contains_def nc_Add_def NewNegCache_def nc_trim.simps Let_def
        defaultNegCacheMaxSize_def)
  from sync_keeps_negative_answers [OF c' this] c' show ?thesis by (intro exI [of _ c'] conjI)
qed

theorem listing_race_witness:
  "\<exists>c2 :: mem_world Catalog. fst (cat_ListDir ''b'' ''d/'' 9 c2) = Inr [] \<and> st_map (sm_store c2) (''b'', ''d/f'') \<noteq> None"
proof -
  let ?c1 = "snd (cat_Put ''b'' demo_store_entry demo_cat)"
  let ?c2 = "?c1\<lparr>sm_dirCache := dc_Set ''b'' (e_Parent demo_store_entry) [] 5 (sm_dirCache ?c1)\<rparr>"
  have l: "st_ListDir ''b'' (e_Parent demo_store_entry) (sm_store demo_cat) = Inr []"
    by (simp add: st_ListDir_def demo_cat_def empty_store_def)
  have n: "st_map (sm_store demo_cat) (''b'', e_Key demo_store_entry) = None" by (simp add: demo_cat_def)
  have d: "9 \<le> 5 + dc_ttl (sm_dirCache ?c1)"
    by (simp add: cat_Put_def st_Put_def empty_store_def demo_cat_def)
  from listing_race [OF fresh_coherent [OF demo_cat_fresh] demo_entry_split n l demo_cat_put refl d]
  show ?thesis by (intro exI [of _ ?c2]) (simp add: demo_store_entry_def)
qed

end
