(* ===== verification/Write_Back.thy ===== *)
theory Write_Back
  imports Test_Doubles "HOL-Library.Multiset"
begin

text \<open>
  \<open>internal/catalog/writeback.go\<close>: the queue of uploads and the workers that empty it. One
  job's processing is a function of the file system and of S3; the queue with its workers is
  a transition system in which a worker takes a job and later finishes it.
\<close>

section \<open>Jobs\<close>

record UploadResult =
  ur_Meta :: "ObjectMeta option"
  ur_Err :: "go_error option"

text \<open>A buffered result channel: its free places and what was sent.\<close>

record result_chan =
  rc_free :: nat
  rc_sent :: "UploadResult list"

record UploadJob =
  uj_Bucket :: string
  uj_Key :: string
  uj_FilePath :: string
  uj_Size :: int
  uj_Retries :: int
  uj_DoneCh :: "result_chan option"    \<comment> \<open>\<open>None\<close> is nil\<close>

definition sendResult :: "UploadJob \<Rightarrow> UploadResult \<Rightarrow> UploadJob" where
  "sendResult job result =
     (case uj_DoneCh job of
        None \<Rightarrow> job
      | Some ch \<Rightarrow>
          if rc_free ch > 0
          then job\<lparr>uj_DoneCh := Some \<lparr>rc_free = rc_free ch - 1, rc_sent = rc_sent ch @ [result]\<rparr>\<rparr>
          else job)"

section \<open>Processing one job\<close>

definition upload :: "'w client \<Rightarrow> UploadJob \<Rightarrow> os \<Rightarrow> 'w \<Rightarrow> (go_error + ObjectMeta) \<times> 'w" where
  "upload s3c job s w =
     (case os_Open (uj_FilePath job) s of
        Inl err \<Rightarrow> (Inl (wrapf ''open upload file'' err), w)
      | Inr f \<Rightarrow>
          (case os_Stat (uj_FilePath job) s of
             Inl err \<Rightarrow> (Inl (wrapf ''stat upload file'' err), w)
           | Inr sz \<Rightarrow>
               (case PutObject s3c (uj_Key job) f sz w of
                  (Inl err, w') \<Rightarrow> (Inl (wrapf ''s3 put'' err), w')
                | (Inr meta, w') \<Rightarrow> (Inr meta, w'))))"

text \<open>
  The retry loop with \<open>n\<close> attempts left, before attempt number \<open>attempt\<close>. \<open>stop attempt\<close> tells
  whether the stop channel is closed before the delay in front of that attempt is over. The
  file system's faults are fixed while the job is processed, S3's are part of \<open>'w\<close>.
\<close>

fun upload_attempts ::
  "nat \<Rightarrow> nat \<Rightarrow> (nat \<Rightarrow> bool) \<Rightarrow> 'w client \<Rightarrow> UploadJob \<Rightarrow> go_error option \<Rightarrow> os \<Rightarrow> 'w \<Rightarrow>
   UploadResult \<times> os \<times> 'w" where
  "upload_attempts 0 attempt stop s3c job lastErr s w = (\<lparr>ur_Meta = None, ur_Err = lastErr\<rparr>, s, w)"
| "upload_attempts (Suc n) attempt stop s3c job lastErr s w =
     (if attempt > 0 \<and> stop attempt
      then (\<lparr>ur_Meta = None, ur_Err = Some (errorf ''shutting down, upload aborted'')\<rparr>, s, w)
      else (case upload s3c job s w of
              (Inr meta, w') \<Rightarrow>
                (\<lparr>ur_Meta = Some meta, ur_Err = None\<rparr>, snd (os_Remove (uj_FilePath job) s), w')
            | (Inl err, w') \<Rightarrow> upload_attempts n (Suc attempt) stop s3c job (Some err) s w'))"

definition process ::
  "(string \<Rightarrow> 'w client option) \<Rightarrow> int \<Rightarrow> (nat \<Rightarrow> bool) \<Rightarrow> UploadJob \<Rightarrow> os \<Rightarrow> 'w \<Rightarrow>
   UploadResult \<times> UploadJob \<times> os \<times> 'w" where
  "process getClient maxRetries stop job s w =
     (case getClient (uj_Bucket job) of
        None \<Rightarrow>
          (let result = \<lparr>ur_Meta = None, ur_Err = Some (errorf (''no s3 client for bucket '' @ uj_Bucket job))\<rparr>
           in (result, sendResult job result, s, w))
      | Some s3c \<Rightarrow>
          (case upload_attempts (nat (maxRetries + 1)) 0 stop s3c job None s w of
             (result, s', w') \<Rightarrow> (result, sendResult job result, s', w')))"

section \<open>The queue and its workers\<close>

datatype worker =
    Idle
  | Working UploadJob
  | Draining
  | DrainWorking UploadJob
  | Exited

text \<open>
  \<open>wq_done\<close> and \<open>wq_accepted\<close> are history: the jobs whose processing has ended, with the
  result, and the jobs \<open>Submit\<close> accepted. \<open>wq_late\<close> tells whether one was accepted after
  \<open>Stop\<close> closed the stop channel.
\<close>

record 'w WriteBackQueue =
  wq_jobs :: "UploadJob list"
  wq_cap :: nat
  wq_workers :: "worker list"
  wq_maxRetries :: int
  wq_stopped :: bool
  wq_getClient :: "string \<Rightarrow> 'w client option"
  wq_done :: "(UploadJob \<times> UploadResult) list"
  wq_accepted :: "UploadJob list"
  wq_late :: bool

definition NewWriteBackQueue :: "nat \<Rightarrow> nat \<Rightarrow> int \<Rightarrow> (string \<Rightarrow> 'w client option) \<Rightarrow> 'w WriteBackQueue" where
  "NewWriteBackQueue workers queueSize maxRetries getClient =
     \<lparr>wq_jobs = [], wq_cap = queueSize, wq_workers = replicate workers Idle, wq_maxRetries = maxRetries,
      wq_stopped = False, wq_getClient = getClient, wq_done = [], wq_accepted = [], wq_late = False\<rparr>"

definition Submit :: "UploadJob \<Rightarrow> 'w WriteBackQueue \<Rightarrow> go_error option \<times> 'w WriteBackQueue" where
  "Submit job q =
     (if length (wq_jobs q) < wq_cap q
      then (None, q\<lparr>wq_jobs := wq_jobs q @ [job], wq_accepted := job # wq_accepted q,
                    wq_late := (wq_late q \<or> wq_stopped q)\<rparr>)
      else (Some (errorf ''write-back queue full''), q))"

definition set_worker :: "nat \<Rightarrow> worker \<Rightarrow> 'w WriteBackQueue \<Rightarrow> 'w WriteBackQueue" where
  "set_worker i x q = q\<lparr>wq_workers := (wq_workers q)[i := x]\<rparr>"

text \<open>The state: the queue, the file system, S3.\<close>

type_synonym 'w wb_state = "'w WriteBackQueue \<times> os \<times> 'w"

inductive wb_step :: "'w wb_state \<Rightarrow> 'w wb_state \<Rightarrow> bool" where
  wb_submit: "wb_step (q, s, w) (snd (Submit job q), s, w)"
| wb_take: "i < length (wq_workers q) \<Longrightarrow> wq_workers q ! i = Idle \<Longrightarrow> wq_jobs q = job # jobs \<Longrightarrow>
    wb_step (q, s, w) (set_worker i (Working job) (q\<lparr>wq_jobs := jobs\<rparr>), s, w)"
| wb_finish: "i < length (wq_workers q) \<Longrightarrow> wq_workers q ! i = Working job \<Longrightarrow>
    (\<forall>k. stop k \<longrightarrow> wq_stopped q) \<Longrightarrow>
    process (wq_getClient q) (wq_maxRetries q) stop job s w = (result, job', s', w') \<Longrightarrow>
    wb_step (q, s, w) (set_worker i Idle (q\<lparr>wq_done := (job, result) # wq_done q\<rparr>), s', w')"
| wb_stop: "wb_step (q, s, w) (q\<lparr>wq_stopped := True\<rparr>, s, w)"
| wb_notice: "i < length (wq_workers q) \<Longrightarrow> wq_workers q ! i = Idle \<Longrightarrow> wq_stopped q \<Longrightarrow>
    wb_step (q, s, w) (set_worker i Draining q, s, w)"
| wb_drain: "i < length (wq_workers q) \<Longrightarrow> wq_workers q ! i = Draining \<Longrightarrow> wq_jobs q = job # jobs \<Longrightarrow>
    wb_step (q, s, w) (set_worker i (DrainWorking job) (q\<lparr>wq_jobs := jobs\<rparr>), s, w)"
| wb_drained: "i < length (wq_workers q) \<Longrightarrow> wq_workers q ! i = DrainWorking job \<Longrightarrow>
    process (wq_getClient q) (wq_maxRetries q) (\<lambda>_. True) job s w = (result, job', s', w') \<Longrightarrow>
    wb_step (q, s, w) (set_worker i Draining (q\<lparr>wq_done := (job, result) # wq_done q\<rparr>), s', w')"
| wb_exit: "i < length (wq_workers q) \<Longrightarrow> wq_workers q ! i = Draining \<Longrightarrow> wq_jobs q = [] \<Longrightarrow>
    wb_step (q, s, w) (set_worker i Exited q, s, w)"
| wb_env: "wb_step (q, s, w) (q, s', w')"    \<comment> \<open>the rest of the program, other users of S3, faults\<close>

inductive_cases wb_stepE: "wb_step st st'"

section \<open>One upload\<close>

lemma upload_ok:
  assumes "s3_ok (c_inner c) objs" and "upload c job s w = (Inr meta, w')"
  shows "\<exists>d. fmlookup (files s) (uj_FilePath job) = Some d \<and>
    objs w' = (objs w)((c_bucket c, uj_Key job) \<mapsto> (d, om_ETag meta)) \<and> om_Size meta = int (length d)"
proof -
  obtain f sz where f: "os_Open (uj_FilePath job) s = Inr f" "os_Stat (uj_FilePath job) s = Inr sz"
    and p: "PutObject c (uj_Key job) f sz w = (Inr meta, w')"
    using assms(2) by (auto simp: upload_def split: sum.splits prod.splits)
  from f have "fmlookup (files s) (uj_FilePath job) = Some f" "sz = int (length f)"
    by (auto simp: os_Open_def os_Stat_def split: option.splits)
  with PutObject_content(1) [OF assms(1) p refl] show ?thesis by simp
qed

lemma upload_err:
  assumes "s3_ok (c_inner c) objs" and "upload c job s w = (Inl e, w')"
  shows "objs w' = objs w \<or> (\<exists>d t. fmlookup (files s) (uj_FilePath job) = Some d \<and>
    objs w' = (objs w)((c_bucket c, uj_Key job) \<mapsto> (d, t)))"
proof (cases "os_Open (uj_FilePath job) s")
  case (Inl err)
  with assms(2) show ?thesis by (simp add: upload_def)
next
  case (Inr f)
  then have f: "fmlookup (files s) (uj_FilePath job) = Some f" by (auto simp: os_Open_def split: option.splits)
  show ?thesis
  proof (cases "os_Stat (uj_FilePath job) s")
    case (Inl err)
    with assms(2) Inr show ?thesis by (simp add: upload_def)
  next
    case (Inr sz)
    with \<open>os_Open _ _ = _\<close> assms(2) obtain e' where "PutObject c (uj_Key job) f sz w = (Inl e', w')"
      by (auto simp: upload_def split: sum.splits prod.splits)
    with PutObject_content(2) [OF assms(1) this refl] f show ?thesis by blast
  qed
qed

text \<open>What an attempt may have done to the bucket: nothing, or the file's bytes under the key.\<close>

definition wrote_only :: "('w \<Rightarrow> s3_content) \<Rightarrow> string \<times> string \<Rightarrow> bytes option \<Rightarrow> 'w \<Rightarrow> 'w \<Rightarrow> bool" where
  "wrote_only objs bk d w w' \<longleftrightarrow> objs w' = objs w \<or> (\<exists>x t. d = Some x \<and> objs w' = (objs w)(bk \<mapsto> (x, t)))"

lemma wrote_only_trans: "wrote_only objs bk d w w' \<Longrightarrow> wrote_only objs bk d w' w'' \<Longrightarrow> wrote_only objs bk d w w''"
  unfolding wrote_only_def by (metis fun_upd_upd)

lemma upload_attempts_spec:
  assumes "s3_ok (c_inner c) objs"
  shows "upload_attempts n a stop c job le s w = (r, s', w') \<Longrightarrow>
    wrote_only objs (c_bucket c, uj_Key job) (fmlookup (files s) (uj_FilePath job)) w w' \<and>
    (case ur_Meta r of
       None \<Rightarrow> s' = s
     | Some meta \<Rightarrow> ur_Err r = None \<and> s' = snd (os_Remove (uj_FilePath job) s) \<and>
         (\<exists>d. fmlookup (files s) (uj_FilePath job) = Some d \<and>
            objs w' (c_bucket c, uj_Key job) = Some (d, om_ETag meta)))"
proof (induction n arbitrary: a le w)
  case 0
  then show ?case by (auto simp: wrote_only_def)
next
  case (Suc n)
  show ?case
  proof (cases "a > 0 \<and> stop a")
    case True
    with Suc.prems show ?thesis by (auto simp: wrote_only_def)
  next
    case False
    obtain x w1 where u: "upload c job s w = (x, w1)" by (metis surj_pair)
    show ?thesis
    proof (cases x)
      case (Inr meta)
      with Suc.prems False u upload_ok [OF assms, of job s w meta w1] show ?thesis
        by (auto simp: wrote_only_def)
    next
      case (Inl e)
      with Suc.prems False u have "upload_attempts n (Suc a) stop c job (Some e) s w1 = (r, s', w')" by auto
      from Suc.IH [OF this] upload_err [OF assms, of job s w e w1] u Inl show ?thesis
        by (auto simp: wrote_only_def elim: wrote_only_trans)
    qed
  qed
qed

text \<open>The number of attempts when every one fails and nobody stops the queue.\<close>

lemma upload_attempts_all_fail:
  assumes "\<And>w. isl (fst (upload c job s w))" and "\<And>k. \<not> stop k"
  shows "upload_attempts n a stop c job le s w =
    (\<lparr>ur_Meta = None, ur_Err = (if n = 0 then le else Some (projl (fst (upload c job s (((\<lambda>w. snd (upload c job s w)) ^^ (n - 1)) w)))))\<rparr>,
     s, ((\<lambda>w. snd (upload c job s w)) ^^ n) w)"
proof (induction n arbitrary: a le w)
  case (Suc n)
  obtain e w1 where u: "upload c job s w = (Inl e, w1)"
    using assms(1) [of w] by (metis isl_def prod.collapse)
  show ?case
  proof (cases n)
    case 0
    with u assms(2) show ?thesis by simp
  next
    case (Suc m)
    have "((\<lambda>w. snd (upload c job s w)) ^^ m) w1 = ((\<lambda>w. snd (upload c job s w)) ^^ (Suc m)) w"
      using u by (simp add: funpow_Suc_right del: funpow.simps(2))
    moreover have "((\<lambda>w. snd (upload c job s w)) ^^ n) w1 = ((\<lambda>w. snd (upload c job s w)) ^^ (Suc n)) w"
      using u by (simp add: funpow_Suc_right del: funpow.simps(2))
    ultimately show ?thesis
      using Suc u assms(2) Suc.IH [of "Suc a" "Some e" w1] by (simp del: funpow.simps(2))
  qed
qed simp

section \<open>Conservation of jobs\<close>

fun held :: "worker \<Rightarrow> UploadJob multiset" where
  "held (Working job) = {#job#}"
| "held (DrainWorking job) = {#job#}"
| "held _ = {#}"

definition in_flight :: "worker list \<Rightarrow> UploadJob multiset" where
  "in_flight ws = sum_list (map held ws)"

lemma in_flight_update:
  "i < length ws \<Longrightarrow> in_flight (ws[i := x]) + held (ws ! i) = in_flight ws + held x"
proof -
  assume i: "i < length ws"
  have "in_flight ws = in_flight (take i ws) + held (ws ! i) + in_flight (drop (Suc i) ws)"
    unfolding in_flight_def by (subst id_take_nth_drop [OF i]) (simp add: ac_simps)
  moreover have "in_flight (ws[i := x]) = in_flight (take i ws) + held x + in_flight (drop (Suc i) ws)"
    unfolding in_flight_def by (simp add: upd_conv_take_nth_drop [OF i] ac_simps)
  ultimately show ?thesis by (simp add: ac_simps)
qed

lemma in_flight_replicate: "in_flight (replicate n Idle) = {#}"
  by (induction n) (auto simp: in_flight_def)

lemma in_flight_exited: "set ws \<subseteq> {Exited} \<Longrightarrow> in_flight ws = {#}"
  by (induction ws) (auto simp: in_flight_def)

definition leaving :: "worker \<Rightarrow> bool" where
  "leaving x \<longleftrightarrow> x = Draining \<or> x = Exited \<or> (\<exists>job. x = DrainWorking job)"

definition wb_inv :: "'w WriteBackQueue \<Rightarrow> bool" where
  "wb_inv q \<longleftrightarrow>
     mset (wq_accepted q) = mset (wq_jobs q) + in_flight (wq_workers q) + mset (map fst (wq_done q)) \<and>
     length (wq_jobs q) \<le> wq_cap q \<and>
     (\<forall>x \<in> set (wq_workers q). leaving x \<longrightarrow> wq_stopped q) \<and>
     (Exited \<in> set (wq_workers q) \<and> \<not> wq_late q \<longrightarrow> wq_jobs q = [])"

lemma NewWriteBackQueue_inv: "wb_inv (NewWriteBackQueue n sz r gc)"
  by (auto simp: wb_inv_def NewWriteBackQueue_def in_flight_replicate leaving_def)

lemma Submit_inv: "wb_inv q \<Longrightarrow> wb_inv (snd (Submit job q))"
  by (auto simp: wb_inv_def Submit_def leaving_def)

text \<open>A worker's move: the jobs it gives up and takes balance with those of queue and history.\<close>

lemma worker_move:
  assumes "wb_inv q" and "i < length (wq_workers q)"
    and "mset jobs + held x + mset (map fst dn) = mset (wq_jobs q) + held (wq_workers q ! i) + mset (map fst (wq_done q))"
    and "length jobs \<le> length (wq_jobs q)"
    and "leaving x \<Longrightarrow> wq_stopped q" and "x = Exited \<Longrightarrow> jobs = []"
  shows "wb_inv (set_worker i x (q\<lparr>wq_jobs := jobs, wq_done := dn\<rparr>))"
proof -
  let ?ws = "(wq_workers q)[i := x]"
  have b: "in_flight ?ws + held (wq_workers q ! i) = in_flight (wq_workers q) + held x"
    using in_flight_update [OF assms(2)] .
  have "mset jobs + in_flight ?ws + mset (map fst dn) + held (wq_workers q ! i) =
      mset (wq_jobs q) + in_flight (wq_workers q) + mset (map fst (wq_done q)) + held (wq_workers q ! i)"
  proof -
    have "mset jobs + in_flight ?ws + mset (map fst dn) + held (wq_workers q ! i) =
        (mset jobs + held x + mset (map fst dn)) + in_flight (wq_workers q)"
      using b by (simp add: ac_simps)
    then show ?thesis unfolding assms(3) by (simp add: ac_simps)
  qed
  then have acc: "mset (wq_accepted q) = mset jobs + in_flight ?ws + mset (map fst dn)"
    using assms(1) unfolding wb_inv_def by (metis add_right_cancel)
  have mem: "y \<in> set ?ws \<Longrightarrow> y = x \<or> y \<in> set (wq_workers q)" for y
    using set_update_subset_insert [of "wq_workers q" i x] by blast
  have empty: "Exited \<in> set ?ws \<and> \<not> wq_late q \<longrightarrow> jobs = []"
    using mem [of Exited] assms(1,4,6) unfolding wb_inv_def by fastforce
  show ?thesis
    using assms(1,4,5) acc mem empty unfolding wb_inv_def set_worker_def by fastforce
qed

lemma leaving_stopped:
  "wb_inv q \<Longrightarrow> i < length (wq_workers q) \<Longrightarrow> leaving (wq_workers q ! i) \<Longrightarrow> wq_stopped q"
  unfolding wb_inv_def using nth_mem by blast

lemma wb_step_inv: "wb_step st st' \<Longrightarrow> wb_inv (fst st) \<Longrightarrow> wb_inv (fst st')"
proof (induction rule: wb_step.induct)
  case (wb_submit q s w job)
  then show ?case by (simp add: Submit_inv)
next
  case (wb_take i q job jobs s w)
  then show ?case using worker_move [of q i jobs "Working job" "wq_done q"] by (simp add: leaving_def)
next
  case (wb_finish i q job stop s w result job' s' w')
  then show ?case
    using worker_move [of q i "wq_jobs q" Idle "(job, result) # wq_done q"] by (simp add: leaving_def)
next
  case (wb_stop q s w)
  then show ?case by (auto simp: wb_inv_def)
next
  case (wb_notice i q s w)
  then show ?case using worker_move [of q i "wq_jobs q" Draining "wq_done q"] by (simp add: leaving_def)
next
  case (wb_drain i q job jobs s w)
  then have "wq_stopped q" using leaving_stopped [of q i] by (simp add: leaving_def)
  with wb_drain show ?case using worker_move [of q i jobs "DrainWorking job" "wq_done q"] by simp
next
  case (wb_drained i q job s w result job' s' w')
  then have "wq_stopped q" using leaving_stopped [of q i] by (simp add: leaving_def)
  with wb_drained show ?case
    using worker_move [of q i "wq_jobs q" Draining "(job, result) # wq_done q"] by simp
next
  case (wb_exit i q s w)
  then have "wq_stopped q" using leaving_stopped [of q i] by (simp add: leaving_def)
  with wb_exit worker_move [of q i "[]" Exited "wq_done q"]
  have "wb_inv (set_worker i Exited (q\<lparr>wq_jobs := [], wq_done := wq_done q\<rparr>))" by simp
  moreover have "q\<lparr>wq_jobs := [], wq_done := wq_done q\<rparr> = q" using wb_exit(3) by (cases q) simp
  ultimately show ?case by (simp only: fst_conv)
next
  case (wb_env q s w s' w')
  then show ?case by simp
qed

lemma wb_run_inv: "wb_step\<^sup>*\<^sup>* st st' \<Longrightarrow> wb_inv (fst st) \<Longrightarrow> wb_inv (fst st')"
  by (induction rule: rtranclp_induct) (auto intro: wb_step_inv)

section \<open>Properties\<close>

text \<open>A job is either uploaded and cleaned up or left as it was. If processing ends with
  metadata, the object in S3 is the staging file's content under the job's key and that file
  is removed; otherwise no file changed. Either way nothing else in S3 changed, and nothing was
  written there but the file's content.\<close>

theorem process_uploads:
  assumes "wrote = wrote_only objs (c_bucket c, uj_Key job) (fmlookup (files s) (uj_FilePath job))"
    and "s3_ok (c_inner c) objs" and "getClient (uj_Bucket job) = Some c"
    and "process getClient maxRetries stop job s w = (r, job', s', w')"
  shows "wrote w w' \<and>
    (case ur_Meta r of
       None \<Rightarrow> s' = s
     | Some meta \<Rightarrow> ur_Err r = None \<and> s' = snd (os_Remove (uj_FilePath job) s) \<and>
         (\<exists>d. fmlookup (files s) (uj_FilePath job) = Some d \<and>
            objs w' (c_bucket c, uj_Key job) = Some (d, om_ETag meta)))"
  using upload_attempts_spec [OF assms(2), of "nat (maxRetries + 1)" 0 stop job None s w r s' w'] assms(1,3,4)
  by (auto simp: process_def split: prod.splits)

text \<open>An upload is tried \<open>maxRetries + 1\<close> times. If every attempt fails and the queue is not
  stopped, S3 has seen exactly that many attempts, the file stays, and the result is the error
  of the last attempt, which goes nowhere when the job has no result channel.\<close>

theorem process_retries:
  assumes "\<And>w. isl (fst (upload c job s w))" and "\<And>k. \<not> stop k" and "getClient (uj_Bucket job) = Some c"
    and "0 \<le> maxRetries" and "uj_DoneCh job = None"
  shows "\<exists>e. process getClient maxRetries stop job s w =
    (\<lparr>ur_Meta = None, ur_Err = Some e\<rparr>, job, s, ((\<lambda>w. snd (upload c job s w)) ^^ (nat maxRetries + 1)) w)"
proof -
  have "nat (maxRetries + 1) = Suc (nat maxRetries)" using assms(4) by simp
  then show ?thesis
    using upload_attempts_all_fail [of c job s stop, OF assms(1,2)] assms(3,5)
    by (simp add: process_def sendResult_def del: funpow.simps(2))
qed

text \<open>C13: no job is lost or done twice. In every run from an empty queue, the jobs accepted so
  far are exactly those waiting, those a worker holds and those done, each as often as it was
  accepted; and the queue never holds more than its capacity.\<close>

theorem writeback_conserves_jobs:
  assumes "wb_step\<^sup>*\<^sup>* (NewWriteBackQueue n sz r gc, s, w) (q, s', w')"
  shows "mset (wq_accepted q) = mset (wq_jobs q) + in_flight (wq_workers q) + mset (map fst (wq_done q)) \<and>
    length (wq_jobs q) \<le> wq_cap q"
  using wb_run_inv [OF assms] NewWriteBackQueue_inv [of n sz r gc] by (simp add: wb_inv_def)

text \<open>\<open>Stop\<close> waits for everything accepted before it. In every run, once all the workers (at
  least one) have exited and no job was accepted after the stop channel was closed, every
  accepted job has been processed.\<close>

theorem writeback_stop_drains:
  assumes "wb_step\<^sup>*\<^sup>* (NewWriteBackQueue n sz r gc, s, w) (q, s', w')"
    and "set (wq_workers q) = {Exited}" and "\<not> wq_late q"
  shows "wq_jobs q = [] \<and> mset (map fst (wq_done q)) = mset (wq_accepted q)"
proof -
  have i: "wb_inv q" using wb_run_inv [OF assms(1)] NewWriteBackQueue_inv [of n sz r gc] by simp
  then have "wq_jobs q = []" using assms(2,3) by (simp add: wb_inv_def)
  moreover have "in_flight (wq_workers q) = {#}" using assms(2) by (intro in_flight_exited) simp
  ultimately show ?thesis using i by (simp add: wb_inv_def)
qed

lemma wb_exited_step:
  "wb_step st st' \<Longrightarrow> set (wq_workers (fst st)) \<subseteq> {Exited} \<Longrightarrow>
     wq_workers (fst st') = wq_workers (fst st) \<and> wq_done (fst st') = wq_done (fst st) \<and>
     (\<exists>js. wq_jobs (fst st') = wq_jobs (fst st) @ js)"
  by (induction rule: wb_step.induct) (auto simp: Submit_def dest!: nth_mem)

lemma wb_exited_run:
  "wb_step\<^sup>*\<^sup>* st st' \<Longrightarrow> set (wq_workers (fst st)) \<subseteq> {Exited} \<Longrightarrow>
     wq_workers (fst st') = wq_workers (fst st) \<and> wq_done (fst st') = wq_done (fst st) \<and>
     (\<exists>js. wq_jobs (fst st') = wq_jobs (fst st) @ js)"
proof (induction rule: rtranclp_induct)
  case (step y z)
  with wb_exited_step [OF step(2)] show ?case by auto
qed simp

text \<open>A job accepted after the workers are gone is never uploaded. Once all have exited,
  whatever happens, the waiting jobs stay in the queue in order and no more job is done, though
  \<open>Submit\<close> still reports success.\<close>

theorem writeback_late_job_stuck:
  assumes "set (wq_workers q) \<subseteq> {Exited}" and "wb_step\<^sup>*\<^sup>* (snd (Submit job q), s, w) (q', s', w')"
    and "fst (Submit job q) = None"
  shows "job \<in> set (wq_jobs q') \<and> wq_done q' = wq_done q"
  using wb_exited_run [OF assms(2)] assms(1,3) by (auto simp: Submit_def split: if_splits)

section \<open>Witnesses\<close>

definition demo_job :: UploadJob where
  "demo_job = \<lparr>uj_Bucket = ''b'', uj_Key = ''d/f'', uj_FilePath = ''/tmp/t'', uj_Size = 3, uj_Retries = 0,
     uj_DoneCh = None\<rparr>"

definition demo_s3 :: "mem_world client" where
  "demo_s3 = \<lparr>c_inner = mem_s3, c_bucket = ''b''\<rparr>"

definition staged_os :: os where
  "staged_os = demo_os\<lparr>files := fmupd ''/tmp/t'' ''xyz'' fmempty\<rparr>"

lemma demo_process:
  "process (\<lambda>_. Some demo_s3) 3 (\<lambda>_. False) demo_job staged_os [] =
     (\<lparr>ur_Meta = Some \<lparr>om_ETag = ''xyz'', om_Size = 3, om_LastModified = zero_time, om_ContentType = []\<rparr>, ur_Err = None\<rparr>,
      demo_job, snd (os_Remove ''/tmp/t'' staged_os), [((''b'', ''d/f''), ''xyz'', 0)])"
  by (simp add: process_def upload_def os_Open_def os_Stat_def staged_os_def demo_os_def demo_job_def demo_s3_def
      PutObject_def mem_s3_def sendResult_def numeral_eq_Suc)

theorem process_uploads_witness:
  "mem_objs [((''b'', ''d/f''), ''xyz'', 0)] (''b'', ''d/f'') = Some (''xyz'', ''xyz'')"
proof -
  have "s3_ok (c_inner demo_s3) mem_objs" by (simp add: demo_s3_def mem_s3_ok)
  from process_uploads [OF refl this refl demo_process] show ?thesis
    by (auto simp: demo_s3_def demo_job_def staged_os_def)
qed

text \<open>An S3 that refuses every write and counts the attempts.\<close>

definition refusing_s3 :: "nat client" where
  "refusing_s3 = \<lparr>c_inner = \<lparr>aws_Get = (\<lambda>b k w. (Inl no_such_key, w)),
     aws_Put = (\<lambda>b k d sz w. (Inl (errorf ''denied''), Suc w)), aws_Head = (\<lambda>b k w. (Inl no_such_key, w)),
     aws_Delete = (\<lambda>b k w. (None, w)), aws_List = (\<lambda>b p d m t w. (Inl (errorf ''denied''), w)),
     aws_Copy = (\<lambda>b s k w. (Some no_such_key, w))\<rparr>, c_bucket = ''b''\<rparr>"

lemma refusing_upload: "upload refusing_s3 demo_job staged_os w = (Inl (wrapf ''s3 put'' (errorf ''denied'')), Suc w)"
  by (simp add: upload_def os_Open_def os_Stat_def staged_os_def demo_os_def demo_job_def refusing_s3_def PutObject_def)

lemma demo_job_no_chan: "uj_DoneCh demo_job = None"
  by (simp add: demo_job_def)

theorem process_retries_witness:
  "\<exists>e. process (\<lambda>_. Some refusing_s3) 3 (\<lambda>_. False) demo_job staged_os 0 =
     (\<lparr>ur_Meta = None, ur_Err = Some e\<rparr>, demo_job, staged_os, 4)"
  using process_retries [of refusing_s3 demo_job staged_os "\<lambda>_. False" "\<lambda>_. Some refusing_s3" 3 0]
  by (simp add: refusing_upload demo_job_no_chan numeral_eq_Suc)

definition demo_queue :: "mem_world WriteBackQueue" where
  "demo_queue = NewWriteBackQueue 1 8 3 (\<lambda>_. Some demo_s3)"

text \<open>A run: one job is submitted, taken and done, then the queue is stopped.\<close>

lemma demo_wb_run:
  "\<exists>q s w. wb_step\<^sup>*\<^sup>* (demo_queue, staged_os, []) (q, s, w) \<and> wq_workers q = [Exited] \<and> \<not> wq_late q \<and>
     wq_accepted q = [demo_job] \<and> wq_cap q = 8"
proof -
  let ?q1 = "snd (Submit demo_job demo_queue)"
  let ?q2 = "set_worker 0 (Working demo_job) (?q1\<lparr>wq_jobs := []\<rparr>)"
  let ?r = "\<lparr>ur_Meta = Some \<lparr>om_ETag = ''xyz'', om_Size = 3, om_LastModified = zero_time, om_ContentType = []\<rparr>, ur_Err = None\<rparr>"
  let ?q3 = "set_worker 0 Idle (?q2\<lparr>wq_done := (demo_job, ?r) # wq_done ?q2\<rparr>)"
  let ?q4 = "?q3\<lparr>wq_stopped := True\<rparr>"
  let ?q5 = "set_worker 0 Draining ?q4"
  let ?q6 = "set_worker 0 Exited ?q5"
  let ?s = "snd (os_Remove ''/tmp/t'' staged_os)" and ?w = "[((''b'', ''d/f''), ''xyz'', 0)] :: mem_world"
  have "wb_step (demo_queue, staged_os, []) (?q1, staged_os, [])" by (rule wb_submit)
  moreover have "wb_step (?q1, staged_os, []) (?q2, staged_os, [])"
    by (rule wb_take) (simp_all add: demo_queue_def NewWriteBackQueue_def Submit_def)
  moreover have "wb_step (?q2, staged_os, []) (?q3, ?s, ?w)"
    by (rule wb_finish [where stop = "\<lambda>_. False" and job' = demo_job])
      (simp_all add: demo_queue_def NewWriteBackQueue_def Submit_def set_worker_def demo_process)
  moreover have "wb_step (?q3, ?s, ?w) (?q4, ?s, ?w)" by (rule wb_stop)
  moreover have "wb_step (?q4, ?s, ?w) (?q5, ?s, ?w)"
    by (rule wb_notice) (simp_all add: demo_queue_def NewWriteBackQueue_def Submit_def set_worker_def)
  moreover have "wb_step (?q5, ?s, ?w) (?q6, ?s, ?w)"
    by (rule wb_exit) (simp_all add: demo_queue_def NewWriteBackQueue_def Submit_def set_worker_def)
  ultimately have "wb_step\<^sup>*\<^sup>* (demo_queue, staged_os, []) (?q6, ?s, ?w)" by (meson converse_rtranclp_into_rtranclp rtranclp.rtrancl_refl)
  moreover have "wq_workers ?q6 = [Exited]" "\<not> wq_late ?q6" "wq_accepted ?q6 = [demo_job]" "wq_cap ?q6 = 8"
    by (simp_all add: demo_queue_def NewWriteBackQueue_def Submit_def set_worker_def)
  ultimately show ?thesis by (intro exI conjI)
qed

theorem writeback_conserves_jobs_witness:
  "\<exists>q s w. wb_step\<^sup>*\<^sup>* (demo_queue, staged_os, []) (q, s, w) \<and> wq_accepted q = [demo_job] \<and>
     mset (wq_jobs q) + in_flight (wq_workers q) + mset (map fst (wq_done q)) = {#demo_job#}"
proof -
  obtain q s w where r: "wb_step\<^sup>*\<^sup>* (demo_queue, staged_os, []) (q, s, w)" "wq_accepted q = [demo_job]"
    using demo_wb_run by blast
  from writeback_conserves_jobs [OF r(1) [unfolded demo_queue_def]] r(2)
  have "mset (wq_jobs q) + in_flight (wq_workers q) + mset (map fst (wq_done q)) = {#demo_job#}" by simp
  with r show ?thesis by (intro exI conjI)
qed

theorem writeback_stop_drains_witness:
  "\<exists>q s w. wb_step\<^sup>*\<^sup>* (demo_queue, staged_os, []) (q, s, w) \<and> mset (map fst (wq_done q)) = {#demo_job#}"
proof -
  obtain q s w where r: "wb_step\<^sup>*\<^sup>* (demo_queue, staged_os, []) (q, s, w)" "wq_workers q = [Exited]" "\<not> wq_late q"
      "wq_accepted q = [demo_job]"
    using demo_wb_run by blast
  have "set (wq_workers q) = {Exited}" using r(2) by simp
  from writeback_stop_drains [OF r(1) [unfolded demo_queue_def] this r(3)] r(4)
  have "mset (map fst (wq_done q)) = {#demo_job#}" by simp
  with r(1) show ?thesis by (intro exI conjI)
qed

theorem writeback_late_job_stuck_witness:
  "demo_job \<in> set (wq_jobs (snd (Submit demo_job (demo_queue\<lparr>wq_workers := [Exited], wq_stopped := True\<rparr>))))"
  using writeback_late_job_stuck [of "demo_queue\<lparr>wq_workers := [Exited], wq_stopped := True\<rparr>" demo_job
      staged_os "[]", OF _ rtranclp.rtrancl_refl]
  by (simp add: Submit_def demo_queue_def NewWriteBackQueue_def)

end
