(* ===== verification/Fuse_Node.thy ===== *)
theory Fuse_Node
  imports Cache_Manager Catalog Write_Back
begin

text \<open>
  \<open>internal/fuse/common.go\<close>, \<open>root.go\<close> and \<open>file.go\<close>: what the nodes of one mount share, the
  root's constant answers and the file nodes. The context's pointers lead to state other
  mounts share; the record holds that state, together with the file system and S3 it acts on.
\<close>

section \<open>The shared context\<close>

record ('db, 'w) bucketCtx =
  bx_s3 :: "'w client"
  bx_cache :: "'db Manager"
  bx_catalog :: "'w Catalog"
  bx_writeBack :: "'w WriteBackQueue option"    \<comment> \<open>\<open>None\<close> when write-back is off\<close>
  bx_bucket :: string
  bx_ttl :: duration
  bx_soleWriter :: bool
  bx_os :: os
  bx_world :: 'w

definition NewRoot ::
  "'w client \<Rightarrow> 'db Manager \<Rightarrow> 'w Catalog \<Rightarrow> 'w WriteBackQueue option \<Rightarrow> string \<Rightarrow> duration \<Rightarrow> bool \<Rightarrow>
   os \<Rightarrow> 'w \<Rightarrow> ('db, 'w) bucketCtx \<times> string" where
  "NewRoot s3c cm cat wb bucket ttl soleWriter s w =
     (\<lparr>bx_s3 = s3c, bx_cache = cm, bx_catalog = cat, bx_writeBack = wb, bx_bucket = bucket,
       bx_ttl = ttl, bx_soleWriter = soleWriter, bx_os = s, bx_world = w\<rparr>, [])"

text \<open>Operations of the shared components on the context; the ignored results are dropped by the code.\<close>

definition ctx_catalog_Put :: "Entry \<Rightarrow> ('db, 'w) bucketCtx \<Rightarrow> ('db, 'w) bucketCtx" where
  "ctx_catalog_Put e x = x\<lparr>bx_catalog := snd (cat_Put (bx_bucket x) e (bx_catalog x))\<rparr>"

definition ctx_catalog_Delete :: "string \<Rightarrow> ('db, 'w) bucketCtx \<Rightarrow> ('db, 'w) bucketCtx" where
  "ctx_catalog_Delete key x = x\<lparr>bx_catalog := snd (cat_Delete (bx_bucket x) key (bx_catalog x))\<rparr>"

definition ctx_catalog_DeletePrefix :: "string \<Rightarrow> ('db, 'w) bucketCtx \<Rightarrow> ('db, 'w) bucketCtx" where
  "ctx_catalog_DeletePrefix prefix x = x\<lparr>bx_catalog := snd (cat_DeletePrefix (bx_bucket x) prefix (bx_catalog x))\<rparr>"

definition ctx_cache_Put ::
  "string \<Rightarrow> string \<times> bytes \<Rightarrow> ObjectMeta \<Rightarrow> time \<Rightarrow> ('db, 'w) bucketCtx \<Rightarrow> ('db, 'w) bucketCtx" where
  "ctx_cache_Put key src meta now x =
     (case cm_Put (bx_bucket x) key src meta now (bx_cache x) (bx_os x) of
        (_, cm, s) \<Rightarrow> x\<lparr>bx_cache := cm, bx_os := s\<rparr>)"

definition ctx_cache_Invalidate :: "string \<Rightarrow> ('db, 'w) bucketCtx \<Rightarrow> ('db, 'w) bucketCtx" where
  "ctx_cache_Invalidate key x =
     (case cm_Invalidate (bx_bucket x) key (bx_cache x) (bx_os x) of
        (_, cm, s) \<Rightarrow> x\<lparr>bx_cache := cm, bx_os := s\<rparr>)"

text \<open>The catalog entry of a file, as its callers build it.\<close>

definition file_entry :: "string \<Rightarrow> int \<Rightarrow> string \<Rightarrow> time \<Rightarrow> Entry" where
  "file_entry key sz etag modified =
     (case SplitKeyExported key of (parent, baseName) \<Rightarrow>
        \<lparr>e_Key = key, e_Parent = parent, e_Name = baseName, e_Size = sz, e_ETag = etag,
         e_Modified = modified, e_IsDir = False\<rparr>)"

section \<open>The root\<close>

record statfs_out =
  sf_Blocks :: int
  sf_Bfree :: int
  sf_Bavail :: int
  sf_Bsize :: int
  sf_NameLen :: int
  sf_Frsize :: int
  sf_Files :: int
  sf_Ffree :: int

definition Statfs :: "statfs_out \<times> errno" where
  "Statfs =
     (\<lparr>sf_Blocks = 2 ^ 30, sf_Bfree = 2 ^ 30, sf_Bavail = 2 ^ 30, sf_Bsize = 4096, sf_NameLen = 255,
       sf_Frsize = 4096, sf_Files = 2 ^ 20, sf_Ffree = 2 ^ 20\<rparr>, OK)"

section \<open>File nodes\<close>

record FileNode =
  fn_key :: string
  fn_size :: int
  fn_etag :: string
  fn_mtime :: time

text \<open>The attributes a node reports; \<open>at_valid\<close> is the kernel's caching time in seconds.\<close>

datatype file_type = S_IFREG | S_IFDIR

record attr_out =
  at_perm :: int
  at_type :: "file_type option"
  at_nlink :: int
  at_size :: int
  at_time :: time
  at_valid :: int

definition fn_snapshot :: "FileNode \<Rightarrow> int \<times> string \<times> time" where
  "fn_snapshot f = (fn_size f, fn_etag f, fn_mtime f)"

definition fn_update :: "int \<Rightarrow> string \<Rightarrow> time \<Rightarrow> FileNode \<Rightarrow> FileNode" where
  "fn_update sz etag mtime f = f\<lparr>fn_size := sz, fn_etag := etag, fn_mtime := mtime\<rparr>"

definition fn_setSize :: "int \<Rightarrow> FileNode \<Rightarrow> FileNode" where
  "fn_setSize sz f = f\<lparr>fn_size := sz\<rparr>"

definition fn_etagSnapshot :: "FileNode \<Rightarrow> string" where
  "fn_etagSnapshot f = fn_etag f"

definition node_Access :: errno where
  "node_Access = OK"

text \<open>0666 is octal; \<open>out.Size\<close> is \<open>uint64(size)\<close>.\<close>

definition file_attr :: "FileNode \<Rightarrow> int \<Rightarrow> attr_out" where
  "file_attr f valid =
     (case fn_snapshot f of (sz, _, mtime) \<Rightarrow>
        \<lparr>at_perm = 438, at_type = None, at_nlink = 1, at_size = u64 sz, at_time = mtime, at_valid = valid\<rparr>)"

definition fn_Getattr :: "FileNode \<Rightarrow> attr_out \<times> errno" where
  "fn_Getattr f = (file_attr f 1, OK)"

text \<open>\<open>in_size\<close> is the new size if the request sets one, a \<open>uint64\<close> converted to \<open>int64\<close>.\<close>

definition fn_Setattr :: "int option \<Rightarrow> FileNode \<Rightarrow> attr_out \<times> errno \<times> FileNode" where
  "fn_Setattr in_size f =
     (let f = (case in_size of Some sz \<Rightarrow> fn_setSize (i64 sz) f | None \<Rightarrow> f)
      in (file_attr f 0, OK, f))"

end
