(* ===== verification/Fuse_Handle.thy ===== *)
theory Fuse_Handle
  imports Fuse_Node
begin

text \<open>
  \<open>internal/fuse/handle.go\<close>: an open file. A handle points to its file node, which other
  handles of the file share: the node and the mount's context are passed beside the handle
  and returned. Nobody else touches the handle's temporary file while it is open.
\<close>

section \<open>State\<close>

text \<open>\<open>h.tmpFile\<close>: nil, an open file, or a file that was closed and not replaced.\<close>

datatype tmp_file = NilFile | OpenFile string | ClosedFile string

record 'w Handle =
  h_s3 :: "'w client"
  h_bucket :: string
  h_key :: string
  h_ttl :: duration
  h_soleWriter :: bool
  h_tmpFile :: tmp_file
  h_dirty :: bool

definition newHandle ::
  "FileNode \<Rightarrow> ('db, 'w) bucketCtx \<Rightarrow> (go_error + 'w Handle) \<times> ('db, 'w) bucketCtx" where
  "newHandle f x =
     (case os_CreateTemp [] ''s3gw-upload-*'' (bx_os x) of
        (Inl err, s) \<Rightarrow> (Inl err, x\<lparr>bx_os := s\<rparr>)
      | (Inr name, s) \<Rightarrow>
          (Inr \<lparr>h_s3 = bx_s3 x, h_bucket = bx_bucket x, h_key = fn_key f, h_ttl = bx_ttl x,
                h_soleWriter = bx_soleWriter x, h_tmpFile = OpenFile name, h_dirty = False\<rparr>,
           x\<lparr>bx_os := s\<rparr>))"

definition fn_Open ::
  "FileNode \<Rightarrow> ('db, 'w) bucketCtx \<Rightarrow> ('w Handle option \<times> errno) \<times> ('db, 'w) bucketCtx" where
  "fn_Open f x =
     (case newHandle f x of
        (Inl err, x) \<Rightarrow> ((None, EIO), x)
      | (Inr handle, x) \<Rightarrow> ((Some handle, OK), x))"

section \<open>The temporary file\<close>

definition file_closed :: go_error where
  "file_closed = errorf ''file already closed''"

text \<open>The contents behind an open temporary file.\<close>

definition tmp_contents :: "tmp_file \<Rightarrow> os \<Rightarrow> bytes" where
  "tmp_contents t s = (case t of OpenFile p \<Rightarrow> (case fmlookup (files s) p of Some c \<Rightarrow> c | None \<Rightarrow> []) | _ \<Rightarrow> [])"

definition tmp_ReadAt :: "tmp_file \<Rightarrow> nat \<Rightarrow> int \<Rightarrow> os \<Rightarrow> go_error + bytes \<times> bool" where
  "tmp_ReadAt t n off s =
     (case t of
        OpenFile p \<Rightarrow>
          (case fault s OpReadAt p of Some e \<Rightarrow> Inl e | None \<Rightarrow> read_at (tmp_contents t s) n off)
      | _ \<Rightarrow> Inl file_closed)"

text \<open>A failing \<open>WriteAt\<close> may have written a part of the data.\<close>

definition tmp_WriteAt :: "tmp_file \<Rightarrow> bytes \<Rightarrow> int \<Rightarrow> os \<Rightarrow> (go_error + int) \<times> os" where
  "tmp_WriteAt t data off s =
     (case t of
        OpenFile p \<Rightarrow>
          if off < 0 then (Inl (errorf ''negative offset''), s)
          else (case fault s OpWriteAt p of
             Some e \<Rightarrow>
               (Inl e, s\<lparr>files := fmupd p (write_at (tmp_contents t s) (take (copied s p) data) (nat off)) (files s)\<rparr>)
           | None \<Rightarrow>
               (Inr (int (length data)), s\<lparr>files := fmupd p (write_at (tmp_contents t s) data (nat off)) (files s)\<rparr>))
      | _ \<Rightarrow> (Inl file_closed, s))"

definition tmp_Seek :: "tmp_file \<Rightarrow> os \<Rightarrow> go_error option" where
  "tmp_Seek t s = (case t of OpenFile p \<Rightarrow> fault s OpSeek p | _ \<Rightarrow> Some file_closed)"

definition tmp_Stat :: "tmp_file \<Rightarrow> os \<Rightarrow> go_error + int" where
  "tmp_Stat t s =
     (case t of
        OpenFile p \<Rightarrow> (case fault s OpStat p of Some e \<Rightarrow> Inl e | None \<Rightarrow> Inr (int (length (tmp_contents t s))))
      | _ \<Rightarrow> Inl file_closed)"

section \<open>Reading\<close>

definition downloadToCache ::
  "'w Handle \<Rightarrow> time \<Rightarrow> FileNode \<Rightarrow> ('db, 'w) bucketCtx \<Rightarrow> go_error option \<times> FileNode \<times> ('db, 'w) bucketCtx" where
  "downloadToCache h now f x =
     (case GetObject (h_s3 h) (h_key h) (bx_world x) of
        (Inl err, w) \<Rightarrow> (Some err, f, x\<lparr>bx_world := w\<rparr>)
      | (Inr (body, body_err, meta), w) \<Rightarrow>
          (let x = x\<lparr>bx_world := w\<rparr> in
           case os_CreateTemp [] ''s3gw-cache-*'' (bx_os x) of
             (Inl err, s) \<Rightarrow> (Some err, f, x\<lparr>bx_os := s\<rparr>)
           | (Inr cacheTmpName, s) \<Rightarrow>
               (case io_Copy cacheTmpName body body_err s of
                  (Some err, s) \<Rightarrow> (Some err, f, x\<lparr>bx_os := snd (os_Remove cacheTmpName s)\<rparr>)
                | (None, s) \<Rightarrow>
                    (let x = ctx_cache_Put (h_key h) (cacheTmpName, body) meta now (x\<lparr>bx_os := s\<rparr>)
                     in (None, fn_update (om_Size meta) (om_ETag meta) (om_LastModified meta) f,
                         x\<lparr>bx_os := snd (os_Remove cacheTmpName (bx_os x))\<rparr>)))))"

definition fetchFromS3AndCache ::
  "'w Handle \<Rightarrow> nat \<Rightarrow> int \<Rightarrow> time \<Rightarrow> FileNode \<Rightarrow> ('db, 'w) bucketCtx \<Rightarrow>
   (errno + bytes) \<times> FileNode \<times> ('db, 'w) bucketCtx" where
  "fetchFromS3AndCache h n off now f x =
     (case downloadToCache h now f x of
        (Some err, f, x) \<Rightarrow> (Inl (TranslateError (Some err)), f, x)
      | (None, f, x) \<Rightarrow>
          (case ds_Read (cm_store (bx_cache x)) (h_bucket h) (h_key h) off n (bx_os x) of
             Inl rerr \<Rightarrow> (Inl EIO, f, x)
           | Inr (d, eof) \<Rightarrow> (Inr d, f, x)))"

text \<open>The ETag S3 has: from the catalog if it knows one, else from a \<open>HeadObject\<close>.\<close>

definition remote_etag ::
  "'w Handle \<Rightarrow> time \<Rightarrow> ('db, 'w) bucketCtx \<Rightarrow> string \<times> ('db, 'w) bucketCtx" where
  "remote_etag h now x =
     (case cat_Lookup (h_bucket h) (h_key h) now (bx_catalog x) of (ans, cat) \<Rightarrow>
        (let x = x\<lparr>bx_catalog := cat\<rparr>;
             remoteETag = (case ans of Inr (Some catEntry) \<Rightarrow> e_ETag catEntry | _ \<Rightarrow> [])
         in if remoteETag \<noteq> [] then (remoteETag, x)
            else (case HeadObject (h_s3 h) (h_key h) (bx_world x) of
                    (Inl _, w) \<Rightarrow> ([], x\<lparr>bx_world := w\<rparr>)
                  | (Inr s3Meta, w) \<Rightarrow> (om_ETag s3Meta, x\<lparr>bx_world := w\<rparr>))))"

text \<open>The part of \<open>Read\<close> that tries a cached copy whose time is over.\<close>

definition revalidate ::
  "'w Handle \<Rightarrow> CacheEntry option \<Rightarrow> nat \<Rightarrow> int \<Rightarrow> time \<Rightarrow> ('db, 'w) bucketCtx \<Rightarrow>
   bytes option \<times> ('db, 'w) bucketCtx" where
  "revalidate h entry n off now x =
     (case entry of
        None \<Rightarrow> (None, x)
      | Some e \<Rightarrow>
          if h_soleWriter h then (None, x)
          else (case remote_etag h now x of (remoteETag, x) \<Rightarrow>
            if remoteETag \<noteq> [] \<and> remoteETag = ce_ETag e
            then (let x = x\<lparr>bx_cache := snd (cm_Touch (h_bucket h) (h_key h) now (bx_cache x))\<rparr>
                  in case ds_Read (cm_store (bx_cache x)) (h_bucket h) (h_key h) off n (bx_os x) of
                       Inr (d, eof) \<Rightarrow> (Some d, x)
                     | Inl _ \<Rightarrow> (None, x))
            else (None, x)))"

definition h_Read ::
  "'w Handle \<Rightarrow> nat \<Rightarrow> int \<Rightarrow> time \<Rightarrow> FileNode \<Rightarrow> ('db, 'w) bucketCtx \<Rightarrow>
   (errno + bytes) \<times> FileNode \<times> ('db, 'w) bucketCtx" where
  "h_Read h n off now f x =
     (if h_dirty h then
        (case tmp_ReadAt (h_tmpFile h) n off (bx_os x) of
           Inl _ \<Rightarrow> (Inl EIO, f, x)
         | Inr (d, eof) \<Rightarrow> (Inr d, f, x))
      else (case cm_Get (h_bucket h) (h_key h) (h_ttl h) (h_soleWriter h) now (bx_os x) (bx_cache x) of
        ((_, entry, valid, err), cm) \<Rightarrow>
          (let x = x\<lparr>bx_cache := cm\<rparr>;
               cached = (if valid then ds_Read (cm_store cm) (h_bucket h) (h_key h) off n (bx_os x)
                         else Inl (errorf []))
           in case cached of
                Inr (d, eof) \<Rightarrow> (Inr d, f, x)
              | Inl _ \<Rightarrow>
                  (case revalidate h entry n off now x of
                     (Some d, x) \<Rightarrow> (Inr d, f, x)
                   | (None, x) \<Rightarrow> fetchFromS3AndCache h n off now f x))))"

section \<open>Writing\<close>

definition h_Write ::
  "'w Handle \<Rightarrow> bytes \<Rightarrow> int \<Rightarrow> ('db, 'w) bucketCtx \<Rightarrow> (int \<times> errno) \<times> 'w Handle \<times> ('db, 'w) bucketCtx" where
  "h_Write h data off x =
     (case tmp_WriteAt (h_tmpFile h) data off (bx_os x) of
        (Inl err, s) \<Rightarrow> ((0, EIO), h, x\<lparr>bx_os := s\<rparr>)
      | (Inr n, s) \<Rightarrow> ((take_bit 32 n, OK), h\<lparr>h_dirty := True\<rparr>, x\<lparr>bx_os := s\<rparr>))"

type_synonym ('db, 'w) flush_result = "errno \<times> 'w Handle \<times> FileNode \<times> ('db, 'w) bucketCtx"

definition syncUploadFromPath ::
  "'w Handle \<Rightarrow> string \<Rightarrow> int \<Rightarrow> time \<Rightarrow> FileNode \<Rightarrow> ('db, 'w) bucketCtx \<Rightarrow> ('db, 'w) flush_result" where
  "syncUploadFromPath h path sz now f x =
     (case os_Open path (bx_os x) of
        Inl err \<Rightarrow> (EIO, h, f, x)
      | Inr body \<Rightarrow>
          (case PutObject (h_s3 h) (h_key h) body sz (bx_world x) of
             (Inl err, w) \<Rightarrow>
               (EIO, h, f, x\<lparr>bx_world := w, bx_os := snd (os_Remove path (bx_os x))\<rparr>)
           | (Inr objMeta, w) \<Rightarrow>
               (OK, h, fn_update sz (om_ETag objMeta) now f,
                x\<lparr>bx_world := w, bx_os := snd (os_Remove path (bx_os x))\<rparr>)))"

text \<open>After a successful PUT the data goes to the cache and the entry to the catalog.\<close>

definition syncUpload ::
  "'w Handle \<Rightarrow> int \<Rightarrow> time \<Rightarrow> FileNode \<Rightarrow> ('db, 'w) bucketCtx \<Rightarrow> ('db, 'w) flush_result" where
  "syncUpload h sz now f x =
     (case tmp_Seek (h_tmpFile h) (bx_os x) of
        Some err \<Rightarrow> (EIO, h, f, x)
      | None \<Rightarrow>
          (case PutObject (h_s3 h) (h_key h) (tmp_contents (h_tmpFile h) (bx_os x)) sz (bx_world x) of
             (Inl err, w) \<Rightarrow> (EIO, h, f, x\<lparr>bx_world := w\<rparr>)
           | (Inr objMeta, w) \<Rightarrow>
               (let x = x\<lparr>bx_world := w\<rparr>;
                    x = (case h_tmpFile h of
                           OpenFile name \<Rightarrow>
                             (case os_Open name (bx_os x) of
                                Inr c \<Rightarrow> ctx_cache_Put (h_key h) (name, c) objMeta now x
                              | Inl _ \<Rightarrow> x)
                         | _ \<Rightarrow> x);
                    x = ctx_catalog_Put (file_entry (h_key h) sz (om_ETag objMeta) now) x
                in (OK, h\<lparr>h_dirty := False\<rparr>, fn_update sz (om_ETag objMeta) now f, x))))"

text \<open>
  The write-back branch of \<open>Flush\<close>: the temporary file \<open>tmpName\<close> is renamed to a staging
  name and a new one takes its place; then the catalog and the cache are told, and the upload
  is queued.
\<close>

definition flush_writeBack ::
  "'w Handle \<Rightarrow> string \<Rightarrow> int \<Rightarrow> 'w WriteBackQueue \<Rightarrow> time \<Rightarrow> FileNode \<Rightarrow> ('db, 'w) bucketCtx \<Rightarrow>
   ('db, 'w) flush_result" where
  "flush_writeBack h tmpName sz wb now f x =
     (let stagingName = tmpName @ ''.wb'' in
      case os_Rename tmpName stagingName (bx_os x) of
        (Some err, s) \<Rightarrow>
          (let x = x\<lparr>bx_os := s\<rparr> in
           case os_Open tmpName (bx_os x) of
             Inl reopenErr \<Rightarrow> (EIO, h\<lparr>h_tmpFile := ClosedFile tmpName\<rparr>, f, x)
           | Inr _ \<Rightarrow> syncUpload (h\<lparr>h_tmpFile := OpenFile tmpName\<rparr>) sz now f x)
      | (None, s) \<Rightarrow>
          (case os_CreateTemp [] ''s3gw-upload-*'' s of
             (Inl err, s) \<Rightarrow>
               (EIO, h\<lparr>h_tmpFile := ClosedFile tmpName\<rparr>, f, x\<lparr>bx_os := snd (os_Remove stagingName s)\<rparr>)
           | (Inr newTmp, s) \<Rightarrow>
               (let h = h\<lparr>h_tmpFile := OpenFile newTmp\<rparr>;
                    x = ctx_catalog_Put (file_entry (h_key h) sz [] now) (x\<lparr>bx_os := s\<rparr>);
                    dummyMeta = \<lparr>om_ETag = [], om_Size = sz, om_LastModified = now, om_ContentType = []\<rparr>;
                    x = (case os_Open stagingName (bx_os x) of
                           Inr c \<Rightarrow> ctx_cache_Put (h_key h) (stagingName, c) dummyMeta now x
                         | Inl _ \<Rightarrow> x);
                    f = fn_update sz (fn_etagSnapshot f) now f;
                    h = h\<lparr>h_dirty := False\<rparr>;
                    job = \<lparr>uj_Bucket = h_bucket h, uj_Key = h_key h, uj_FilePath = stagingName, uj_Size = sz,
                           uj_Retries = 0, uj_DoneCh = None\<rparr>
                in case Submit job wb of
                     (Some err, wb) \<Rightarrow> syncUploadFromPath h stagingName sz now f (x\<lparr>bx_writeBack := Some wb\<rparr>)
                   | (None, wb) \<Rightarrow> (OK, h, f, x\<lparr>bx_writeBack := Some wb\<rparr>))))"

definition h_Flush :: "'w Handle \<Rightarrow> time \<Rightarrow> FileNode \<Rightarrow> ('db, 'w) bucketCtx \<Rightarrow> ('db, 'w) flush_result" where
  "h_Flush h now f x =
     (if \<not> h_dirty h then (OK, h, f, x)
      else (case tmp_Seek (h_tmpFile h) (bx_os x) of
        Some err \<Rightarrow> (EIO, h, f, x)
      | None \<Rightarrow>
          (case tmp_Stat (h_tmpFile h) (bx_os x) of
             Inl err \<Rightarrow> (EIO, h, f, x)
           | Inr sz \<Rightarrow>
               (case (bx_writeBack x, h_tmpFile h) of
                  (Some wb, OpenFile tmpName) \<Rightarrow> flush_writeBack h tmpName sz wb now f x
                | _ \<Rightarrow> syncUpload h sz now f x))))"

definition h_Fsync :: "'w Handle \<Rightarrow> time \<Rightarrow> FileNode \<Rightarrow> ('db, 'w) bucketCtx \<Rightarrow> ('db, 'w) flush_result" where
  "h_Fsync h now f x = h_Flush h now f x"

definition h_Release :: "'w Handle \<Rightarrow> ('db, 'w) bucketCtx \<Rightarrow> errno \<times> 'w Handle \<times> ('db, 'w) bucketCtx" where
  "h_Release h x =
     (case h_tmpFile h of
        NilFile \<Rightarrow> (OK, h, x)
      | OpenFile name \<Rightarrow> (OK, h\<lparr>h_tmpFile := NilFile\<rparr>, x\<lparr>bx_os := snd (os_Remove name (bx_os x))\<rparr>)
      | ClosedFile name \<Rightarrow> (OK, h\<lparr>h_tmpFile := NilFile\<rparr>, x\<lparr>bx_os := snd (os_Remove name (bx_os x))\<rparr>))"

end
