(* ===== verification/Byte_File.thy ===== *)
theory Byte_File
  imports Os_Model
begin

text \<open>
  The contract of a file that is read and written at offsets: a length and a byte at every
  offset below it. \<open>os.File.WriteAt\<close> and \<open>ReadAt\<close> as modelled meet it; the open files of the
  mounts rely on it.
\<close>

section \<open>The abstract file\<close>

text \<open>Its length, and its bytes: from the length on they are zero.\<close>

type_synonym byte_file = "nat \<times> (nat \<Rightarrow> char)"

definition abs_file :: "bytes \<Rightarrow> byte_file" where
  "abs_file c = (length c, \<lambda>i. if i < length c then c ! i else CHR 0x00)"

definition file_write :: "bytes \<Rightarrow> nat \<Rightarrow> byte_file \<Rightarrow> byte_file" where
  "file_write d off f =
     (if d = [] then f
      else (max (fst f) (off + length d),
            \<lambda>i. if off \<le> i \<and> i < off + length d then d ! (i - off) else snd f i))"

definition file_read :: "nat \<Rightarrow> nat \<Rightarrow> byte_file \<Rightarrow> bytes" where
  "file_read n off f = map (snd f) [off ..< min (off + n) (fst f)]"

lemma length_file_read [simp]: "length (file_read n off f) = min (off + n) (fst f) - off"
  by (simp add: file_read_def)

lemma file_read_nth: "i < min (off + n) (fst f) - off \<Longrightarrow> file_read n off f ! i = snd f (off + i)"
proof -
  assume h: "i < min (off + n) (fst f) - off"
  then have u: "off + i < min (off + n) (fst f)" by linarith
  have l: "i < length [off ..< min (off + n) (fst f)]" using h by simp
  show ?thesis by (simp only: file_read_def nth_map [OF l] nth_upt [OF u])
qed

locale random_access =
  fixes abs :: "'f \<Rightarrow> byte_file"
    and wr :: "'f \<Rightarrow> bytes \<Rightarrow> nat \<Rightarrow> 'f"
    and rd :: "'f \<Rightarrow> nat \<Rightarrow> nat \<Rightarrow> bytes"
  assumes wr: "abs (wr f d off) = file_write d off (abs f)"
    and rd: "rd f n off = file_read n off (abs f)"
begin

definition wr_all :: "(bytes \<times> nat) list \<Rightarrow> 'f \<Rightarrow> 'f" where
  "wr_all ws f = fold (\<lambda>(d, off) f. wr f d off) ws f"

lemma wr_all_simps [simp]: "wr_all [] f = f" "wr_all ((d, off) # ws) f = wr_all ws (wr f d off)"
  by (simp_all add: wr_all_def)

lemma abs_wr_all: "abs (wr_all ws f) = fold (\<lambda>(d, off). file_write d off) ws (abs f)"
  by (induction ws arbitrary: f) (auto simp: wr)

lemma rd_wr_all: "rd (wr_all ws f) n off = file_read n off (fold (\<lambda>(d, off). file_write d off) ws (abs f))"
  by (simp add: rd abs_wr_all)

lemma rd_own_write:
  assumes "d \<noteq> []"
  shows "rd (wr f d off) (length d) off = d"
  using assms by (intro nth_equalityI) (auto simp: rd wr file_read_nth file_write_def)

lemma rd_frame:
  assumes "off' + n \<le> off \<or> off + length d \<le> off'" and "off' + n \<le> fst (abs f)"
  shows "rd (wr f d off) n off' = rd f n off'"
proof (cases "d = []")
  case False
  then have "fst (file_write d off (abs f)) \<ge> fst (abs f)" by (simp add: file_write_def)
  with False assms have "file_read n off' (file_write d off (abs f)) = map (snd (file_write d off (abs f))) [off' ..< off' + n]"
    "file_read n off' (abs f) = map (snd (abs f)) [off' ..< off' + n]"
    by (auto simp: file_read_def min_def)
  with False assms show ?thesis by (auto simp: rd wr file_write_def)
qed (simp add: rd wr file_write_def)

end

section \<open>The operating system's files\<close>

lemma write_at_nth:
  "i < length (write_at c d off) \<Longrightarrow>
   write_at c d off ! i = (if off \<le> i \<and> i < off + length d then d ! (i - off)
                           else if i < length c then c ! i else CHR 0x00)"
proof -
  assume h: "i < length (write_at c d off)"
  have e: "min (length c) off + (off - length c) = off" by simp
  show ?thesis
    using h by (auto simp: write_at_def zeros_def nth_append e split: if_splits)
qed

lemma abs_write_at: "abs_file (write_at c d off) = file_write d off (abs_file c)"
proof (cases "d = []")
  case False
  then show ?thesis
    by (auto simp: abs_file_def file_write_def length_write_at write_at_nth fun_eq_iff)
qed (simp add: write_at_def file_write_def)

lemma abs_read_at: "take n (drop off c) = file_read n off (abs_file c)"
  by (intro nth_equalityI) (auto simp: file_read_nth abs_file_def)

interpretation os_file: random_access abs_file write_at "\<lambda>c n off. take n (drop off c)"
  by unfold_locales (rule abs_write_at, rule abs_read_at)

end
