(* ===== verification/Handle_Write.thy ===== *)
theory Handle_Write
  imports Fuse_Handle Byte_File
begin

text \<open>
  What writing to an open file and flushing it do: between two flushes the handle is a
  byte-addressed file, a write-through flush puts exactly its bytes into S3, a write-back flush
  stages them for the queue.
\<close>

section \<open>Writes and reads of a dirty handle\<close>

text \<open>A sequence of write requests to one handle.\<close>

fun h_writes ::
  "(bytes \<times> int) list \<Rightarrow> 'w Handle \<Rightarrow> ('db, 'w) bucketCtx \<Rightarrow> 'w Handle \<times> ('db, 'w) bucketCtx" where
  "h_writes [] h x = (h, x)"
| "h_writes ((d, off) # ws) h x = (case h_Write h d off x of (_, h, x) \<Rightarrow> h_writes ws h x)"

lemma tmp_contents_OpenFile: "tmp_contents (OpenFile p) s = (case fmlookup (files s) p of Some c \<Rightarrow> c | None \<Rightarrow> [])"
  by (simp add: tmp_contents_def)

lemma h_Write_ok:
  assumes "h_tmpFile h = OpenFile p" and "fault (bx_os x) OpWriteAt p = None" and "0 \<le> off"
  shows "h_Write h d off x =
    ((take_bit 32 (int (length d)), OK), h\<lparr>h_dirty := True\<rparr>,
     x\<lparr>bx_os := (bx_os x)\<lparr>files := fmupd p (write_at (tmp_contents (OpenFile p) (bx_os x)) d (nat off)) (files (bx_os x))\<rparr>\<rparr>)"
  using assms by (simp add: h_Write_def tmp_WriteAt_def)

lemma h_writes_contents:
  assumes "h_tmpFile h = OpenFile p" and "fault (bx_os x) OpWriteAt p = None" and "\<forall>(d, off) \<in> set ws. 0 \<le> off"
    and "h_writes ws h x = (h', x')"
  shows "h_tmpFile h' = OpenFile p \<and> (h_dirty h' \<longleftrightarrow> h_dirty h \<or> ws \<noteq> []) \<and> fault (bx_os x') = fault (bx_os x) \<and>
    tmp_contents (OpenFile p) (bx_os x') =
      os_file.wr_all (map (\<lambda>(d, off). (d, nat off)) ws) (tmp_contents (OpenFile p) (bx_os x))"
  using assms
proof (induction ws arbitrary: h x)
  case (Cons w ws)
  obtain d off where w: "w = (d, off)" by (cases w)
  let ?x = "x\<lparr>bx_os := (bx_os x)\<lparr>files := fmupd p (write_at (tmp_contents (OpenFile p) (bx_os x)) d (nat off)) (files (bx_os x))\<rparr>\<rparr>"
  have "h_Write h d off x = ((take_bit 32 (int (length d)), OK), h\<lparr>h_dirty := True\<rparr>, ?x)"
    using Cons.prems w by (intro h_Write_ok) auto
  then have "h_writes ws (h\<lparr>h_dirty := True\<rparr>) ?x = (h', x')" using Cons.prems(4) w by simp
  from Cons.IH [OF _ _ _ this] Cons.prems(1-3) w show ?case by (simp add: tmp_contents_OpenFile)
qed auto

lemma h_Read_dirty:
  assumes "h_dirty h" and "h_tmpFile h = OpenFile p" and "fault (bx_os x) OpReadAt p = None" and "0 \<le> off"
  shows "h_Read h n off now f x = (Inr (take n (drop (nat off) (tmp_contents (h_tmpFile h) (bx_os x)))), f, x)"
  using assms by (simp add: h_Read_def tmp_ReadAt_def read_at_def Let_def)

text \<open>C11: an open file that has been written to is a byte-addressed file. After any sequence of
  write requests, the temporary file refines the abstract file that received the same writes:
  every byte is the last one written at its offset, or the one that was there, or zero in a gap;
  and a read returns exactly the abstract file's bytes of the requested range, whatever the
  cache and S3 hold.\<close>

theorem dirty_handle_refines_file:
  assumes "h_tmpFile h = OpenFile p" and "\<And>op. fault (bx_os x) op p = None" and "ws \<noteq> []"
    and "\<forall>(d, off) \<in> set ws. 0 \<le> off" and "0 \<le> off" and "h_writes ws h x = (h', x')"
    and "F = fold (\<lambda>(d, off). file_write d (nat off)) ws (abs_file (tmp_contents (h_tmpFile h) (bx_os x)))"
  shows "abs_file (tmp_contents (h_tmpFile h') (bx_os x')) = F \<and>
    h_Read h' n off now f x' = (Inr (file_read n (nat off) F), f, x')"
proof -
  note c = h_writes_contents [OF assms(1) assms(2) assms(4,6)]
  have F: "abs_file (tmp_contents (h_tmpFile h') (bx_os x')) = F"
    using c by (simp add: os_file.abs_wr_all assms(1,7) fold_map comp_def case_prod_unfold)
  have "h_Read h' n off now f x' = (Inr (take n (drop (nat off) (tmp_contents (h_tmpFile h') (bx_os x')))), f, x')"
    using c assms(2,3,5) by (intro h_Read_dirty) auto
  with F show ?thesis by (simp add: abs_read_at)
qed

section \<open>Write-through flushes\<close>

lemma os_Open_tmp:
  "fault s OpStat p = None \<Longrightarrow> tmp_Stat (OpenFile p) s = Inr (int (length (tmp_contents (OpenFile p) s)))"
  by (simp add: tmp_Stat_def)

lemma ctx_cache_Put_frame [simp]:
  "bx_s3 (ctx_cache_Put k src meta now x) = bx_s3 x" "bx_world (ctx_cache_Put k src meta now x) = bx_world x"
  "bx_catalog (ctx_cache_Put k src meta now x) = bx_catalog x"
  "bx_writeBack (ctx_cache_Put k src meta now x) = bx_writeBack x"
  "bx_bucket (ctx_cache_Put k src meta now x) = bx_bucket x" "bx_ttl (ctx_cache_Put k src meta now x) = bx_ttl x"
  "bx_soleWriter (ctx_cache_Put k src meta now x) = bx_soleWriter x"
  by (simp_all add: ctx_cache_Put_def split: prod.split)

lemma ctx_catalog_Put_frame [simp]:
  "bx_s3 (ctx_catalog_Put e x) = bx_s3 x" "bx_world (ctx_catalog_Put e x) = bx_world x"
  "bx_cache (ctx_catalog_Put e x) = bx_cache x" "bx_os (ctx_catalog_Put e x) = bx_os x"
  "bx_writeBack (ctx_catalog_Put e x) = bx_writeBack x"
  "bx_bucket (ctx_catalog_Put e x) = bx_bucket x"
  by (simp_all add: ctx_catalog_Put_def)

lemma syncUpload_cases:
  assumes "s3_ok (c_inner (h_s3 h)) objs" and "syncUpload h sz now f x = (e, h', f', x')"
  obtains
    (stored) t where "e = OK" "h' = h\<lparr>h_dirty := False\<rparr>" "f' = fn_update sz t now f"
      "sz = int (length (tmp_contents (h_tmpFile h) (bx_os x)))"
      "objs (bx_world x') = (objs (bx_world x))((c_bucket (h_s3 h), h_key h) \<mapsto> (tmp_contents (h_tmpFile h) (bx_os x), t))"
      "bx_writeBack x' = bx_writeBack x"
  | (failed) "e = EIO" "h' = h" "f' = f" "bx_cache x' = bx_cache x" "bx_catalog x' = bx_catalog x" "bx_os x' = bx_os x"
      "bx_writeBack x' = bx_writeBack x"
      "wrote_only objs (c_bucket (h_s3 h), h_key h) (Some (tmp_contents (h_tmpFile h) (bx_os x))) (bx_world x) (bx_world x')"
proof (cases "tmp_Seek (h_tmpFile h) (bx_os x)")
  case (Some err)
  with assms(2) show thesis by (intro failed) (auto simp: syncUpload_def wrote_only_def)
next
  case None
  let ?c = "tmp_contents (h_tmpFile h) (bx_os x)"
  obtain r w where p: "PutObject (h_s3 h) (h_key h) ?c sz (bx_world x) = (r, w)" by (metis surj_pair)
  show thesis
  proof (cases r)
    case (Inl err)
    with PutObject_content(2) [OF assms(1) p] None p assms(2) show thesis
      by (intro failed) (auto simp: syncUpload_def wrote_only_def)
  next
    case (Inr meta)
    with PutObject_content(1) [OF assms(1) p] None p assms(2) show thesis
      by (intro stored [of "om_ETag meta"])
        (auto simp: syncUpload_def Let_def split: tmp_file.splits sum.splits)
  qed
qed

lemma h_Flush_sync:
  assumes "bx_writeBack x = None" and "h_dirty h"
  shows "h_Flush h now f x = (EIO, h, f, x) \<or>
    h_Flush h now f x = syncUpload h (int (length (tmp_contents (h_tmpFile h) (bx_os x)))) now f x"
  using assms by (auto simp: h_Flush_def tmp_Stat_def split: option.splits sum.splits tmp_file.splits)

text \<open>C6: without write-back, a flush that returns success has made the data durable: the object
  in S3 is exactly the temporary file's bytes, the node has its length and the ETag S3 gave it,
  and the handle is clean. A flush that fails leaves handle, node, cache, catalog and files as they
  were, the data still dirty, so that it can be flushed again; S3 is unchanged or, when the failed
  request took effect, has this file's bytes under this key.\<close>

theorem flush_write_through:
  assumes "s3_ok (c_inner (h_s3 h)) objs" and "bx_writeBack x = None" and "h_dirty h"
    and "h_Flush h now f x = (e, h', f', x')" and "c = tmp_contents (h_tmpFile h) (bx_os x)"
  shows "if e = OK
    then h' = h\<lparr>h_dirty := False\<rparr> \<and>
      (\<exists>t. f' = fn_update (int (length c)) t now f \<and>
         objs (bx_world x') = (objs (bx_world x))((c_bucket (h_s3 h), h_key h) \<mapsto> (c, t)))
    else e = EIO \<and> h' = h \<and> f' = f \<and> bx_cache x' = bx_cache x \<and> bx_catalog x' = bx_catalog x \<and>
      bx_os x' = bx_os x \<and> wrote_only objs (c_bucket (h_s3 h), h_key h) (Some c) (bx_world x) (bx_world x')"
  using h_Flush_sync [OF assms(2,3), of now f]
proof
  assume "h_Flush h now f x = (EIO, h, f, x)"
  with assms(4) show ?thesis by (simp add: wrote_only_def)
next
  assume "h_Flush h now f x = syncUpload h (int (length (tmp_contents (h_tmpFile h) (bx_os x)))) now f x"
  with assms(4) have "syncUpload h (int (length c)) now f x = (e, h', f', x')" by (simp add: assms(5))
  with assms(1) show ?thesis by (cases rule: syncUpload_cases) (use assms(5) in auto)
qed

section \<open>Write-back flushes\<close>

text \<open>No file of the cache has the name of a staged upload or of an upload's temporary file.\<close>

lemma staged_not_cached: "p @ ''.wb'' \<noteq> ds_Path ds b k"
proof
  assume eq: "p @ ''.wb'' = ds_Path ds b k"
  obtain pre where "ds_Path ds b k = pre @ sha256_hex k" by (rule ds_Path_tail)
  with eq obtain u where "p = pre @ u \<and> u @ ''.wb'' = sha256_hex k \<or> p @ u = pre \<and> ''.wb'' = u @ sha256_hex k"
    by (auto simp: append_eq_append_conv2)
  then have "CHR ''.'' \<in> set (sha256_hex k)"
  proof
    assume h: "p = pre @ u \<and> u @ ''.wb'' = sha256_hex k"
    have "CHR ''.'' \<in> set (u @ ''.wb'')" by simp
    then show ?thesis by (simp only: conjunct2 [OF h])
  next
    assume "p @ u = pre \<and> ''.wb'' = u @ sha256_hex k"
    then have "length (u @ sha256_hex k) = length ''.wb''" by simp
    then show ?thesis by simp
  qed
  then show False using sha256_hex_chars by blast
qed

lemma upload_temp_not_cached:
  "temp_ok s \<Longrightarrow> temp_name s [] ''s3gw-upload-*'' fs \<noteq> ds_Path ds b k"
  using temp_pattern_not_cached [of s "''s3gw-upload-''"] by simp

lemma upload_temp_fresh:
  "temp_ok s \<Longrightarrow> fmlookup fs (temp_name s [] ''s3gw-upload-*'' fs) = None"
  using temp_fresh [of s fs "[]" "''s3gw-upload-''"] by simp

lemma ctx_cache_Put_files:
  assumes "cm_ok (bx_cache x) (bx_os x)" and "fmlookup (files (bx_os x)) q = Some c"
    and "\<And>ds b. q \<noteq> ds_Path ds b k"
  shows "fmlookup (files (bx_os (ctx_cache_Put k src meta now x))) q = Some c"
proof -
  obtain r m' s' where p: "cm_Put (bx_bucket x) k src meta now (bx_cache x) (bx_os x) = (r, m', s')"
    by (metis prod_cases3)
  then have "bx_os (ctx_cache_Put k src meta now x) = s'" by (simp add: ctx_cache_Put_def)
  then show ?thesis using assms(2,3) by (cases rule: cm_Put_cases [OF assms(1) p]) auto
qed

text \<open>The job a write-back flush submits, with the contents it stages.\<close>

definition staged_job :: "'w Handle \<Rightarrow> string \<Rightarrow> bytes \<Rightarrow> UploadJob" where
  "staged_job h p c = \<lparr>uj_Bucket = h_bucket h, uj_Key = h_key h, uj_FilePath = p @ ''.wb'', uj_Size = int (length c),
     uj_Retries = 0, uj_DoneCh = None\<rparr>"

lemma h_Flush_write_back:
  assumes "bx_writeBack x = Some wb" and "h_dirty h" and "h_tmpFile h = OpenFile p"
    and "h_Flush h now f x = (OK, h', f', x')"
  shows "h_Flush h now f x = flush_writeBack h p (int (length (tmp_contents (OpenFile p) (bx_os x)))) wb now f x"
  using assms by (auto simp: h_Flush_def tmp_Stat_def split: option.splits sum.splits)

lemma flush_writeBack_queued:
  assumes "cm_ok (bx_cache x) (bx_os x)" and "bx_writeBack x = Some wb" and "length (wq_jobs wb) < wq_cap wb"
    and "fault (bx_os x) OpRename p = None" and "fmlookup (files (bx_os x)) p = Some c"
    and "flush_writeBack h p (int (length c)) wb now f x = (OK, h', f', x')"
  shows "bx_world x' = bx_world x \<and> \<not> h_dirty h' \<and> tmp_contents (h_tmpFile h') (bx_os x') = [] \<and>
    f' = fn_update (int (length c)) (fn_etag f) now f \<and>
    bx_writeBack x' = Some (snd (Submit (staged_job h p c) wb)) \<and>
    fmlookup (files (bx_os x')) (p @ ''.wb'') = Some c"
proof -
  have t: "temp_ok (bx_os x)" using assms(1) by (simp add: cm_ok_def)
  let ?s1 = "(bx_os x)\<lparr>files := fmupd (p @ ''.wb'') c (fmdrop p (files (bx_os x)))\<rparr>"
  let ?n = "temp_name (bx_os x) [] ''s3gw-upload-*'' (files ?s1)"
  let ?s2 = "?s1\<lparr>files := fmupd ?n [] (files ?s1)\<rparr>"
  let ?x1 = "ctx_catalog_Put (file_entry (h_key h) (int (length c)) [] now) (x\<lparr>bx_os := ?s2\<rparr>)"
  let ?meta = "\<lparr>om_ETag = [], om_Size = int (length c), om_LastModified = now, om_ContentType = []\<rparr>"
  let ?x2 = "case os_Open (p @ ''.wb'') (bx_os ?x1) of
      Inr c' \<Rightarrow> ctx_cache_Put (h_key h) (p @ ''.wb'', c') ?meta now ?x1 | Inl _ \<Rightarrow> ?x1"
  have rn: "os_Rename p (p @ ''.wb'') (bx_os x) = (None, ?s1)" using assms(4,5) by (simp add: os_Rename_def)
  have fresh: "fmlookup (files ?s1) ?n = None" by (rule upload_temp_fresh [OF t])
  have ct: "os_CreateTemp [] ''s3gw-upload-*'' ?s1 = (Inr ?n, ?s2)"
  proof (cases "fault (bx_os x) OpCreateTemp []")
    case None
    then show ?thesis by (simp add: os_CreateTemp_def Let_def)
  next
    case (Some e)
    then have "os_CreateTemp [] ''s3gw-upload-*'' ?s1 = (Inl e, ?s1)" by (simp add: os_CreateTemp_def)
    with assms(6) rn show ?thesis by (simp add: flush_writeBack_def Let_def)
  qed
  have fl: "(OK, h', f', x') =
      (OK, h\<lparr>h_tmpFile := OpenFile ?n, h_dirty := False\<rparr>, fn_update (int (length c)) (fn_etagSnapshot f) now f,
       ?x2\<lparr>bx_writeBack := Some (snd (Submit (staged_job h p c) wb))\<rparr>)"
    using assms(3) by (simp add: assms(6) [symmetric] flush_writeBack_def Let_def rn ct staged_job_def Submit_def cong: sum.case_cong)
  have ok1: "cm_ok (bx_cache ?x1) (bx_os ?x1)" using assms(1) by (simp add: cm_ok_def)
  have f1: "fmlookup (files (bx_os ?x1)) (p @ ''.wb'') = Some c" "fmlookup (files (bx_os ?x1)) ?n = Some []"
    using fresh by (auto split: if_splits)
  have f2: "fmlookup (files (bx_os ?x2)) (p @ ''.wb'') = Some c" "fmlookup (files (bx_os ?x2)) ?n = Some []"
    using ctx_cache_Put_files [OF ok1 f1(1) staged_not_cached] ctx_cache_Put_files [OF ok1 f1(2) upload_temp_not_cached [OF t]]
      f1 by (auto split: sum.split)
  have "bx_world ?x2 = bx_world x" by (simp split: sum.split)
  with fl f2 show ?thesis by (simp add: tmp_contents_OpenFile fn_etagSnapshot_def)
qed


section \<open>Opening an existing object for writing\<close>

text \<open>C34: opening an object and writing a part of it destroys the rest. The temporary file starts
  empty, whatever the object holds; so after \<open>Open\<close>, one \<open>Write\<close> of \<open>d\<close> at \<open>off\<close> and a successful
  flush the object is \<open>off\<close> zero bytes followed by \<open>d\<close>, and nothing of what it was.\<close>

theorem open_write_flush_overwrites:
  assumes "s3_ok (c_inner (bx_s3 x)) objs" and "bx_writeBack x = None"
    and "fn_Open f x = ((Some h, OK), x1)" and "h_Write h d off x1 = ((n, OK), h2, x2)" and "d \<noteq> []"
    and "h_Flush h2 now f x2 = (OK, h3, f3, x3)"
  shows "\<exists>t. objs (bx_world x3) =
      (objs (bx_world x))((c_bucket (bx_s3 x), fn_key f) \<mapsto> (zeros (nat off) @ d, t)) \<and>
    f3 = fn_update (off + int (length d)) t now f"
proof -
  obtain p s where c: "os_CreateTemp [] ''s3gw-upload-*'' (bx_os x) = (Inr p, s)" and x1: "x1 = x\<lparr>bx_os := s\<rparr>"
    and h: "h_tmpFile h = OpenFile p" "h_s3 h = bx_s3 x" "h_key h = fn_key f"
    using assms(3) by (auto simp: fn_Open_def newHandle_def split: prod.splits sum.splits)
  have empty: "tmp_contents (OpenFile p) s = []"
    using c by (auto simp: os_CreateTemp_def Let_def tmp_contents_OpenFile split: option.splits)
  have off: "0 \<le> off" and flt: "fault s OpWriteAt p = None"
    using assms(4) h(1) x1 by (auto simp: h_Write_def tmp_WriteAt_def split: if_splits option.splits)
  have w: "h2 = h\<lparr>h_dirty := True\<rparr>" "x2 = x1\<lparr>bx_os := s\<lparr>files := fmupd p (zeros (nat off) @ d) (files s)\<rparr>\<rparr>"
    using assms(4) h_Write_ok [OF h(1), of x1 off d] off flt empty x1 by (simp_all add: write_at_empty [OF assms(5)])
  have cont: "tmp_contents (h_tmpFile h2) (bx_os x2) = zeros (nat off) @ d"
    using w h(1) by (simp add: tmp_contents_OpenFile)
  have u: "syncUpload h2 (int (length (zeros (nat off) @ d))) now f x2 = (OK, h3, f3, x3)"
    using h_Flush_sync [of x2 h2 now f] assms(2,6) w x1 cont by simp
  have ok: "s3_ok (c_inner (h_s3 h2)) objs" using assms(1) w h by simp
  have same: "bx_world x2 = bx_world x" "h_s3 h2 = bx_s3 x" "h_key h2 = fn_key f" using w x1 h by simp_all
  have len: "int (length (zeros (nat off) @ d)) = off + int (length d)" using off by (simp add: zeros_def)
  show ?thesis
    using syncUpload_cases [OF ok u] unfolding cont same len by blast
qed

section \<open>Witnesses\<close>

definition demo_ctx :: "mem_world WriteBackQueue option \<Rightarrow> mem_world \<Rightarrow> os \<Rightarrow> ((string \<times> bytes) list, mem_world) bucketCtx" where
  "demo_ctx wb w s =
     \<lparr>bx_s3 = demo_s3, bx_cache = demo_manager [] [], bx_catalog = demo_sync, bx_writeBack = wb, bx_bucket = ''b'',
      bx_ttl = 60 * second, bx_soleWriter = False, bx_os = s, bx_world = w\<rparr>"

definition demo_handle :: "mem_world Handle" where
  "demo_handle =
     \<lparr>h_s3 = demo_s3, h_bucket = ''b'', h_key = ''d/f'', h_ttl = 60 * second, h_soleWriter = False,
      h_tmpFile = OpenFile ''/tmp/t'', h_dirty = True\<rparr>"

definition demo_file :: FileNode where
  "demo_file = \<lparr>fn_key = ''d/f'', fn_size = 5, fn_etag = ''e'', fn_mtime = 0\<rparr>"

lemmas demo_handle_simps = demo_ctx_def demo_handle_def demo_file_def staged_os_def demo_os_def

lemma demo_s3_ok: "s3_ok (c_inner demo_s3) mem_objs"
  by (simp add: demo_s3_def mem_s3_ok)

theorem dirty_handle_refines_file_witness:
  "\<exists>h x. h_writes [(''ab'', 0), (''Z'', 4)] demo_handle (demo_ctx None [] staged_os) = (h, x) \<and>
     h_Read h 10 0 7 demo_file x = (Inr [CHR ''a'', CHR ''b'', CHR ''z'', CHR 0x00, CHR ''Z''], demo_file, x)"
proof -
  let ?ws = "[(''ab'', 0), (''Z'', 4)] :: (bytes \<times> int) list"
  obtain h x where w: "h_writes ?ws demo_handle (demo_ctx None [] staged_os) = (h, x)" by (metis surj_pair)
  have o: "h_tmpFile demo_handle = OpenFile ''/tmp/t''" "fault (bx_os (demo_ctx None [] staged_os)) op ''/tmp/t'' = None" for op
    by (simp_all add: demo_handle_simps)
  have "h_Read h 10 0 7 demo_file x = (Inr [CHR ''a'', CHR ''b'', CHR ''z'', CHR 0x00, CHR ''Z''], demo_file, x)"
    using dirty_handle_refines_file [OF o _ _ _ w refl, of 0 10 7 demo_file]
    by (simp add: demo_handle_simps tmp_contents_OpenFile abs_file_def file_write_def file_read_def numeral_eq_Suc)
  with w show ?thesis by (intro exI conjI)
qed

lemma demo_flush_OK: "fst (h_Flush demo_handle now demo_file (demo_ctx None w staged_os)) = OK"
  by (simp add: h_Flush_def tmp_Seek_def tmp_Stat_def tmp_contents_def syncUpload_def PutObject_def demo_s3_def mem_s3_def
      demo_handle_simps Let_def)

theorem flush_write_through_witness:
  "\<exists>h f x t. h_Flush demo_handle 9 demo_file (demo_ctx None [] staged_os) = (OK, h, f, x) \<and>
     mem_objs (bx_world x) (''b'', ''d/f'') = Some (''xyz'', t) \<and> \<not> h_dirty h"
proof -
  obtain h f x where fl: "h_Flush demo_handle 9 demo_file (demo_ctx None [] staged_os) = (OK, h, f, x)"
    using demo_flush_OK [of 9 "[]"] by (metis prod.collapse)
  have a: "s3_ok (c_inner (h_s3 demo_handle)) mem_objs" "bx_writeBack (demo_ctx None [] staged_os) = None" "h_dirty demo_handle"
    by (simp_all add: demo_handle_simps demo_s3_ok)
  have c: "''xyz'' = tmp_contents (h_tmpFile demo_handle) (bx_os (demo_ctx None [] staged_os))"
    by (simp add: demo_handle_simps tmp_contents_def)
  from flush_write_through [OF a fl c] obtain t where
    "h = demo_handle\<lparr>h_dirty := False\<rparr>"
    "mem_objs (bx_world x) = (mem_objs (bx_world (demo_ctx None [] staged_os)))((c_bucket (h_s3 demo_handle), h_key demo_handle) \<mapsto> (''xyz'', t))"
    by auto
  then have "mem_objs (bx_world x) (''b'', ''d/f'') = Some (''xyz'', t)" "\<not> h_dirty h"
    by (simp_all add: demo_handle_def demo_s3_def)
  with fl show ?thesis by (intro exI conjI)
qed

lemma demo_flush_back_OK: "fst (h_Flush demo_handle now demo_file (demo_ctx (Some demo_queue) w staged_os)) = OK"
  by (simp add: h_Flush_def tmp_Seek_def tmp_Stat_def tmp_contents_def flush_writeBack_def os_Rename_def
      os_CreateTemp_def Submit_def demo_queue_def NewWriteBackQueue_def demo_handle_simps Let_def)


text \<open>The object held ten bytes; writing one byte at offset 2 leaves three.\<close>

theorem open_write_flush_overwrites_witness:
  "\<exists>h1 x1 h2 x2 n h f x t. fn_Open demo_file (demo_ctx None [((''b'', ''d/f''), ''0123456789'', 0)] demo_os) = ((Some h1, OK), x1) \<and>
     h_Write h1 ''X'' 2 x1 = ((n, OK), h2, x2) \<and> h_Flush h2 9 demo_file x2 = (OK, h, f, x) \<and>
     mem_objs (bx_world x) (''b'', ''d/f'') = Some ([CHR 0x00, CHR 0x00, CHR ''X''], t)"
proof -
  let ?x = "demo_ctx None [((''b'', ''d/f''), ''0123456789'', 0)] demo_os"
  let ?p = "zero_temp [] ''s3gw-upload-*'' fmempty"
  let ?h = "demo_handle\<lparr>h_tmpFile := OpenFile ?p, h_dirty := False\<rparr>"
  let ?x1 = "?x\<lparr>bx_os := demo_os\<lparr>files := fmupd ?p [] fmempty\<rparr>\<rparr>"
  let ?x2 = "?x1\<lparr>bx_os := demo_os\<lparr>files := fmupd ?p [CHR 0x00, CHR 0x00, CHR ''X''] (fmupd ?p [] fmempty)\<rparr>\<rparr>"
  have o: "fn_Open demo_file ?x = ((Some ?h, OK), ?x1)"
    by (simp add: fn_Open_def newHandle_def os_CreateTemp_def demo_handle_simps Let_def)
  have w: "h_Write ?h ''X'' 2 ?x1 = ((take_bit 32 1, OK), ?h\<lparr>h_dirty := True\<rparr>, ?x2)"
    by (simp add: h_Write_def tmp_WriteAt_def tmp_contents_def write_at_def zeros_def demo_os_def numeral_eq_Suc)
  have "fst (h_Flush (?h\<lparr>h_dirty := True\<rparr>) 9 demo_file ?x2) = OK"
    by (simp add: h_Flush_def tmp_Seek_def tmp_Stat_def tmp_contents_def syncUpload_def PutObject_def demo_s3_def mem_s3_def
      demo_handle_simps Let_def)
  then obtain h f x where fl: "h_Flush (?h\<lparr>h_dirty := True\<rparr>) 9 demo_file ?x2 = (OK, h, f, x)" by (metis prod.collapse)
  have a: "s3_ok (c_inner (bx_s3 ?x)) mem_objs" "bx_writeBack ?x = None" by (simp_all add: demo_ctx_def demo_s3_ok)
  from open_write_flush_overwrites [OF a o w _ fl] obtain t where
    "mem_objs (bx_world x) = (mem_objs (bx_world ?x))((c_bucket (bx_s3 ?x), fn_key demo_file) \<mapsto> (zeros (nat 2) @ ''X'', t))"
    by auto
  then have "mem_objs (bx_world x) (''b'', ''d/f'') = Some ([CHR 0x00, CHR 0x00, CHR ''X''], t)"
    by (simp add: demo_handle_simps demo_s3_def zeros_def numeral_eq_Suc)
  with o w fl show ?thesis by (intro exI conjI)
qed

end
