(* ===== verification/Handle_Read.thy ===== *)
theory Handle_Read
  imports Handle_Write
begin

text \<open>
  What reading an open file that has not been written to returns: the object's bytes, when the
  cached copy is the object; and what \<open>Release\<close> leaves.
\<close>

section \<open>The cached copy\<close>

text \<open>The cached copy of a key is the object's data, or there is none.\<close>

definition current :: "('w \<Rightarrow> s3_content) \<Rightarrow> 'w Handle \<Rightarrow> ('db, 'w) bucketCtx \<Rightarrow> bool" where
  "current objs h x \<longleftrightarrow>
     (\<forall>c. cached_data (bx_cache x) (bx_os x) (h_bucket h) (h_key h) = Some c \<longrightarrow>
        (\<exists>t. objs (bx_world x) (c_bucket (h_s3 h), h_key h) = Some (c, t)))"

text \<open>What a successful read of the requested range is.\<close>

definition slice_of :: "('w \<Rightarrow> s3_content) \<Rightarrow> 'w Handle \<Rightarrow> 'w \<Rightarrow> nat \<Rightarrow> int \<Rightarrow> bytes \<Rightarrow> bool" where
  "slice_of objs h w n off d \<longleftrightarrow>
     0 \<le> off \<and> (\<exists>c t. objs w (c_bucket (h_s3 h), h_key h) = Some (c, t) \<and> d = take n (drop (nat off) c))"

text \<open>The cached copy and the object of a handle's key, and the bytes of either.\<close>

definition cached_of :: "'w Handle \<Rightarrow> ('db, 'w) bucketCtx \<Rightarrow> bytes option" where
  "cached_of h x = cached_data (bx_cache x) (bx_os x) (h_bucket h) (h_key h)"

definition object_of :: "('w \<Rightarrow> s3_content) \<Rightarrow> 'w Handle \<Rightarrow> 'w \<Rightarrow> bytes option" where
  "object_of objs h w = map_option fst (objs w (c_bucket (h_s3 h), h_key h))"

definition bytes_of :: "bytes option \<Rightarrow> nat \<Rightarrow> int \<Rightarrow> bytes \<Rightarrow> bool" where
  "bytes_of oc n off d \<longleftrightarrow> 0 \<le> off \<and> (\<exists>c. oc = Some c \<and> d = take n (drop (nat off) c))"

text \<open>S3 is the same, and the cached copy is the one before or the object.\<close>

definition refreshed :: "('w \<Rightarrow> s3_content) \<Rightarrow> 'w Handle \<Rightarrow> ('db, 'w) bucketCtx \<Rightarrow> ('db, 'w) bucketCtx \<Rightarrow> bool" where
  "refreshed objs h x x' \<longleftrightarrow> objs (bx_world x') = objs (bx_world x) \<and>
     (cached_of h x' = cached_of h x \<or>
      cached_of h x' = object_of objs h (bx_world x) \<and> object_of objs h (bx_world x) \<noteq> None)"

lemma refreshed_same: "objs (bx_world x') = objs (bx_world x) \<Longrightarrow> cached_of h x' = cached_of h x \<Longrightarrow> refreshed objs h x x'"
  by (simp add: refreshed_def)

lemma refreshed_trans: "refreshed objs h x y \<Longrightarrow> refreshed objs h y z \<Longrightarrow> refreshed objs h x z"
  by (auto simp: refreshed_def object_of_def)

lemma current_iff: "current objs h x \<longleftrightarrow> cached_of h x \<in> {None, object_of objs h (bx_world x)}"
  by (cases "cached_of h x"; cases "objs (bx_world x) (c_bucket (h_s3 h), h_key h)")
    (auto simp: current_def cached_of_def object_of_def)

lemma current_refreshed: "current objs h x \<Longrightarrow> refreshed objs h x x' \<Longrightarrow> current objs h x'"
  by (auto simp: current_iff refreshed_def object_of_def)

lemma ds_Read_cached:
  "ds_Read (cm_store (bx_cache x)) (h_bucket h) (h_key h) off n (bx_os x) = Inr (d, eof) \<Longrightarrow>
     bytes_of (cached_of h x) n off d"
  by (fastforce simp: ds_Read_def os_Open_def read_at_def Let_def cached_of_def cached_data_def bytes_of_def
      split: option.splits sum.splits if_splits)

lemma cm_Touch_store: "cm_store (snd (cm_Touch b k now m)) = cm_store m"
  by (simp add: cm_Touch_def split: prod.split)

lemma remote_etag_frame:
  assumes "s3_ok (c_inner (h_s3 h)) objs" and "remote_etag h now x = (tag, x')"
  shows "bx_cache x' = bx_cache x \<and> bx_os x' = bx_os x \<and> bx_bucket x' = bx_bucket x \<and> objs (bx_world x') = objs (bx_world x)"
proof -
  obtain ans cat where l: "cat_Lookup (h_bucket h) (h_key h) now (bx_catalog x) = (ans, cat)" by (metis surj_pair)
  obtain r w where hd: "HeadObject (h_s3 h) (h_key h) (bx_world x) = (r, w)" by (metis surj_pair)
  show ?thesis
    using assms(2) l hd HeadObject_content(1) [OF assms(1) hd]
    by (auto simp: remote_etag_def Let_def split: if_splits sum.splits)
qed

lemma revalidate_frame:
  assumes "s3_ok (c_inner (h_s3 h)) objs" and "revalidate h entry n off now x = (r, x')"
  shows "cm_store (bx_cache x') = cm_store (bx_cache x) \<and> bx_os x' = bx_os x \<and> bx_bucket x' = bx_bucket x \<and>
    objs (bx_world x') = objs (bx_world x) \<and> (\<forall>d. r = Some d \<longrightarrow> bytes_of (cached_of h x) n off d)"
proof (cases "entry = None \<or> h_soleWriter h")
  case True
  then have "revalidate h entry n off now x = (None, x)" by (auto simp: revalidate_def split: option.split)
  with assms(2) show ?thesis by simp
next
  case False
  then obtain e where e: "entry = Some e" "\<not> h_soleWriter h" by auto
  obtain tag x1 where t: "remote_etag h now x = (tag, x1)" by (metis surj_pair)
  let ?x2 = "x1\<lparr>bx_cache := snd (cm_Touch (h_bucket h) (h_key h) now (bx_cache x1))\<rparr>"
  note f = remote_etag_frame [OF assms(1) t]
  show ?thesis
  proof (cases "tag \<noteq> [] \<and> tag = ce_ETag e")
    case True
    then have rv: "(r, x') = (case ds_Read (cm_store (bx_cache ?x2)) (h_bucket h) (h_key h) off n (bx_os ?x2) of
        Inr (d, eof) \<Rightarrow> (Some d, ?x2) | Inl _ \<Rightarrow> (None, ?x2))"
      unfolding assms(2) [symmetric] using e t by (auto simp: revalidate_def Let_def cong: if_cong)
    have x': "x' = ?x2" using rv by (simp split: sum.splits prod.splits)
    have "bytes_of (cached_of h x) n off d" if sm: "r = Some d" for d
    proof -
      obtain eof where "ds_Read (cm_store (bx_cache ?x2)) (h_bucket h) (h_key h) off n (bx_os ?x2) = Inr (d, eof)"
        using rv sm by (simp split: sum.splits prod.splits)
      from ds_Read_cached [OF this] f show ?thesis by (simp add: cached_of_def cached_data_def cm_Touch_store)
    qed
    with f x' show ?thesis by (simp add: cm_Touch_store)
  next
    case False
    with assms(2) e t f show ?thesis by (auto simp: revalidate_def)
  qed
qed

lemma revalidate_ok:
  assumes "cm_ok (bx_cache x) (bx_os x)" and "revalidate h entry n off now x = (r, x')"
  shows "cm_ok (bx_cache x') (bx_os x')"
proof (cases "entry = None \<or> h_soleWriter h")
  case True
  then have "revalidate h entry n off now x = (None, x)" by (auto simp: revalidate_def split: option.split)
  with assms show ?thesis by simp
next
  case False
  then obtain e where e: "entry = Some e" "\<not> h_soleWriter h" by auto
  obtain tag x1 where t: "remote_etag h now x = (tag, x1)" by (metis surj_pair)
  have x1: "bx_cache x1 = bx_cache x" "bx_os x1 = bx_os x"
    using t by (auto simp: remote_etag_def Let_def split: prod.splits if_splits sum.splits)
  obtain r1 m1 where tc: "cm_Touch (h_bucket h) (h_key h) now (bx_cache x1) = (r1, m1)" by (metis surj_pair)
  have "x' = x1 \<or> x' = x1\<lparr>bx_cache := m1\<rparr>"
    using assms(2) e t tc by (auto simp: revalidate_def Let_def split: if_splits sum.splits prod.splits)
  with assms(1) x1 cm_ok_Touch [OF _ tc] show ?thesis by auto
qed

section \<open>A miss\<close>

lemma cache_temp_not_cached: "temp_ok s \<Longrightarrow> temp_name s [] ''s3gw-cache-*'' fs \<noteq> ds_Path ds b k"
  using temp_pattern_not_cached [of s "''s3gw-cache-''"] by simp

text \<open>\<open>Put\<close> installs its data as the cached copy or leaves the one before.\<close>

lemma ctx_cache_Put_cached:
  assumes "cm_ok (bx_cache x) (bx_os x)" and "h_bucket h = bx_bucket x"
  shows "cached_of h (ctx_cache_Put (h_key h) src meta now x) \<in> {cached_of h x, Some (snd src)}"
proof -
  obtain r m' s' where p: "cm_Put (bx_bucket x) (h_key h) src meta now (bx_cache x) (bx_os x) = (r, m', s')"
    by (metis prod_cases3)
  then have x': "ctx_cache_Put (h_key h) src meta now x = x\<lparr>bx_cache := m', bx_os := s'\<rparr>" by (simp add: ctx_cache_Put_def)
  have st: "cm_store m' = cm_store (bx_cache x)" by (rule cm_Put_store [OF p])
  show ?thesis
    using assms(1) p
  proof (cases rule: cm_Put_cases)
    case write_failed
    have "fmlookup (files s') (ds_Path (cm_store (bx_cache x)) (bx_bucket x) (h_key h)) =
        fmlookup (files (bx_os x)) (ds_Path (cm_store (bx_cache x)) (bx_bucket x) (h_key h))"
      by (rule write_failed(3)) simp
    then show ?thesis using assms(2) by (simp add: x' st cached_of_def cached_data_def)
  qed (use assms(2) in \<open>simp_all add: x' st cached_of_def cached_data_def\<close>)
qed

lemma downloadToCache_refreshed:
  assumes "cm_ok (bx_cache x) (bx_os x)" and "s3_ok (c_inner (h_s3 h)) objs"
    and "h_bucket h = bx_bucket x" and "downloadToCache h now f x = (err, f', x')"
  shows "refreshed objs h x x'"
proof -
  obtain r w where g: "GetObject (h_s3 h) (h_key h) (bx_world x) = (r, w)" by (metis surj_pair)
  note w = GetObject_content(1) [OF assms(2) g]
  have t: "temp_ok (bx_os x)" using assms(1) by (simp add: cm_ok_def)
  show ?thesis
  proof (cases r)
    case (Inl e)
    with assms(4) g w show ?thesis by (auto simp: downloadToCache_def cached_of_def intro: refreshed_same)
  next
    case (Inr out)
    obtain body berr meta where out: "out = (body, berr, meta)" by (metis prod_cases3)
    have o: "berr = None \<longrightarrow> object_of objs h (bx_world x) = Some body"
      using GetObject_content(2) [OF assms(2) g] Inr out by (auto simp: object_of_def)
    let ?x1 = "x\<lparr>bx_world := w\<rparr>"
    let ?n = "temp_name (bx_os x) [] ''s3gw-cache-*'' (files (bx_os x))"
    have n: "?n \<noteq> ds_Path ds b k" for ds b k by (rule cache_temp_not_cached [OF t])
    text \<open>Changes of the temporary file do not concern the cached copy.\<close>
    have keep: "cached_of h (y\<lparr>bx_os := s\<rparr>) = cached_of h y"
      if "\<And>p. p \<noteq> ?n \<Longrightarrow> fmlookup (files s) p = fmlookup (files (bx_os y)) p" for y :: "('c, 'b) bucketCtx" and s
      using that n by (simp add: cached_of_def cached_data_def n [symmetric])
    show ?thesis
    proof (cases "fault (bx_os x) OpCreateTemp []")
      case (Some e)
      with assms(4) g Inr out have "x' = ?x1" by (simp add: downloadToCache_def os_CreateTemp_def Let_def)
      with w show ?thesis by (simp add: refreshed_def cached_of_def)
    next
      case None
      let ?s1 = "(bx_os x)\<lparr>files := fmupd ?n [] (files (bx_os x))\<rparr>"
      have ct: "os_CreateTemp [] ''s3gw-cache-*'' (bx_os x) = (Inr ?n, ?s1)" using None by (simp add: os_CreateTemp_def Let_def)
      obtain cerr s2 where cp: "io_Copy ?n body berr ?s1 = (cerr, s2)" by (metis surj_pair)
      have s2: "p \<noteq> ?n \<Longrightarrow> fmlookup (files s2) p = fmlookup (files (bx_os x)) p" "temp_name s2 = temp_name (bx_os x)"
        "cerr = None \<Longrightarrow> berr = None" for p
        using cp by (auto simp: io_Copy_def split: option.splits)
      show ?thesis
      proof (cases cerr)
        case (Some e)
        have x': "x' = ?x1\<lparr>bx_os := snd (os_Remove ?n s2)\<rparr>"
          using assms(4) g Inr out ct cp Some by (simp add: downloadToCache_def Let_def)
        have "cached_of h x' = cached_of h ?x1" unfolding x' by (rule keep) (simp add: os_Remove_files s2)
        with x' w show ?thesis by (simp add: refreshed_def cached_of_def)
      next
        case none: None
        let ?x2 = "?x1\<lparr>bx_os := s2\<rparr>"
        let ?x3 = "ctx_cache_Put (h_key h) (?n, body) meta now ?x2"
        have x': "x' = ?x3\<lparr>bx_os := snd (os_Remove ?n (bx_os ?x3))\<rparr>"
          using assms(4) g Inr out ct cp none by (simp add: downloadToCache_def Let_def)
        have ok2: "cm_ok (bx_cache ?x2) (bx_os ?x2)" using assms(1) s2(2) by (simp add: cm_ok_def temp_ok_def)
        have "cached_of h x' = cached_of h ?x3" unfolding x' by (rule keep) (simp add: os_Remove_files)
        moreover have "cached_of h ?x3 \<in> {cached_of h ?x2, Some body}"
          using ctx_cache_Put_cached [OF ok2, of h "(?n, body)"] assms(3) by simp
        moreover have "cached_of h ?x2 = cached_of h ?x1" by (rule keep) (simp add: s2)
        moreover have "cached_of h ?x1 = cached_of h x" by (simp add: cached_of_def)
        ultimately show ?thesis using x' w o s2(3) none by (auto simp: refreshed_def)
      qed
    qed
  qed
qed

lemma fetchFromS3AndCache_refreshed:
  assumes "cm_ok (bx_cache x) (bx_os x)" and "s3_ok (c_inner (h_s3 h)) objs"
    and "h_bucket h = bx_bucket x" and "fetchFromS3AndCache h n off now f x = (r, f', x')"
  shows "refreshed objs h x x' \<and> (case r of Inr d \<Rightarrow> bytes_of (cached_of h x') n off d | Inl e \<Rightarrow> e \<noteq> OK)"
proof -
  obtain err f1 x1 where d: "downloadToCache h now f x = (err, f1, x1)" by (metis prod_cases3)
  note c = downloadToCache_refreshed [OF assms(1-3) d]
  show ?thesis
    using assms(4) d c ds_Read_cached [of x1 h off n]
    by (auto simp: fetchFromS3AndCache_def split: option.splits sum.splits)
qed

section \<open>Properties\<close>

text \<open>
  What any read of an unmodified open file returns: bytes of the cached copy as the read leaves it,
  which is the copy there was or the object.
\<close>

lemma h_Read_refreshed:
  assumes "cm_ok (bx_cache x) (bx_os x)" and "s3_ok (c_inner (h_s3 h)) objs"
    and "h_bucket h = bx_bucket x" and "\<not> h_dirty h" and "h_Read h n off now f x = (r, f', x')"
  shows "refreshed objs h x x' \<and> (case r of Inr d \<Rightarrow> bytes_of (cached_of h x') n off d | Inl e \<Rightarrow> e \<noteq> OK)"
proof -
  obtain path entry valid err cm where g: "cm_Get (h_bucket h) (h_key h) (h_ttl h) (h_soleWriter h) now (bx_os x) (bx_cache x) =
      ((path, entry, valid, err), cm)"
    by (metis prod_cases4 surj_pair)
  let ?x1 = "x\<lparr>bx_cache := cm\<rparr>"
  let ?cached = "if valid then ds_Read (cm_store cm) (h_bucket h) (h_key h) off n (bx_os ?x1) else Inl (errorf [])"
  have c1: "refreshed objs h x ?x1" using cm_Get_store [OF g] by (simp add: refreshed_def cached_of_def cached_data_def)
  have ok1: "cm_ok (bx_cache ?x1) (bx_os ?x1)" using cm_ok_Get [OF assms(1) g] by simp
  show ?thesis
  proof (cases ?cached)
    case (Inr out)
    obtain d eof where out: "out = (d, eof)" by (metis surj_pair)
    from Inr out have "ds_Read (cm_store (bx_cache ?x1)) (h_bucket h) (h_key h) off n (bx_os ?x1) = Inr (d, eof)"
      by (simp split: if_splits)
    note sl = ds_Read_cached [OF this]
    have "(r, f', x') = (Inr d, f, ?x1)" using assms(4,5) g Inr out by (simp add: h_Read_def Let_def)
    with sl c1 show ?thesis by simp
  next
    case (Inl e)
    obtain rv x2 where rv: "revalidate h entry n off now ?x1 = (rv, x2)" by (metis surj_pair)
    note f = revalidate_frame [OF assms(2) rv]
    have same: "cached_of h x2 = cached_of h ?x1" using f by (simp add: cached_of_def cached_data_def)
    have c2: "refreshed objs h x x2" by (rule refreshed_trans [OF c1 refreshed_same]) (use f same in simp_all)
    have rd: "(r, f', x') = (case rv of Some d \<Rightarrow> (Inr d, f, x2) | None \<Rightarrow> fetchFromS3AndCache h n off now f x2)"
      using assms(4,5) g Inl rv by (simp add: h_Read_def Let_def split: option.split)
    show ?thesis
    proof (cases rv)
      case (Some d)
      with rd f c2 same show ?thesis by simp
    next
      case None
      then have "fetchFromS3AndCache h n off now f x2 = (r, f', x')" using rd by simp
      from fetchFromS3AndCache_refreshed [OF revalidate_ok [OF ok1 rv] assms(2) _ this] assms(3) f refreshed_trans [OF c2]
      show ?thesis by auto
    qed
  qed
qed

lemma h_Read_current:
  assumes "cm_ok (bx_cache x) (bx_os x)" and "s3_ok (c_inner (h_s3 h)) objs" and "current objs h x"
    and "h_bucket h = bx_bucket x" and "\<not> h_dirty h" and "h_Read h n off now f x = (r, f', x')"
  shows "objs (bx_world x') = objs (bx_world x) \<and> current objs h x' \<and>
    (case r of Inr d \<Rightarrow> slice_of objs h (bx_world x) n off d | Inl e \<Rightarrow> e \<noteq> OK)"
proof -
  note r = h_Read_refreshed [OF assms(1,2,4-6)]
  have c: "current objs h x'" using current_refreshed [OF assms(3)] r by simp
  with r show ?thesis
    by (auto simp: refreshed_def current_iff bytes_of_def slice_of_def object_of_def split: sum.splits)
qed

text \<open>C16: a read of an unmodified open file. If the cached copy is the object's
  data (or there is no copy), then whichever path the read takes (a valid entry, an expired
  entry whose ETag matches, a download), a successful read returns exactly the requested bytes of
  the object, S3 is not changed, and the cached copy is still the object's. If the copy is
  another, the bytes are still of one version, that copy or the object, and of the same one as is then
  cached. A failed read reports an error.\<close>

theorem read_returns_object:
  assumes "cm_ok (bx_cache x) (bx_os x)" and "s3_ok (c_inner (h_s3 h)) objs"
    and "h_bucket h = bx_bucket x" and "\<not> h_dirty h" and "h_Read h n off now f x = (r, f', x')"
  shows "(current objs h x \<longrightarrow> objs (bx_world x') = objs (bx_world x) \<and> current objs h x' \<and>
      (case r of Inr d \<Rightarrow> slice_of objs h (bx_world x) n off d | Inl e \<Rightarrow> e \<noteq> OK)) \<and>
    refreshed objs h x x' \<and> (case r of Inr d \<Rightarrow> bytes_of (cached_of h x') n off d | Inl e \<Rightarrow> e \<noteq> OK)"
  using h_Read_current [OF assms(1,2) _ assms(3-5)] h_Read_refreshed [OF assms] by blast

text \<open>The cached object of \<open>demo_two_os\<close> is the one S3 has; its first three bytes are read.\<close>

theorem read_returns_object_witness:
  "\<exists>h (x :: ((string \<times> bytes) list, mem_world) bucketCtx) f' x'. h_Read h 3 0 5 demo_file x = (Inr ''aaa'', f', x') \<and>
     slice_of mem_objs h [((''a'', ''k''), ''aaaaaa'', 0)] 3 0 ''aaa''"
proof -
  let ?m = "demo_manager demo_two [(''a/k'', [])]"
  let ?w = "[((''a'', ''k''), ''aaaaaa'', 0)] :: mem_world"
  let ?x = "demo_ctx None ?w demo_two_os\<lparr>bx_cache := ?m, bx_bucket := ''a''\<rparr>"
  let ?h = "demo_handle\<lparr>h_s3 := \<lparr>c_inner = mem_s3, c_bucket = ''a''\<rparr>, h_bucket := ''a'', h_key := ''k'', h_soleWriter := True,
    h_dirty := False\<rparr>"
  have ok: "cm_ok (bx_cache ?x) (bx_os ?x)" by (simp add: demo_ctx_def demo_one_ok demo_two_os_def demo_os_def)
  have s3: "s3_ok (c_inner (h_s3 ?h)) mem_objs" by (simp add: mem_s3_ok)
  have cf: "fmlookup (files demo_two_os) (ds_Path demo_store ''a'' ''k'') = Some ''aaaaaa''"
    by (simp add: demo_two_os_def)
  have st: "cm_store ?m = demo_store" by (simp add: demo_manager_def)
  have cur: "current mem_objs ?h ?x"
    using cf by (simp add: current_def cached_data_def demo_ctx_def st mem_objs_def)
  have g: "ms_Get (cm_meta ?m) ''a'' ''k'' = Inr (Some (demo_entry ''a'' 6 1))"
    by (simp add: demo_manager_def ms_Get_def demo_meta_def alist_bolt_def table_codec_def entryKey_def demo_two_def)
  have ex: "ds_Exists demo_store ''a'' ''k'' demo_two_os"
    using cf by (simp add: ds_Exists_iff demo_two_os_def demo_os_def)
  have rd: "ds_Read demo_store ''a'' ''k'' 0 3 demo_two_os = Inr (''aaa'', False)"
    using cf by (simp add: ds_Read_def os_Open_def read_at_def demo_two_os_def demo_os_def Let_def numeral_eq_Suc)
  have "fst (h_Read ?h 3 0 5 demo_file ?x) = Inr ''aaa''"
    using g ex rd by (simp add: h_Read_def cm_Get_def st demo_ctx_def Let_def)
  then obtain f' x' where r: "h_Read ?h 3 0 5 demo_file ?x = (Inr ''aaa'', f', x')" by (metis prod.collapse)
  have b: "h_bucket ?h = bx_bucket ?x" "\<not> h_dirty ?h" by simp_all
  from read_returns_object [OF ok s3 b r] cur have "slice_of mem_objs ?h ?w 3 0 ''aaa''" by (simp add: demo_ctx_def)
  with r show ?thesis by (intro exI conjI)
qed

section \<open>Releasing\<close>

text \<open>After \<open>Release\<close> the handle has no temporary file, and if the file could be removed it is gone;
  a second \<open>Release\<close> does nothing.\<close>

lemma h_Release_removes:
  assumes "h_Release h x = (e, h', x')" and "h_tmpFile h = OpenFile p"
  shows "e = OK" and "h_tmpFile h' = NilFile"
    and "fault (bx_os x) OpRemove p = None \<Longrightarrow> fmlookup (files (bx_os x')) p = None"
    and "h_Release h' x' = (OK, h', x')"
  using assms by (auto simp: h_Release_def os_Remove_files)

section \<open>A cached copy that is not updated\<close>

lemma ctx_cache_Put_fails:
  assumes "fault (bx_os x) OpCreateTemp (filepath_Dir (ds_Path (cm_store (bx_cache x)) (bx_bucket x) k)) = Some e"
  shows "ctx_cache_Put k src meta now x = x"
  using assms
  by (auto simp: ctx_cache_Put_def cm_Put_def ds_Write_def os_CreateTemp_def Let_def split: option.split)

text \<open>C38: a failed cache update is forgotten. If the disk refuses the new cached copy (it is full, say)
  after the upload of a write-through flush, the flush still reports success, and the old copy stays
  with its entry: a sole writer who reads back gets the bytes from before his own write, at any later
  time.\<close>

theorem flush_stale_cache:
  assumes "s3_ok (c_inner (h_s3 h)) objs" and "bx_writeBack x = None" and "h_dirty h" and "h_soleWriter h"
    and "h_bucket h = bx_bucket x" and "path = ds_Path (cm_store (bx_cache x)) (bx_bucket x) (h_key h)"
    and "ms_Get (cm_meta (bx_cache x)) (bx_bucket x) (h_key h) = Inr (Some entry)"
    and "fmlookup (files (bx_os x)) path = Some old" and "\<forall>op \<in> {OpStat, OpOpen, OpReadAt}. fault (bx_os x) op path = None"
    and "fault (bx_os x) OpCreateTemp (filepath_Dir path) = Some full"
    and "h_Flush h now f x = (OK, h', f', x')" and "0 \<le> off"
  shows "(\<exists>t. objs (bx_world x') (c_bucket (h_s3 h), h_key h) = Some (tmp_contents (h_tmpFile h) (bx_os x), t)) \<and>
    fst (h_Read h' n off later f' x') = Inr (take n (drop (nat off) old))"
proof -
  let ?c = "tmp_contents (h_tmpFile h) (bx_os x)"
  have up: "syncUpload h (int (length ?c)) now f x = (OK, h', f', x')"
    using h_Flush_sync [OF assms(2,3), of now f] assms(11) by auto
  have put: "ctx_cache_Put (h_key h) src meta now (x\<lparr>bx_world := w\<rparr>) = x\<lparr>bx_world := w\<rparr>" for src meta w
    by (rule ctx_cache_Put_fails) (use assms(6,10) in simp)
  have same: "bx_cache x' = bx_cache x" "bx_os x' = bx_os x" "h' = h\<lparr>h_dirty := False\<rparr>"
    using up by (auto simp: syncUpload_def put Let_def split: option.splits prod.splits sum.splits tmp_file.splits)
  have ex: "ds_Exists (cm_store (bx_cache x)) (bx_bucket x) (h_key h) (bx_os x)"
    using assms(6,8,9) by (simp add: ds_Exists_iff)
  have "fst (h_Read h' n off later f' x') = Inr (take n (drop (nat off) old))"
    using same ex assms(4-9,12)
    by (simp add: h_Read_def cm_Get_def ds_Read_def os_Open_def read_at_def Let_def)
  moreover from assms(1) up have "\<exists>t. objs (bx_world x') (c_bucket (h_s3 h), h_key h) = Some (?c, t)"
    by (cases rule: syncUpload_cases) auto
  ultimately show ?thesis by blast
qed


text \<open>The bucket has the new six bytes; the sole writer reads the old ones an hour later.\<close>

theorem flush_stale_cache_witness:
  "\<exists>h (x :: ((string \<times> bytes) list, mem_world) bucketCtx) h' f' x' t. h_Flush h 5 demo_file x = (OK, h', f', x') \<and>
     mem_objs (bx_world x') (''a'', ''k'') = Some (''xyz'', t) \<and>
     fst (h_Read h' 3 0 (3600 * second) f' x') = Inr ''aaa''"
proof -
  let ?m = "demo_manager demo_two [(''a/k'', [])]"
  let ?s = "demo_two_os\<lparr>files := fmupd ''/tmp/t'' ''xyz'' (files demo_two_os),
    fault := \<lambda>op _. if op = OpCreateTemp then Some (errorf ''no space left on device'') else None\<rparr>"
  let ?x = "demo_ctx None [((''a'', ''k''), ''aaaaaa'', 0)] ?s\<lparr>bx_cache := ?m, bx_bucket := ''a''\<rparr>"
  let ?h = "demo_handle\<lparr>h_s3 := \<lparr>c_inner = mem_s3, c_bucket = ''a''\<rparr>, h_bucket := ''a'', h_key := ''k'', h_soleWriter := True\<rparr>"
  let ?path = "ds_Path demo_store ''a'' ''k''"
  have st: "cm_store ?m = demo_store" by (simp add: demo_manager_def)
  have ne: "''/tmp/t'' \<noteq> ?path"
  proof
    assume "''/tmp/t'' = ?path"
    then have "length ''/tmp/t'' = length ?path" by simp
    moreover obtain pre where "?path = pre @ sha256_hex ''k''" by (rule ds_Path_tail)
    ultimately show False by simp
  qed
  have cf: "fmlookup (files ?s) ?path = Some ''aaaaaa''" using ne by (simp add: demo_two_os_def)
  have g: "ms_Get (cm_meta ?m) ''a'' ''k'' = Inr (Some (demo_entry ''a'' 6 1))"
    by (simp add: demo_manager_def ms_Get_def demo_meta_def alist_bolt_def table_codec_def entryKey_def demo_two_def)
  have "fst (h_Flush ?h 5 demo_file ?x) = OK"
    by (simp add: h_Flush_def tmp_Seek_def tmp_Stat_def tmp_contents_def syncUpload_def PutObject_def mem_s3_def
        demo_handle_def demo_ctx_def Let_def)
  then obtain h' f' x' where fl: "h_Flush ?h 5 demo_file ?x = (OK, h', f', x')" by (metis prod.collapse)
  have a: "s3_ok (c_inner (h_s3 ?h)) mem_objs" "bx_writeBack ?x = None" "h_dirty ?h" "h_soleWriter ?h" "h_bucket ?h = bx_bucket ?x"
    "?path = ds_Path (cm_store (bx_cache ?x)) (bx_bucket ?x) (h_key ?h)"
    "ms_Get (cm_meta (bx_cache ?x)) (bx_bucket ?x) (h_key ?h) = Inr (Some (demo_entry ''a'' 6 1))"
    "fmlookup (files (bx_os ?x)) ?path = Some ''aaaaaa''"
    "\<forall>op \<in> {OpStat, OpOpen, OpReadAt}. fault (bx_os ?x) op ?path = None"
    "fault (bx_os ?x) OpCreateTemp (filepath_Dir ?path) = Some (errorf ''no space left on device'')" "(0::int) \<le> 0"
    using g cf by (simp_all add: mem_s3_ok demo_ctx_def demo_handle_def st)
  have sl: "take 3 ''aaaaaa'' = ''aaa''" by (simp add: numeral_eq_Suc)
  from flush_stale_cache [OF a(1-10) fl a(11), of 3 "3600 * second"] obtain t where
    "mem_objs (bx_world x') (''a'', ''k'') = Some (''xyz'', t)" "fst (h_Read h' 3 0 (3600 * second) f' x') = Inr ''aaa''"
    using sl by (auto simp: demo_handle_def demo_ctx_def tmp_contents_def)
  with fl show ?thesis by (intro exI conjI)
qed

end
