(* ===== verification/Fuse_Dir_Stream.thy ===== *)
theory Fuse_Dir_Stream
  imports Fuse_Node Go_Hash
begin

text \<open>
  \<open>internal/fuse/dirstream.go\<close>: inode numbers and the two directory streams, one over
  entries of the catalog, one that pages through S3 while it is read. The kernel side reads a
  stream by calling \<open>HasNext\<close> and, while it answers true, \<open>Next\<close>.
\<close>

section \<open>Entries\<close>

text \<open>\<open>gofuse.DirEntry\<close>; the zero value has no type bits set.\<close>

record DirEntry =
  d_Name :: string
  d_Ino :: "64 word"
  d_Mode :: "file_type option"

definition no_entry :: DirEntry where
  "no_entry = \<lparr>d_Name = [], d_Ino = 0, d_Mode = None\<rparr>"

definition stableIno :: "string \<Rightarrow> 64 word" where
  "stableIno name = fnv1a_64 name"

section \<open>The catalog's stream\<close>

record catalogDirStream =
  cs_entries :: "DirEntry list"
  cs_pos :: nat

definition catalog_dir_entry :: "Entry \<Rightarrow> DirEntry" where
  "catalog_dir_entry e =
     \<lparr>d_Name = e_Name e, d_Ino = stableIno (e_Key e), d_Mode = Some (if e_IsDir e then S_IFDIR else S_IFREG)\<rparr>"

definition newCatalogDirStream :: "Entry list \<Rightarrow> catalogDirStream" where
  "newCatalogDirStream catEntries = \<lparr>cs_entries = map catalog_dir_entry catEntries, cs_pos = 0\<rparr>"

definition cs_HasNext :: "catalogDirStream \<Rightarrow> bool" where
  "cs_HasNext s \<longleftrightarrow> cs_pos s < length (cs_entries s)"

definition cs_Next :: "catalogDirStream \<Rightarrow> (DirEntry \<times> errno) \<times> catalogDirStream" where
  "cs_Next s =
     (if cs_pos s \<ge> length (cs_entries s) then ((no_entry, EIO), s)
      else ((cs_entries s ! cs_pos s, OK), s\<lparr>cs_pos := cs_pos s + 1\<rparr>))"

section \<open>The stream over S3\<close>

record 'w S3DirStream =
  ss_s3 :: "'w client"
  ss_bucket :: string
  ss_prefix :: string
  ss_entries :: "DirEntry list"
  ss_pos :: nat
  ss_token :: "string option"
  ss_done :: bool
  ss_loaded :: bool

definition newS3DirStream :: "'w client \<Rightarrow> string \<Rightarrow> string \<Rightarrow> 'w S3DirStream" where
  "newS3DirStream s3c bucket prefix =
     \<lparr>ss_s3 = s3c, ss_bucket = bucket, ss_prefix = prefix, ss_entries = [], ss_pos = 0,
      ss_token = None, ss_done = False, ss_loaded = False\<rparr>"

text \<open>The two loops of \<open>fetchPage\<close>.\<close>

fun page_dirs :: "string \<Rightarrow> string list \<Rightarrow> DirEntry list" where
  "page_dirs prefix [] = []"
| "page_dirs prefix (cp # cps) =
     (let name = TrimSuffix (TrimPrefix cp prefix) ''/''
      in if name = [] then page_dirs prefix cps
         else \<lparr>d_Name = name, d_Ino = stableIno cp, d_Mode = Some S_IFDIR\<rparr> # page_dirs prefix cps)"

fun page_files :: "string \<Rightarrow> ObjectEntry list \<Rightarrow> DirEntry list" where
  "page_files prefix [] = []"
| "page_files prefix (obj # objs) =
     (let name = path_Base (oe_Key obj)
      in if oe_Key obj = prefix then page_files prefix objs
         else if HasSuffix (oe_Key obj) ''/'' then page_files prefix objs
         else \<lparr>d_Name = name, d_Ino = stableIno (oe_Key obj), d_Mode = Some S_IFREG\<rparr> # page_files prefix objs)"

definition fetchPage :: "'w S3DirStream \<Rightarrow> 'w \<Rightarrow> go_error option \<times> 'w S3DirStream \<times> 'w" where
  "fetchPage s w =
     (case ListObjects (ss_s3 s) (ss_prefix s) ''/'' (ss_token s) w of
        (Inl err, w) \<Rightarrow> (Some err, s\<lparr>ss_done := True\<rparr>, w)
      | (Inr result, w) \<Rightarrow>
          (let s = s\<lparr>ss_entries := page_dirs (ss_prefix s) (lr_CommonPrefixes result) @
                                   page_files (ss_prefix s) (lr_Objects result),
                     ss_pos := 0\<rparr>;
               s = (case lr_ContinuationToken result of
                      Some t \<Rightarrow> s\<lparr>ss_token := Some t\<rparr>
                    | None \<Rightarrow> s\<lparr>ss_done := True\<rparr>)
           in (None, s\<lparr>ss_loaded := True\<rparr>, w)))"

definition ss_HasNext :: "'w S3DirStream \<Rightarrow> 'w \<Rightarrow> bool \<times> 'w S3DirStream \<times> 'w" where
  "ss_HasNext s w =
     (if ss_pos s < length (ss_entries s) then (True, s, w)
      else if ss_done s then (False, s, w)
      else (case fetchPage s w of
              (Some err, s, w) \<Rightarrow> (False, s, w)
            | (None, s, w) \<Rightarrow> (ss_pos s < length (ss_entries s), s, w)))"

definition ss_Next :: "'w S3DirStream \<Rightarrow> (DirEntry \<times> errno) \<times> 'w S3DirStream" where
  "ss_Next s =
     (if ss_pos s \<ge> length (ss_entries s) then ((no_entry, EIO), s)
      else ((ss_entries s ! ss_pos s, OK), s\<lparr>ss_pos := ss_pos s + 1\<rparr>))"

text \<open>\<open>fs.DirStream\<close>: either of them.\<close>

datatype 'w DirStream = CatalogStream catalogDirStream | S3Stream "'w S3DirStream"

definition HasNext :: "'w DirStream \<Rightarrow> 'w \<Rightarrow> bool \<times> 'w DirStream \<times> 'w" where
  "HasNext d w =
     (case d of
        CatalogStream s \<Rightarrow> (cs_HasNext s, d, w)
      | S3Stream s \<Rightarrow> (case ss_HasNext s w of (b, s, w) \<Rightarrow> (b, S3Stream s, w)))"

definition Next :: "'w DirStream \<Rightarrow> (DirEntry \<times> errno) \<times> 'w DirStream" where
  "Next d =
     (case d of
        CatalogStream s \<Rightarrow> (case cs_Next s of (r, s) \<Rightarrow> (r, CatalogStream s))
      | S3Stream s \<Rightarrow> (case ss_Next s of (r, s) \<Rightarrow> (r, S3Stream s)))"

text \<open>What a reader of the stream gets: \<open>None\<close> when it is still reading after \<open>n\<close> entries.\<close>

fun drain :: "nat \<Rightarrow> 'w DirStream \<Rightarrow> 'w \<Rightarrow> (DirEntry list \<times> 'w) option" where
  "drain 0 d w = None"
| "drain (Suc n) d w =
     (case HasNext d w of (has_more, d, w) \<Rightarrow>
        if \<not> has_more then Some ([], w)
        else (case Next d of
                ((e, OK), d) \<Rightarrow> (case drain n d w of None \<Rightarrow> None | Some (es, w) \<Rightarrow> Some (e # es, w))
              | ((e, _), d) \<Rightarrow> Some ([], w)))"

section \<open>Reading a stream to its end\<close>

lemma drain_mono: "drain n d w = Some r \<Longrightarrow> n \<le> m \<Longrightarrow> drain m d w = Some r"
proof (induction n arbitrary: d w r m)
  case (Suc n)
  then obtain m' where m: "m = Suc m'" "n \<le> m'" by (cases m) auto
  obtain b d1 w1 where hn: "HasNext d w = (b, d1, w1)" by (metis prod_cases3)
  obtain e err d2 where nx: "Next d1 = ((e, err), d2)" by (metis surj_pair)
  show ?case
  proof (cases "drain n d2 w1")
    case None
    with Suc.prems hn nx show ?thesis by (auto simp: m split: errno.splits if_splits)
  next
    case (Some r')
    with Suc.IH [OF Some m(2)] Suc.prems hn nx show ?thesis by (auto simp: m split: errno.splits)
  qed
qed simp

lemma drain_catalog:
  "pos \<le> length es \<Longrightarrow>
   drain (Suc (length es - pos)) (CatalogStream \<lparr>cs_entries = es, cs_pos = pos\<rparr>) w = Some (drop pos es, w)"
proof (induction "length es - pos" arbitrary: pos)
  case 0
  then show ?case by (simp add: HasNext_def cs_HasNext_def)
next
  case (Suc k)
  then have lt: "pos < length es" by simp
  then obtain m where m: "length es - pos = Suc m" "length es - Suc pos = m" by (metis Suc_diff_Suc)
  with Suc(1) [of "Suc pos"] Suc(2) lt
  have "drain (Suc m) (CatalogStream \<lparr>cs_entries = es, cs_pos = Suc pos\<rparr>) w = Some (drop (Suc pos) es, w)" by simp
  moreover have "drop pos es = es ! pos # drop (Suc pos) es" using lt by (rule Cons_nth_drop_Suc [symmetric])
  ultimately show ?case using lt m by (simp add: HasNext_def cs_HasNext_def Next_def cs_Next_def)
qed

lemma drain_newCatalogDirStream:
  "drain (Suc (length es)) (CatalogStream (newCatalogDirStream es)) w = Some (map catalog_dir_entry es, w)"
  using drain_catalog [of 0 "map catalog_dir_entry es" w] by (simp add: newCatalogDirStream_def)

text \<open>The entries the stream over S3 takes from one page.\<close>

definition page_entries :: "string \<Rightarrow> ListResult \<Rightarrow> DirEntry list" where
  "page_entries p r = page_dirs p (lr_CommonPrefixes r) @ page_files p (lr_Objects r)"

text \<open>Once a page is loaded its remaining entries come first.\<close>

lemma drain_page:
  "ss_pos s \<le> length (ss_entries s) \<Longrightarrow>
   drain (length (ss_entries s) - ss_pos s + m) (S3Stream s) w =
     map_option (\<lambda>(es, w). (drop (ss_pos s) (ss_entries s) @ es, w))
       (drain m (S3Stream (s\<lparr>ss_pos := length (ss_entries s)\<rparr>)) w)"
proof (induction "length (ss_entries s) - ss_pos s" arbitrary: s)
  case 0
  then have "ss_pos s = length (ss_entries s)" by simp
  then have "s\<lparr>ss_pos := length (ss_entries s)\<rparr> = s" by (cases s) simp
  with 0 show ?case by (simp add: option.map_ident case_prod_unfold)
next
  case (Suc k)
  then have lt: "ss_pos s < length (ss_entries s)" by simp
  let ?s = "s\<lparr>ss_pos := Suc (ss_pos s)\<rparr>"
  from lt obtain j where j: "length (ss_entries s) - ss_pos s = Suc j" "length (ss_entries s) - Suc (ss_pos s) = j"
    by (metis Suc_diff_Suc)
  with Suc(1) [of ?s] Suc(2) lt
  have "drain (j + m) (S3Stream ?s) w =
      map_option (\<lambda>(es, w). (drop (Suc (ss_pos s)) (ss_entries s) @ es, w))
        (drain m (S3Stream (s\<lparr>ss_pos := length (ss_entries s)\<rparr>)) w)" by simp
  moreover have "drop (ss_pos s) (ss_entries s) = ss_entries s ! ss_pos s # drop (Suc (ss_pos s)) (ss_entries s)"
    using lt by (rule Cons_nth_drop_Suc [symmetric])
  ultimately show ?case
    using lt j by (simp add: HasNext_def ss_HasNext_def Next_def ss_Next_def split: option.split prod.split)
qed

lemma drain_done: "ss_done s \<Longrightarrow> ss_pos s = length (ss_entries s) \<Longrightarrow> drain (Suc 0) (S3Stream s) w = Some ([], w)"
  by (simp add: HasNext_def ss_HasNext_def)

lemma drain_pages:
  "list_pages n c p t w = Some (rs, w') \<Longrightarrow> ss_s3 s = c \<Longrightarrow> ss_prefix s = p \<Longrightarrow> ss_token s = t \<Longrightarrow> \<not> ss_done s \<Longrightarrow>
   ss_pos s = length (ss_entries s) \<Longrightarrow>
   \<exists>m w''. drain m (S3Stream s) w = Some (concat (takeWhile (\<lambda>es. es \<noteq> []) (map (page_entries p) rs)), w'')"
proof (induction n c p t w arbitrary: s rs rule: list_pages.induct)
  case (2 n c p t w)
  obtain r w1 where ls: "ListObjects c p ''/'' t w = (Inr r, w1)"
    using "2.prems"(1) by (auto split: prod.splits sum.splits)
  let ?es = "page_entries p r"
  let ?s = "(case lr_ContinuationToken r of
      Some t' \<Rightarrow> s\<lparr>ss_entries := ?es, ss_pos := 0, ss_token := Some t'\<rparr>
    | None \<Rightarrow> s\<lparr>ss_entries := ?es, ss_pos := 0, ss_done := True\<rparr>)\<lparr>ss_loaded := True\<rparr>"
  have fp: "fetchPage s w = (None, ?s, w1)"
    using ls "2.prems"(2-4) by (simp add: fetchPage_def page_entries_def Let_def split: option.split)
  have es: "ss_entries ?s = ?es" "ss_pos ?s = 0" by (simp_all split: option.split)
  have hn: "HasNext (S3Stream s) w = (?es \<noteq> [], S3Stream ?s, w1)"
    using "2.prems"(5,6) fp es by (simp add: HasNext_def ss_HasNext_def)
  have rest: "\<exists>rs'. rs = r # rs'" using "2.prems"(1) ls by (auto split: if_splits)
  show ?case
  proof (cases "?es = []")
    case True
    then have d: "drain (Suc 0) (S3Stream s) w = Some ([], w1)" using hn by simp
    have none: "concat (takeWhile (\<lambda>es. es \<noteq> []) (map (page_entries p) rs)) = []" using True rest by auto
    show ?thesis unfolding none using d by (intro exI)
  next
    case ne: False
    let ?s' = "?s\<lparr>ss_pos := length (ss_entries ?s)\<rparr>"
    have tail: "\<exists>m w''. drain m (S3Stream ?s') w1 =
        Some (concat (takeWhile (\<lambda>es. es \<noteq> []) (map (page_entries p) (tl rs))), w'')"
    proof (cases "lr_ContinuationToken r")
      case None
      with "2.prems"(1) ls have "rs = [r]" by simp
      with drain_done [of ?s' w1] None show ?thesis by (intro exI [of _ "Suc 0"]) simp
    next
      case (Some t')
      then obtain rs' where l: "list_pages n c p (lr_ContinuationToken r) w1 = Some (rs', w')" "rs = r # rs'"
        using "2.prems"(1) ls by auto
      show ?thesis
        using "2.IH" [OF ls [symmetric] refl _ l(1), of ?s'] Some "2.prems"(2-5) l(2) by simp
    qed
    then obtain m w'' where m: "drain m (S3Stream ?s') w1 =
        Some (concat (takeWhile (\<lambda>es. es \<noteq> []) (map (page_entries p) (tl rs))), w'')" by blast
    have d: "drain (length ?es + m) (S3Stream ?s) w1 =
        Some (?es @ concat (takeWhile (\<lambda>es. es \<noteq> []) (map (page_entries p) (tl rs))), w'')"
      using drain_page [of ?s m w1] m es by simp
    have "HasNext (S3Stream ?s) w1 = (True, S3Stream ?s, w1)"
      using ne es by (simp add: HasNext_def ss_HasNext_def)
    then have "drain (Suc k) (S3Stream s) w = drain (Suc k) (S3Stream ?s) w1" for k
      using hn ne by simp
    moreover obtain k where "length ?es + m = Suc k" using ne by (cases "length ?es + m") auto
    ultimately have d': "drain (length ?es + m) (S3Stream s) w =
        Some (?es @ concat (takeWhile (\<lambda>es. es \<noteq> []) (map (page_entries p) (tl rs))), w'')" using d by simp
    have all: "concat (takeWhile (\<lambda>es. es \<noteq> []) (map (page_entries p) rs)) =
        ?es @ concat (takeWhile (\<lambda>es. es \<noteq> []) (map (page_entries p) (tl rs)))" using ne rest by auto
    show ?thesis unfolding all using d' by (intro exI)
  qed
qed simp


text \<open>An S3 that lists \<open>d/\<close> in two pages: first the marker of \<open>d/\<close> itself, then the file \<open>d/f\<close>.\<close>

definition two_pages :: "nat client" where
  "two_pages = refusing_s3\<lparr>c_inner := (c_inner refusing_s3)\<lparr>aws_List := (\<lambda>b p d m t w.
     (Inr (case t of
        None \<Rightarrow> \<lparr>lo_contents = [\<lparr>ro_key = Some ''d/'', ro_size = Some 0, ro_modified = None, ro_etag = None\<rparr>],
                 lo_prefixes = [], lo_truncated = Some True, lo_next = Some ''2''\<rparr>
      | Some _ \<Rightarrow> \<lparr>lo_contents = [\<lparr>ro_key = Some ''d/f'', ro_size = Some 3, ro_modified = None, ro_etag = None\<rparr>],
                 lo_prefixes = [], lo_truncated = Some False, lo_next = None\<rparr>), w))\<rparr>\<rparr>"


end
