(* ===== verification/Fuse_Dir.thy ===== *)
theory Fuse_Dir
  imports Fuse_Handle Fuse_Dir_Stream
begin

text \<open>
  \<open>internal/fuse/dir.go\<close>: the directory nodes. A directory node is its key prefix with the
  mount's context, which is passed and returned; the root node is the directory with the empty
  prefix. The clock is read once per operation.
\<close>

section \<open>Nodes\<close>

record DirNode =
  dn_prefix :: string

text \<open>The inode an operation returns: its node and its stable attributes.\<close>

datatype node = Dir DirNode | File FileNode

record Inode =
  in_node :: node
  in_mode :: file_type
  in_ino :: "64 word"

text \<open>\<open>gofuse.EntryOut\<close>.\<close>

record entry_out =
  eo_perm :: int
  eo_type :: "file_type option"
  eo_nlink :: int
  eo_size :: int
  eo_time :: time
  eo_valid :: int

datatype lookupResult = IsDirResult | FileResult ObjectMeta

definition RootNode :: DirNode where
  "RootNode = \<lparr>dn_prefix = []\<rparr>"

definition dn_Access :: errno where
  "dn_Access = OK"

text \<open>0777 is octal.\<close>

definition dn_Getattr :: "time \<Rightarrow> attr_out \<times> errno" where
  "dn_Getattr now =
     (\<lparr>at_perm = 511, at_type = Some S_IFDIR, at_nlink = 2, at_size = 0, at_time = now, at_valid = 1\<rparr>, OK)"

definition makeDirInode :: "string \<Rightarrow> time \<Rightarrow> Inode \<times> entry_out" where
  "makeDirInode prefix now =
     (\<lparr>in_node = Dir \<lparr>dn_prefix = prefix\<rparr>, in_mode = S_IFDIR, in_ino = stableIno prefix\<rparr>,
      \<lparr>eo_perm = 511, eo_type = Some S_IFDIR, eo_nlink = 2, eo_size = 0, eo_time = now, eo_valid = 1\<rparr>)"

definition makeFileInode :: "string \<Rightarrow> int \<Rightarrow> string \<Rightarrow> time \<Rightarrow> Inode \<times> entry_out" where
  "makeFileInode key sz etag mtime =
     (\<lparr>in_node = File \<lparr>fn_key = key, fn_size = sz, fn_etag = etag, fn_mtime = mtime\<rparr>,
       in_mode = S_IFREG, in_ino = stableIno key\<rparr>,
      \<lparr>eo_perm = 438, eo_type = None, eo_nlink = 1, eo_size = u64 sz, eo_time = mtime, eo_valid = 1\<rparr>)"

section \<open>Looking a name up\<close>

text \<open>The loops of \<open>ingestListResult\<close>.\<close>

definition ingest_prefix :: "string \<Rightarrow> Entry" where
  "ingest_prefix cp =
     (case SplitKeyExported cp of (parent, name) \<Rightarrow>
        \<lparr>e_Key = cp, e_Parent = parent, e_Name = name, e_Size = 0, e_ETag = [],
         e_Modified = zero_time, e_IsDir = True\<rparr>)"

fun ingest_objects :: "string \<Rightarrow> ObjectEntry list \<Rightarrow> Entry list" where
  "ingest_objects prefix [] = []"
| "ingest_objects prefix (obj # objs) =
     (if oe_Key obj = prefix \<or> HasSuffix (oe_Key obj) ''/'' then ingest_objects prefix objs
      else (case SplitKeyExported (oe_Key obj) of (parent, name) \<Rightarrow>
              \<lparr>e_Key = oe_Key obj, e_Parent = parent, e_Name = name, e_Size = oe_Size obj,
               e_ETag = oe_ETag obj, e_Modified = oe_LastModified obj, e_IsDir = False\<rparr>)
           # ingest_objects prefix objs)"

definition ingestListResult ::
  "string \<Rightarrow> ListResult \<Rightarrow> ('db, 'w) bucketCtx \<Rightarrow> ('db, 'w) bucketCtx" where
  "ingestListResult prefix result x =
     (let entries = map ingest_prefix (lr_CommonPrefixes result) @ ingest_objects prefix (lr_Objects result)
      in if length entries = 0 then x
         else x\<lparr>bx_catalog := snd (cat_PutBatch (bx_bucket x) entries (bx_catalog x))\<rparr>)"

text \<open>The function \<open>Lookup\<close> gives to \<open>singleflight\<close>.\<close>

definition lookup_s3 ::
  "string \<Rightarrow> ('db, 'w) bucketCtx \<Rightarrow> (go_error + lookupResult) \<times> ('db, 'w) bucketCtx" where
  "lookup_s3 childKey x =
     (let dirPrefix = childKey @ ''/'' in
      case ListObjects (bx_s3 x) dirPrefix ''/'' None (bx_world x) of
        (Inl listErr, w) \<Rightarrow> (Inl listErr, x\<lparr>bx_world := w\<rparr>)
      | (Inr listResult, w) \<Rightarrow>
          (let x = x\<lparr>bx_world := w\<rparr> in
           if length (lr_Objects listResult) > 0 \<or> length (lr_CommonPrefixes listResult) > 0
           then (Inr IsDirResult, ingestListResult dirPrefix listResult x)
           else (case HeadObject (bx_s3 x) childKey (bx_world x) of
                   (Inl headErr, w) \<Rightarrow> (Inl headErr, x\<lparr>bx_world := w\<rparr>)
                 | (Inr meta, w) \<Rightarrow> (Inr (FileResult meta), x\<lparr>bx_world := w\<rparr>))))"

type_synonym lookup_reply = "errno + Inode \<times> entry_out"

definition lookup_fallback ::
  "string \<Rightarrow> time \<Rightarrow> ('db, 'w) bucketCtx \<Rightarrow> lookup_reply \<times> ('db, 'w) bucketCtx" where
  "lookup_fallback childKey now x =
     (case lookup_s3 childKey x of
        (Inl sfErr, x) \<Rightarrow>
          if IsNotFound (Some sfErr) then (Inl ENOENT, x) else (Inl (TranslateError (Some sfErr)), x)
      | (Inr IsDirResult, x) \<Rightarrow> (Inr (makeDirInode (childKey @ ''/'') now), x)
      | (Inr (FileResult meta), x) \<Rightarrow>
          (let x = ctx_catalog_Put (file_entry childKey (om_Size meta) (om_ETag meta) (om_LastModified meta)) x
           in (Inr (makeFileInode childKey (om_Size meta) (om_ETag meta) (om_LastModified meta)), x)))"

definition dn_Lookup ::
  "DirNode \<Rightarrow> string \<Rightarrow> time \<Rightarrow> ('db, 'w) bucketCtx \<Rightarrow> lookup_reply \<times> ('db, 'w) bucketCtx" where
  "dn_Lookup d name now x =
     (let childKey = dn_prefix d @ name;
          dirKey = childKey @ ''/''
      in case cat_Lookup (bx_bucket x) dirKey now (bx_catalog x) of
           (Inl err, cat) \<Rightarrow> (Inl EIO, x\<lparr>bx_catalog := cat\<rparr>)
         | (Inr entry, cat) \<Rightarrow>
             (let x = x\<lparr>bx_catalog := cat\<rparr> in
              if (case entry of Some e \<Rightarrow> e_IsDir e | None \<Rightarrow> False) then (Inr (makeDirInode dirKey now), x)
              else (case cat_HasDir (bx_bucket x) dirKey (bx_catalog x) of
                      Inl err \<Rightarrow> (Inl EIO, x)
                    | Inr has \<Rightarrow>
                        if has then (Inr (makeDirInode dirKey now), x)
                        else (case cat_Lookup (bx_bucket x) childKey now (bx_catalog x) of
                                (Inl err, cat) \<Rightarrow> (Inl EIO, x\<lparr>bx_catalog := cat\<rparr>)
                              | (Inr None, cat) \<Rightarrow> lookup_fallback childKey now (x\<lparr>bx_catalog := cat\<rparr>)
                              | (Inr (Some e), cat) \<Rightarrow>
                                  if \<not> e_IsDir e
                                  then (Inr (makeFileInode childKey (e_Size e) (e_ETag e) (e_Modified e)),
                                        x\<lparr>bx_catalog := cat\<rparr>)
                                  else lookup_fallback childKey now (x\<lparr>bx_catalog := cat\<rparr>)))))"

section \<open>Listing\<close>

text \<open>\<open>None\<close> when the synchronisation does not return.\<close>

definition dn_Readdir ::
  "DirNode \<Rightarrow> time \<Rightarrow> ('db, 'w) bucketCtx \<Rightarrow> (('w DirStream \<times> errno) \<times> ('db, 'w) bucketCtx) option" where
  "dn_Readdir d now x =
     (let s3_stream = S3Stream (newS3DirStream (bx_s3 x) (bx_bucket x) (dn_prefix d)) in
      case cat_ListDir (bx_bucket x) (dn_prefix d) now (bx_catalog x) of (r, cat) \<Rightarrow>
        (let x = x\<lparr>bx_catalog := cat\<rparr> in
         if (case r of Inr entries \<Rightarrow> length entries > 0 | Inl _ \<Rightarrow> False)
         then Some ((CatalogStream (newCatalogDirStream (projr r)), OK), x)
         else (case cat_SyncPrefix (bx_bucket x) (dn_prefix d) (bx_catalog x) (bx_world x) of
                 None \<Rightarrow> None
               | Some (Some syncErr, cat, w) \<Rightarrow> Some ((s3_stream, OK), x\<lparr>bx_catalog := cat, bx_world := w\<rparr>)
               | Some (None, cat, w) \<Rightarrow>
                   (let x = x\<lparr>bx_catalog := cat, bx_world := w\<rparr> in
                    case cat_ListDir (bx_bucket x) (dn_prefix d) now (bx_catalog x) of
                      (Inl err, cat) \<Rightarrow> Some ((s3_stream, OK), x\<lparr>bx_catalog := cat\<rparr>)
                    | (Inr entries, cat) \<Rightarrow>
                        Some ((CatalogStream (newCatalogDirStream entries), OK), x\<lparr>bx_catalog := cat\<rparr>)))))"

section \<open>Creating and removing\<close>

definition dn_Mkdir ::
  "DirNode \<Rightarrow> string \<Rightarrow> time \<Rightarrow> ('db, 'w) bucketCtx \<Rightarrow> lookup_reply \<times> ('db, 'w) bucketCtx" where
  "dn_Mkdir d name now x =
     (let markerKey = dn_prefix d @ name @ ''/'' in
      case PutObject (bx_s3 x) markerKey [] 0 (bx_world x) of
        (Inl err, w) \<Rightarrow> (Inl (TranslateError (Some err)), x\<lparr>bx_world := w\<rparr>)
      | (Inr _, w) \<Rightarrow>
          (Inr (makeDirInode markerKey now), ctx_catalog_Put (ingest_prefix markerKey) (x\<lparr>bx_world := w\<rparr>)))"

definition dn_Create ::
  "DirNode \<Rightarrow> string \<Rightarrow> time \<Rightarrow> ('db, 'w) bucketCtx \<Rightarrow>
   (errno + (Inode \<times> entry_out) \<times> 'w Handle) \<times> ('db, 'w) bucketCtx" where
  "dn_Create d name now x =
     (let key = dn_prefix d @ name;
          child = \<lparr>fn_key = key, fn_size = 0, fn_etag = [], fn_mtime = now\<rparr>
      in case newHandle child x of
           (Inl err, x) \<Rightarrow> (Inl EIO, x)
         | (Inr handle, x) \<Rightarrow>
             (Inr ((\<lparr>in_node = File child, in_mode = S_IFREG, in_ino = stableIno key\<rparr>,
                    \<lparr>eo_perm = 438, eo_type = None, eo_nlink = 1, eo_size = 0, eo_time = now, eo_valid = 1\<rparr>),
                   handle\<lparr>h_dirty := True\<rparr>),
              ctx_catalog_Put (file_entry key 0 [] now) x))"

definition dn_Unlink :: "DirNode \<Rightarrow> string \<Rightarrow> ('db, 'w) bucketCtx \<Rightarrow> errno \<times> ('db, 'w) bucketCtx" where
  "dn_Unlink d name x =
     (let key = dn_prefix d @ name in
      case DeleteObject (bx_s3 x) key (bx_world x) of
        (Some err, w) \<Rightarrow> (TranslateError (Some err), x\<lparr>bx_world := w\<rparr>)
      | (None, w) \<Rightarrow> (OK, ctx_catalog_Delete key (ctx_cache_Invalidate key (x\<lparr>bx_world := w\<rparr>))))"

definition dn_Rmdir :: "DirNode \<Rightarrow> string \<Rightarrow> ('db, 'w) bucketCtx \<Rightarrow> errno \<times> ('db, 'w) bucketCtx" where
  "dn_Rmdir d name x =
     (let dirPrefix = dn_prefix d @ name @ ''/'' in
      case ListObjects (bx_s3 x) dirPrefix ''/'' None (bx_world x) of
        (Inl err, w) \<Rightarrow> (TranslateError (Some err), x\<lparr>bx_world := w\<rparr>)
      | (Inr listResult, w) \<Rightarrow>
          (let x = x\<lparr>bx_world := w\<rparr>;
               hasContents = (list_ex (\<lambda>obj. oe_Key obj \<noteq> dirPrefix) (lr_Objects listResult) \<or>
                              length (lr_CommonPrefixes listResult) > 0)
           in if hasContents then (ENOTEMPTY, x)
              else (case DeleteObject (bx_s3 x) dirPrefix (bx_world x) of
                      (Some err, w) \<Rightarrow> (TranslateError (Some err), x\<lparr>bx_world := w\<rparr>)
                    | (None, w) \<Rightarrow> (OK, ctx_catalog_DeletePrefix dirPrefix (x\<lparr>bx_world := w\<rparr>)))))"

text \<open>
  The new parent as \<open>Rename\<close> tells it apart: a directory, or a node of another type. The
  object is copied; the source's deletion may fail without the caller being told.
\<close>

definition dn_Rename ::
  "DirNode \<Rightarrow> string \<Rightarrow> node \<Rightarrow> string \<Rightarrow> ('db, 'w) bucketCtx \<Rightarrow> errno \<times> ('db, 'w) bucketCtx" where
  "dn_Rename d name newParent newName x =
     (case newParent of
        File _ \<Rightarrow> (EINVAL, x)
      | Dir p \<Rightarrow>
          (let srcKey = dn_prefix d @ name;
               dstKey = dn_prefix p @ newName
           in case CopyObject (bx_s3 x) srcKey dstKey (bx_world x) of
                (Some err, w) \<Rightarrow> (TranslateError (Some err), x\<lparr>bx_world := w\<rparr>)
              | (None, w) \<Rightarrow>
                  (let x = x\<lparr>bx_world := snd (DeleteObject (bx_s3 x) srcKey w)\<rparr>;
                       x = ctx_cache_Invalidate dstKey (ctx_cache_Invalidate srcKey x);
                       x = ctx_catalog_Delete dstKey (ctx_catalog_Delete srcKey x)
                   in (OK, x))))"

end
