(* ===== verification/Dir_Ops.thy ===== *)
theory Dir_Ops
  imports Fuse_Dir Handle_Write
begin

text \<open>
  What the directory operations do to S3, the cache and the catalog together.
\<close>

section \<open>The local side\<close>

lemma ctx_catalog_Delete_frame [simp]:
  "bx_s3 (ctx_catalog_Delete k x) = bx_s3 x" "bx_world (ctx_catalog_Delete k x) = bx_world x"
  "bx_cache (ctx_catalog_Delete k x) = bx_cache x" "bx_os (ctx_catalog_Delete k x) = bx_os x"
  "bx_writeBack (ctx_catalog_Delete k x) = bx_writeBack x" "bx_bucket (ctx_catalog_Delete k x) = bx_bucket x"
  by (simp_all add: ctx_catalog_Delete_def)

lemma ctx_catalog_DeletePrefix_frame [simp]:
  "bx_s3 (ctx_catalog_DeletePrefix k x) = bx_s3 x" "bx_world (ctx_catalog_DeletePrefix k x) = bx_world x"
  "bx_cache (ctx_catalog_DeletePrefix k x) = bx_cache x" "bx_os (ctx_catalog_DeletePrefix k x) = bx_os x"
  "bx_bucket (ctx_catalog_DeletePrefix k x) = bx_bucket x"
  by (simp_all add: ctx_catalog_DeletePrefix_def)

lemma ctx_cache_Invalidate_frame [simp]:
  "bx_s3 (ctx_cache_Invalidate k x) = bx_s3 x" "bx_world (ctx_cache_Invalidate k x) = bx_world x"
  "bx_catalog (ctx_cache_Invalidate k x) = bx_catalog x"
  "bx_writeBack (ctx_cache_Invalidate k x) = bx_writeBack x" "bx_bucket (ctx_cache_Invalidate k x) = bx_bucket x"
  "cm_store (bx_cache (ctx_cache_Invalidate k x)) = cm_store (bx_cache x)"
  "fault (bx_os (ctx_cache_Invalidate k x)) = fault (bx_os x)"
  "temp_name (bx_os (ctx_cache_Invalidate k x)) = temp_name (bx_os x)"
  by (simp_all add: ctx_cache_Invalidate_def cm_Invalidate_def ds_Delete_def split: prod.split)
    (metis os_Remove_env snd_conv)+

lemma ctx_cache_Invalidate_files:
  "fmlookup (files (bx_os (ctx_cache_Invalidate k x))) q =
     (if q = ds_Path (cm_store (bx_cache x)) (bx_bucket x) k \<and> fault (bx_os x) OpRemove q = None then None
      else fmlookup (files (bx_os x)) q)"
  using os_Remove_files [of "ds_Path (cm_store (bx_cache x)) (bx_bucket x) k" "bx_os x" q]
  by (simp add: ctx_cache_Invalidate_def cm_Invalidate_def ds_Delete_def split: prod.split) auto

text \<open>No file operation fails when a cached copy is removed: then it is gone.\<close>

definition removable :: "os \<Rightarrow> bool" where
  "removable s \<longleftrightarrow> (\<forall>p. fault s OpRemove p = None)"

lemma cat_Delete_row:
  assumes "coherent c" and "sql_faultfree (sm_store c)"
  shows "st_map (sm_store (snd (cat_Delete b k c))) = (st_map (sm_store c))((b, k) := None)"
    and "coherent (snd (cat_Delete b k c))" and "sql_faultfree (sm_store (snd (cat_Delete b k c)))"
proof -
  obtain r s' where d: "st_Delete b k (sm_store c) = (r, s')" by (metis surj_pair)
  note st = st_Delete_step [OF coherentD(1) [OF assms(1)] d]
  have "r = None" using d assms(2) by (auto simp: st_Delete_def sql_faultfree_def)
  with d st assms(2) show "st_map (sm_store (snd (cat_Delete b k c))) = (st_map (sm_store c))((b, k) := None)"
    "sql_faultfree (sm_store (snd (cat_Delete b k c)))"
    by (simp_all add: cat_Delete_def Let_def sql_faultfree_def)
  show "coherent (snd (cat_Delete b k c))"
    using cat_Delete_coherent [OF assms(1)] assms(2) by (simp add: sql_faultfree_def)
qed

lemma ctx_catalog_Delete_row:
  assumes "coherent (bx_catalog x)" and "sql_faultfree (sm_store (bx_catalog x))"
  shows "st_map (sm_store (bx_catalog (ctx_catalog_Delete k x))) = (st_map (sm_store (bx_catalog x)))((bx_bucket x, k) := None)"
    and "coherent (bx_catalog (ctx_catalog_Delete k x))" and "sql_faultfree (sm_store (bx_catalog (ctx_catalog_Delete k x)))"
  using cat_Delete_row [OF assms] by (simp_all add: ctx_catalog_Delete_def)

section \<open>Unlink\<close>


section \<open>Rename\<close>


section \<open>Rmdir\<close>

text \<open>
  More of what S3 documents: a request for an object that exists does not fail with "not found",
  a listing never does, and a first page that is empty means that there is nothing to list.
\<close>

definition s3_honest :: "'w client \<Rightarrow> ('w \<Rightarrow> s3_content) \<Rightarrow> bool" where
  "s3_honest c objs \<longleftrightarrow>
     (\<forall>k w e w'. HeadObject c k w = (Inl e, w') \<longrightarrow> IsNotFound (Some e) \<longrightarrow> objs w (c_bucket c, k) = None) \<and>
     (\<forall>p w e w'. ListObjects c p ''/'' None w = (Inl e, w') \<longrightarrow> \<not> IsNotFound (Some e)) \<and>
     (\<forall>p w r w'. ListObjects c p ''/'' None w = (Inr r, w') \<longrightarrow> lr_Objects r = [] \<longrightarrow> lr_CommonPrefixes r = [] \<longrightarrow>
        (\<forall>k. HasPrefix k p \<longrightarrow> k \<noteq> p \<longrightarrow> objs w (c_bucket c, k) = None))"

lemma s3_honest_empty:
  "s3_honest c objs \<Longrightarrow> ListObjects c p ''/'' None w = (Inr r, w') \<Longrightarrow> lr_Objects r = [] \<Longrightarrow> lr_CommonPrefixes r = [] \<Longrightarrow>
     HasPrefix k p \<Longrightarrow> k \<noteq> p \<Longrightarrow> objs w (c_bucket c, k) = None"
  unfolding s3_honest_def by blast

lemma s3_honest_list: "s3_honest c objs \<Longrightarrow> ListObjects c p ''/'' None w = (Inl e, w') \<Longrightarrow> \<not> IsNotFound (Some e)"
  unfolding s3_honest_def by blast

lemma s3_honest_head:
  "s3_honest c objs \<Longrightarrow> HeadObject c k w = (Inl e, w') \<Longrightarrow> IsNotFound (Some e) \<Longrightarrow> objs w (c_bucket c, k) = None"
  unfolding s3_honest_def by blast

lemma list_ex_not_prefix:
  assumes "ListObjects c p d t w = (Inr r, w')"
  shows "list_ex (\<lambda>obj. oe_Key obj \<noteq> p) (lr_Objects r) \<longleftrightarrow> lr_Objects r \<noteq> []"
proof -
  have "oe_Key ob \<noteq> p" if "ob \<in> set (lr_Objects r)" for ob
    using assms that by (auto simp: ListObjects_ok to_entry_def)
  then show ?thesis by (cases "lr_Objects r") (auto simp: list_ex_iff)
qed


section \<open>Unlink while an upload is pending\<close>

text \<open>C35: a pending upload brings an unlinked file back. \<open>Unlink\<close> does not look at the write-back
  queue: if a job for the key is waiting when it succeeds, and a worker then processes the job and
  ends with metadata, the object exists again, with the staged bytes.\<close>

theorem unlink_pending_upload:
  assumes "s3_ok (c_inner (bx_s3 x)) objs" and "k = dn_prefix d @ name" and "dn_Unlink d name x = (OK, x')"
    and "bx_writeBack x = Some q" and "uj_Key job = k" and "uj_FilePath job = p @ ''.wb''"
    and "wq_getClient q (uj_Bucket job) = Some (bx_s3 x)" and "fmlookup (files (bx_os x)) (uj_FilePath job) = Some c"
    and "process (wq_getClient q) n stop job (bx_os x') (bx_world x') = (r, job', s', w')"
    and "ur_Meta r = Some meta"
  shows "objs (bx_world x') (c_bucket (bx_s3 x), k) = None \<and> bx_writeBack x' = Some q \<and>
    objs w' (c_bucket (bx_s3 x), k) = Some (c, om_ETag meta)"
proof -
  obtain r1 w1 where dl: "DeleteObject (bx_s3 x) k (bx_world x) = (r1, w1)" by (metis surj_pair)
  have "r1 = None" using assms(2,3) dl by (cases r1) (auto simp: dn_Unlink_def Let_def)
  let ?x1 = "ctx_cache_Invalidate k (x\<lparr>bx_world := w1\<rparr>)"
  have x': "x' = ctx_catalog_Delete k ?x1" using \<open>r1 = None\<close> assms(2,3) dl by (simp add: dn_Unlink_def Let_def)
  have gone: "objs (bx_world x') (c_bucket (bx_s3 x), k) = None"
    using x' DeleteObject_content(1) [OF assms(1) dl \<open>r1 = None\<close>] by simp
  have kept: "fmlookup (files (bx_os x')) (uj_FilePath job) = Some c"
    using x' assms(6,8) staged_not_cached by (simp add: ctx_cache_Invalidate_files)
  have up: "upload_attempts (nat (n + 1)) 0 stop (bx_s3 x) job None (bx_os x') (bx_world x') = (r, s', w')"
    using assms(7,9) by (auto simp: process_def split: prod.splits)
  from upload_attempts_spec [OF assms(1) up] kept gone assms(4,5,10) x' show ?thesis by simp
qed

section \<open>Readdir\<close>

text \<open>\<open>Readdir\<close> trusts a catalog that knows anything. If the catalog has at least one row for
  the directory, the stream delivers exactly its rows and S3 is not asked: what others have put
  there, or what was there before the first row was written, is not listed.\<close>

theorem readdir_trusts_catalog:
  assumes "coherent (bx_catalog x)"
    and "fst (cat_ListDir (bx_bucket x) (dn_prefix d) now (bx_catalog x)) = Inr es" and "es \<noteq> []"
  shows "\<exists>x' s. dn_Readdir d now x = Some ((s, OK), x') \<and> bx_world x' = bx_world x \<and>
    drain (Suc (length es)) s (bx_world x') = Some (map catalog_dir_entry es, bx_world x') \<and>
    set es = children (sm_store (bx_catalog x)) (bx_bucket x) (dn_prefix d)"
proof -
  obtain cat where l: "cat_ListDir (bx_bucket x) (dn_prefix d) now (bx_catalog x) = (Inr es, cat)"
    using assms(2) by (metis prod.collapse)
  then have r: "dn_Readdir d now x = Some ((CatalogStream (newCatalogDirStream es), OK), x\<lparr>bx_catalog := cat\<rparr>)"
    using assms(3) by (simp add: dn_Readdir_def Let_def)
  have "set es = children (sm_store (bx_catalog x)) (bx_bucket x) (dn_prefix d)"
    by (rule cat_ListDir_coherent(2) [OF assms(1,2)])
  with r show ?thesis
    by (intro exI [of _ "x\<lparr>bx_catalog := cat\<rparr>"] exI [of _ "CatalogStream (newCatalogDirStream es)"] conjI drain_newCatalogDirStream)
      simp_all
qed

section \<open>Lookup\<close>

text \<open>The inode of a child: its node, its type bits and its number agree with its key.\<close>

definition inode_ok :: "string \<Rightarrow> Inode \<Rightarrow> bool" where
  "inode_ok key i \<longleftrightarrow>
     (case in_node i of
        Dir d \<Rightarrow> dn_prefix d = key @ ''/'' \<and> in_mode i = S_IFDIR \<and> in_ino i = stableIno (key @ ''/'')
      | File f \<Rightarrow> fn_key f = key \<and> in_mode i = S_IFREG \<and> in_ino i = stableIno key)"

definition entry_out_ok :: "Inode \<Rightarrow> entry_out \<Rightarrow> bool" where
  "entry_out_ok i out \<longleftrightarrow> 0 \<le> eo_size out \<and> eo_size out < 2 ^ 64 \<and>
     (case in_node i of
        Dir d \<Rightarrow> eo_type out = Some S_IFDIR \<and> eo_nlink out = 2
      | File f \<Rightarrow> eo_type out = None \<and> eo_nlink out = 1 \<and> eo_time out = fn_mtime f \<and> eo_size out = u64 (fn_size f))"

lemma make_inodes_ok:
  "makeDirInode (key @ ''/'') now = (i, out) \<Longrightarrow> inode_ok key i \<and> entry_out_ok i out"
  "makeFileInode key sz etag mtime = (i, out) \<Longrightarrow> inode_ok key i \<and> entry_out_ok i out"
  using take_bit_int_less_exp [of 64 sz]
  by (auto simp: makeDirInode_def makeFileInode_def inode_ok_def entry_out_ok_def u64_def)

text \<open>How \<open>Lookup\<close> can end.\<close>

lemma dn_Lookup_cases:
  assumes "dn_Lookup d name now x = (r, x')" and "key = dn_prefix d @ name"
  obtains
    (fault) "r = Inl EIO" "\<exists>cat. x' = x\<lparr>bx_catalog := cat\<rparr>"
  | (dir) cat where "r = Inr (makeDirInode (key @ ''/'') now)" "x' = x\<lparr>bx_catalog := cat\<rparr>"
      "(\<exists>e. fst (cat_Lookup (bx_bucket x) (key @ ''/'') now (bx_catalog x)) = Inr (Some e) \<and> e_IsDir e) \<or>
       cat_HasDir (bx_bucket x) (key @ ''/'') (snd (cat_Lookup (bx_bucket x) (key @ ''/'') now (bx_catalog x))) = Inr True"
  | (row) cat e where "r = Inr (makeFileInode key (e_Size e) (e_ETag e) (e_Modified e))" "x' = x\<lparr>bx_catalog := cat\<rparr>"
      "fst (cat_Lookup (bx_bucket x) key now (snd (cat_Lookup (bx_bucket x) (key @ ''/'') now (bx_catalog x)))) = Inr (Some e)"
      "\<not> e_IsDir e"
  | (fallback) cat where "lookup_fallback key now (x\<lparr>bx_catalog := cat\<rparr>) = (r, x')"
proof -
  obtain a1 c1 where l1: "cat_Lookup (bx_bucket x) (key @ ''/'') now (bx_catalog x) = (a1, c1)" by (metis surj_pair)
  obtain a2 c2 where l2: "cat_Lookup (bx_bucket x) key now c1 = (a2, c2)" by (metis surj_pair)
  note eq = assms(1) [unfolded dn_Lookup_def Let_def, folded assms(2), unfolded l1]
  show thesis
  proof (cases a1)
    case (Inl err)
    with eq show thesis by (intro fault) auto
  next
    case (Inr entry)
    show thesis
    proof (cases "case entry of Some e \<Rightarrow> e_IsDir e | None \<Rightarrow> False")
      case True
      with eq Inr show thesis by (intro dir [of c1]) (auto simp: l1 split: option.splits)
    next
      case no_dir: False
      show thesis
      proof (cases "cat_HasDir (bx_bucket x) (key @ ''/'') c1")
        case h: (Inl err)
        with eq Inr no_dir show thesis by (intro fault) auto
      next
        case h: (Inr has)
        show thesis
        proof (cases has)
          case True
          with eq Inr no_dir h show thesis by (intro dir [of c1]) (auto simp: l1)
        next
          case False
          have eq3: "(case a2 of Inl err \<Rightarrow> (Inl EIO, x\<lparr>bx_catalog := c2\<rparr>)
              | Inr None \<Rightarrow> lookup_fallback key now (x\<lparr>bx_catalog := c2\<rparr>)
              | Inr (Some e) \<Rightarrow>
                  if \<not> e_IsDir e then (Inr (makeFileInode key (e_Size e) (e_ETag e) (e_Modified e)), x\<lparr>bx_catalog := c2\<rparr>)
                  else lookup_fallback key now (x\<lparr>bx_catalog := c2\<rparr>)) = (r, x')"
            using eq no_dir by (simp add: Inr h False l2 cong: sum.case_cong option.case_cong if_cong)
          show thesis
          proof (cases a2)
            case (Inl err)
            with eq3 show thesis by (intro fault) auto
          next
            case a2: (Inr ans)
            show thesis
            proof (cases ans)
              case None
              with eq3 a2 show thesis by (intro fallback [of c2]) auto
            next
              case (Some e)
              show thesis
              proof (cases "e_IsDir e")
                case True
                with eq3 a2 Some show thesis by (intro fallback [of c2]) auto
              next
                case False
                with eq3 a2 Some show thesis by (intro row [of e c2]) (auto simp: l1 l2)
              qed
            qed
          qed
        qed
      qed
    qed
  qed
qed

text \<open>What the fallback to S3 answers.\<close>

lemma lookup_fallback_cases:
  assumes "s3_ok (c_inner (bx_s3 x)) objs" and "s3_honest (bx_s3 x) objs" and "lookup_fallback key now x = (r, x')"
    and "bkt = c_bucket (bx_s3 x)"
  shows "objs (bx_world x') = objs (bx_world x) \<and>
    (case r of
       Inl e \<Rightarrow> e = ENOENT \<longrightarrow> objs (bx_world x) (bkt, key) = None \<and>
         (\<forall>k. HasPrefix k (key @ ''/'') \<longrightarrow> k \<noteq> key @ ''/'' \<longrightarrow> objs (bx_world x) (bkt, k) = None)
     | Inr (i, out) \<Rightarrow> inode_ok key i \<and> entry_out_ok i out \<and>
         (\<forall>f. in_node i = File f \<longrightarrow>
            (\<exists>c. objs (bx_world x) (bkt, key) = Some (c, fn_etag f) \<and> fn_size f = int (length c))))"
proof -
  obtain lr w where ls: "ListObjects (bx_s3 x) (key @ ''/'') ''/'' None (bx_world x) = (lr, w)" by (metis surj_pair)
  note w = ListObjects_content(1) [OF assms(1) ls]
  show ?thesis
  proof (cases lr)
    case (Inl err)
    then have "\<not> IsNotFound (Some err)" using s3_honest_list [OF assms(2)] ls by blast
    then have "(r, x') = (Inl (TranslateError (Some err)), x\<lparr>bx_world := w\<rparr>)" "TranslateError (Some err) \<noteq> ENOENT"
      using assms(3) ls Inl by (simp_all add: lookup_fallback_def lookup_s3_def IsNotFound_ENOENT)
    with w show ?thesis by simp
  next
    case (Inr res)
    show ?thesis
    proof (cases "lr_Objects res = [] \<and> lr_CommonPrefixes res = []")
      case False
      then have "r = Inr (makeDirInode (key @ ''/'') now)" "x' = ingestListResult (key @ ''/'') res (x\<lparr>bx_world := w\<rparr>)"
        using assms(3) ls Inr by (auto simp: lookup_fallback_def lookup_s3_def Let_def)
      moreover obtain i out where "makeDirInode (key @ ''/'') now = (i, out)" by (metis surj_pair)
      ultimately show ?thesis
        using w make_inodes_ok(1) [of key now i out] by (auto simp: ingestListResult_def Let_def makeDirInode_def)
    next
      case True
      then have empty: "HasPrefix k (key @ ''/'') \<Longrightarrow> k \<noteq> key @ ''/'' \<Longrightarrow> objs (bx_world x) (bkt, k) = None" for k
        using s3_honest_empty [OF assms(2) ls [unfolded Inr]] assms(4) by simp
      obtain hr w2 where hd: "HeadObject (bx_s3 x) key w = (hr, w2)" by (metis surj_pair)
      note w2 = HeadObject_content(1) [OF assms(1) hd]
      show ?thesis
      proof (cases hr)
        case (Inl err)
        then have rx: "(r, x') = (if IsNotFound (Some err) then Inl ENOENT else Inl (TranslateError (Some err)), x\<lparr>bx_world := w2\<rparr>)"
          using assms(3) ls Inr True hd by (auto simp: lookup_fallback_def lookup_s3_def)
        show ?thesis
        proof (cases "IsNotFound (Some err)")
          case nf: True
          then have "objs w (bkt, key) = None" using s3_honest_head [OF assms(2)] hd Inl assms(4) by simp
          with rx nf w w2 empty show ?thesis by simp
        next
          case False
          with rx w w2 show ?thesis by (simp add: IsNotFound_ENOENT)
        qed
      next
        case meta: (Inr meta)
        obtain i out where mk: "makeFileInode key (om_Size meta) (om_ETag meta) (om_LastModified meta) = (i, out)"
          by (metis surj_pair)
        from meta have "r = Inr (i, out)"
          "x' = ctx_catalog_Put (file_entry key (om_Size meta) (om_ETag meta) (om_LastModified meta)) (x\<lparr>bx_world := w2\<rparr>)"
          using assms(3) ls Inr True hd mk by (simp_all add: lookup_fallback_def lookup_s3_def Let_def)
        moreover obtain c where "objs w (bkt, key) = Some (c, om_ETag meta)" "om_Size meta = int (length c)"
          using HeadObject_content(2) [OF assms(1) hd meta] assms(4) by blast
        ultimately show ?thesis
          using w w2 make_inodes_ok(2) [OF mk] mk by (auto simp: makeFileInode_def)
      qed
    qed
  qed
qed


section \<open>Witnesses\<close>

lemma mem_s3_honest: "c_inner c = mem_s3 \<Longrightarrow> s3_honest c mem_objs"
proof -
  assume c: "c_inner c = mem_s3"
  have "mem_objs w (c_bucket c, k) = None"
    if l: "ListObjects c p ''/'' None w = (Inr r, w')" "lr_Objects r = []" "lr_CommonPrefixes r = []"
      and k: "HasPrefix k p" "k \<noteq> p" for p w r w' k
  proof -
    from l(1) obtain out where o: "aws_List mem_s3 (c_bucket c) p ''/'' 1000 None w = (Inr out, w')"
      "lr_ContinuationToken r = (if deref False (lo_truncated out) then lo_next out else None)"
      unfolding ListObjects_ok c by blast
    then have "deref False (lo_truncated out) = False" "lr_ContinuationToken r = None" by (auto simp: mem_s3_def)
    with o(1) ListObjects_content(3) [OF _ l(1) refl refl l(2,3), of mem_objs k] k show ?thesis
      by (simp add: c mem_s3_ok HasPrefix_def)
  qed
  moreover have "mem_objs w (c_bucket c, k) = None" if "HeadObject c k w = (Inl e, w')" for k w e w'
    using that by (auto simp: HeadObject_def c mem_s3_def mem_objs_def split: option.splits)
  moreover have "ListObjects c p ''/'' None w \<noteq> (Inl e, w')" for p w e w'
    by (simp add: ListObjects_def c mem_s3_def)
  ultimately show ?thesis unfolding s3_honest_def by blast
qed

definition demo_dir :: DirNode where
  "demo_dir = \<lparr>dn_prefix = ''d/''\<rparr>"

definition demo_w :: mem_world where
  "demo_w = [((''b'', ''d/f''), ''xyz'', 0)]"

abbreviation demo_x :: "((string \<times> bytes) list, mem_world) bucketCtx" where
  "demo_x \<equiv> demo_ctx None demo_w demo_os"

lemma demo_x_facts:
  "s3_ok (c_inner (bx_s3 demo_x)) mem_objs" "s3_honest (bx_s3 demo_x) mem_objs" "coherent (bx_catalog demo_x)"
  "sql_faultfree (sm_store (bx_catalog demo_x))" "removable (bx_os demo_x)" "CHR ''/'' \<notin> set (c_bucket (bx_s3 demo_x))"
proof -
  have "fresh_catalog demo_sync" by (auto simp: fresh_catalog_def rows_split_def)
  then show "coherent (bx_catalog demo_x)" by (simp add: demo_ctx_def fresh_coherent)
qed (simp_all add: demo_ctx_def demo_s3_ok mem_s3_honest removable_def demo_os_def demo_s3_def mem_s3_ok)





text \<open>The catalog knows \<open>d/f\<close>; S3 has \<open>d/g\<close> as well, and the listing does not show it.\<close>

theorem readdir_trusts_catalog_witness:
  "\<exists>(x :: ((string \<times> bytes) list, mem_world) bucketCtx) x' s n. mem_objs (bx_world x) (''b'', ''d/g'') \<noteq> None \<and>
     dn_Readdir demo_dir 7 x = Some ((s, OK), x') \<and>
     map_option (map d_Name \<circ> fst) (drain n s (bx_world x')) = Some [''f'']"
proof -
  let ?c = "snd (cat_Put ''b'' demo_store_entry demo_cat)"
  let ?x = "demo_x\<lparr>bx_catalog := ?c, bx_world := ((''b'', ''d/g''), ''uvw'', 0) # demo_w\<rparr>"
  let ?e = "demo_store_entry\<lparr>e_Modified := 1000000000\<rparr>"
  have co: "coherent (bx_catalog ?x)" by (simp add: cat_Put_coherent fresh_coherent demo_cat_fresh)
  have l: "fst (cat_ListDir (bx_bucket ?x) (dn_prefix demo_dir) 7 (bx_catalog ?x)) = Inr [?e]"
    by (simp add: demo_ctx_def demo_dir_def) code_simp
  from readdir_trusts_catalog [OF co l] obtain x' s where
    "dn_Readdir demo_dir 7 ?x = Some ((s, OK), x')" "drain (Suc (length [?e])) s (bx_world x') = Some (map catalog_dir_entry [?e], bx_world x')"
    by blast
  moreover from this(2) have "map_option (map d_Name \<circ> fst) (drain (Suc (length [?e])) s (bx_world x')) = Some [''f'']"
    by (simp only: option.map comp_def fst_conv list.map) (simp add: catalog_dir_entry_def demo_store_entry_def)
  moreover have "mem_objs (bx_world ?x) (''b'', ''d/g'') \<noteq> None" by (simp add: mem_objs_def)
  ultimately show ?thesis by (intro exI conjI)
qed

theorem unlink_pending_upload_witness:
  "\<exists>x x' q job r s w'. dn_Unlink demo_dir ''f'' (x :: ((string \<times> bytes) list, mem_world) bucketCtx) = (OK, x') \<and>
     mem_objs (bx_world x') (''b'', ''d/f'') = None \<and> bx_writeBack x' = Some q \<and> job \<in> set (wq_jobs q) \<and>
     process (wq_getClient q) 3 (\<lambda>_. False) job (bx_os x') (bx_world x') = r \<and> r = (fst r, job, s, w') \<and>
     mem_objs w' (''b'', ''d/f'') \<noteq> None"
proof -
  let ?job = "staged_job demo_handle ''/tmp/t'' ''new''"
  let ?q = "snd (Submit ?job demo_queue)"
  let ?s = "demo_os\<lparr>files := fmupd ''/tmp/t.wb'' ''new'' fmempty\<rparr>"
  let ?x = "demo_ctx (Some ?q) demo_w ?s"
  let ?x1 = "ctx_cache_Invalidate ''d/f'' (?x\<lparr>bx_world := []\<rparr>)"
  let ?x' = "ctx_catalog_Delete ''d/f'' ?x1"
  have u: "dn_Unlink demo_dir ''f'' ?x = (OK, ?x')"
    by (simp add: dn_Unlink_def DeleteObject_def demo_ctx_def demo_s3_def mem_s3_def Let_def demo_dir_def demo_w_def)
  have fl: "fmlookup (files (bx_os ?x')) ''/tmp/t.wb'' = Some ''new''" "fault (bx_os ?x') = (\<lambda>_ _. None)" "bx_world ?x' = []"
    using staged_not_cached [of "''/tmp/t''"] by (simp_all add: ctx_cache_Invalidate_files demo_ctx_def demo_os_def)
  let ?m = "\<lparr>om_ETag = ''new'', om_Size = 3, om_LastModified = zero_time, om_ContentType = []\<rparr>"
  let ?w = "[((''b'', ''d/f''), ''new'', 0)] :: mem_world"
  have pr: "process (wq_getClient ?q) 3 (\<lambda>_. False) ?job (bx_os ?x') (bx_world ?x') =
      (\<lparr>ur_Meta = Some ?m, ur_Err = None\<rparr>, ?job, snd (os_Remove ''/tmp/t.wb'' (bx_os ?x')), ?w)"
    using fl by (simp add: process_def upload_def os_Open_def os_Stat_def staged_job_def demo_handle_def demo_s3_def
      PutObject_def mem_s3_def sendResult_def numeral_eq_Suc demo_queue_def NewWriteBackQueue_def Submit_def)
  have a: "s3_ok (c_inner (bx_s3 ?x)) mem_objs" "bx_writeBack ?x = Some ?q" "uj_Key ?job = dn_prefix demo_dir @ ''f''"
    "uj_FilePath ?job = ''/tmp/t'' @ ''.wb''" "wq_getClient ?q (uj_Bucket ?job) = Some (bx_s3 ?x)"
    "fmlookup (files (bx_os ?x)) (uj_FilePath ?job) = Some ''new''"
    by (simp_all add: demo_ctx_def demo_s3_ok staged_job_def demo_dir_def demo_handle_def demo_queue_def NewWriteBackQueue_def
        Submit_def)
  from unlink_pending_upload [OF a(1) refl u a(2-6) pr]
  have "mem_objs (bx_world ?x') (''b'', ''d/f'') = None" "bx_writeBack ?x' = Some ?q" "mem_objs ?w (''b'', ''d/f'') \<noteq> None"
    by (simp_all add: demo_ctx_def demo_s3_def demo_dir_def)
  moreover have "?job \<in> set (wq_jobs ?q)" by (simp add: Submit_def demo_queue_def NewWriteBackQueue_def)
  ultimately show ?thesis using u pr by (intro exI conjI) (assumption | simp)+
qed

end
