(* ===== verification/Lifecycle.thy ===== *)
theory Lifecycle
  imports Cache_Manager Catalog Write_Back
begin

text \<open>
  Starting and stopping the background work of the catalog and of the write-back queue
  (\<open>internal/catalog\<close>: \<open>Start\<close>, \<open>Stop\<close>, \<open>Close\<close> and \<open>SyncManager.loop\<close>), and why the queue's
  \<open>Stop\<close> returns: a worker always has a move until it has exited, and the moves run out.
\<close>

section \<open>The catalog's goroutines\<close>

text \<open>
  The stop channels of the sync manager and of the two caches, whether the sync manager's
  goroutine runs, and whether the database is open.
\<close>

record cat_life =
  cl_sync :: stop_chan
  cl_neg :: stop_chan
  cl_dir :: stop_chan
  cl_loop :: bool
  cl_open :: bool

definition cat_opened :: cat_life where
  "cat_opened = \<lparr>cl_sync = False, cl_neg = False, cl_dir = False, cl_loop = False, cl_open = True\<rparr>"

definition sm_Start :: "cat_life \<Rightarrow> cat_life" where
  "sm_Start l = l\<lparr>cl_loop := True\<rparr>"

text \<open>The goroutine sees the closed channel at its next poll; \<open>Stop\<close> waits for it.\<close>

definition sm_Stop :: "cat_life \<Rightarrow> panic + cat_life" where
  "sm_Stop l =
     (case close_chan (cl_sync l) of Inl p \<Rightarrow> Inl p | Inr c \<Rightarrow> Inr (l\<lparr>cl_sync := c, cl_loop := False\<rparr>))"

definition nc_Stop :: "cat_life \<Rightarrow> panic + cat_life" where
  "nc_Stop l = (case close_chan (cl_neg l) of Inl p \<Rightarrow> Inl p | Inr c \<Rightarrow> Inr (l\<lparr>cl_neg := c\<rparr>))"

definition dc_Stop :: "cat_life \<Rightarrow> panic + cat_life" where
  "dc_Stop l = (case close_chan (cl_dir l) of Inl p \<Rightarrow> Inl p | Inr c \<Rightarrow> Inr (l\<lparr>cl_dir := c\<rparr>))"

definition cat_Start :: "cat_life \<Rightarrow> cat_life" where
  "cat_Start l = sm_Start l"

definition cat_Stop :: "cat_life \<Rightarrow> panic + cat_life" where
  "cat_Stop l =
     (case sm_Stop l of
        Inl p \<Rightarrow> Inl p
      | Inr l \<Rightarrow> (case nc_Stop l of
                   Inl p \<Rightarrow> Inl p
                 | Inr l \<Rightarrow> (case dc_Stop l of Inl p \<Rightarrow> Inl p | Inr l \<Rightarrow> Inr (l\<lparr>cl_open := False\<rparr>))))"

text \<open>
  \<open>SyncManager.loop\<close>: a pass at once, then one per tick received before the stop signal;
  \<open>ticks\<close> are the times of these ticks. \<open>None\<close> is a pass that does not return.
\<close>

fun sync_ticks :: "time list \<Rightarrow> 'w SyncManager \<Rightarrow> 'w \<Rightarrow> ('w SyncManager \<times> 'w) option" where
  "sync_ticks [] sm w = Some (sm, w)"
| "sync_ticks (t # ticks) sm w =
     (case syncAll t sm w of None \<Rightarrow> None | Some (sm1, w1) \<Rightarrow> sync_ticks ticks sm1 w1)"

definition sm_loop :: "time \<Rightarrow> time list \<Rightarrow> 'w SyncManager \<Rightarrow> 'w \<Rightarrow> ('w SyncManager \<times> 'w) option" where
  "sm_loop start ticks sm w = sync_ticks (start # ticks) sm w"

section \<open>Stopping the write-back queue\<close>

text \<open>The moves of the workers alone: no submission, nothing from outside.\<close>

inductive wb_work :: "'w wb_state \<Rightarrow> 'w wb_state \<Rightarrow> bool" where
  work_take: "i < length (wq_workers q) \<Longrightarrow> wq_workers q ! i = Idle \<Longrightarrow> wq_jobs q = job # jobs \<Longrightarrow>
    wb_work (q, s, w) (set_worker i (Working job) (q\<lparr>wq_jobs := jobs\<rparr>), s, w)"
| work_finish: "i < length (wq_workers q) \<Longrightarrow> wq_workers q ! i = Working job \<Longrightarrow>
    (\<forall>k. stop k \<longrightarrow> wq_stopped q) \<Longrightarrow>
    process (wq_getClient q) (wq_maxRetries q) stop job s w = (result, job', s', w') \<Longrightarrow>
    wb_work (q, s, w) (set_worker i Idle (q\<lparr>wq_done := (job, result) # wq_done q\<rparr>), s', w')"
| work_notice: "i < length (wq_workers q) \<Longrightarrow> wq_workers q ! i = Idle \<Longrightarrow> wq_stopped q \<Longrightarrow>
    wb_work (q, s, w) (set_worker i Draining q, s, w)"
| work_drain: "i < length (wq_workers q) \<Longrightarrow> wq_workers q ! i = Draining \<Longrightarrow> wq_jobs q = job # jobs \<Longrightarrow>
    wb_work (q, s, w) (set_worker i (DrainWorking job) (q\<lparr>wq_jobs := jobs\<rparr>), s, w)"
| work_drained: "i < length (wq_workers q) \<Longrightarrow> wq_workers q ! i = DrainWorking job \<Longrightarrow>
    process (wq_getClient q) (wq_maxRetries q) (\<lambda>_. True) job s w = (result, job', s', w') \<Longrightarrow>
    wb_work (q, s, w) (set_worker i Draining (q\<lparr>wq_done := (job, result) # wq_done q\<rparr>), s', w')"
| work_exit: "i < length (wq_workers q) \<Longrightarrow> wq_workers q ! i = Draining \<Longrightarrow> wq_jobs q = [] \<Longrightarrow>
    wb_work (q, s, w) (set_worker i Exited q, s, w)"

lemma wb_work_step: "wb_work st st' \<Longrightarrow> wb_step st st'"
  by (induction rule: wb_work.induct) (rule wb_take wb_finish wb_notice wb_drain wb_drained wb_exit; assumption)+

lemma wb_work_run: "wb_work\<^sup>*\<^sup>* st st' \<Longrightarrow> wb_step\<^sup>*\<^sup>* st st'"
  by (induction rule: rtranclp_induct) (auto dest: wb_work_step)

text \<open>
  \<open>Stop\<close> as one of the runs it allows, executable: the jobs the workers hold and those waiting
  are processed in order, without retries since the stop channel is closed. Without workers
  \<open>Stop\<close> returns at once.
\<close>

fun held_job :: "worker \<Rightarrow> UploadJob list" where
  "held_job (Working job) = [job]"
| "held_job (DrainWorking job) = [job]"
| "held_job _ = []"

fun run_jobs ::
  "(string \<Rightarrow> 'w client option) \<Rightarrow> int \<Rightarrow> UploadJob list \<Rightarrow> (UploadJob \<times> UploadResult) list \<Rightarrow> os \<Rightarrow> 'w \<Rightarrow>
   (UploadJob \<times> UploadResult) list \<times> os \<times> 'w" where
  "run_jobs getClient maxRetries [] dn s w = (dn, s, w)"
| "run_jobs getClient maxRetries (job # jobs) dn s w =
     (case process getClient maxRetries (\<lambda>_. True) job s w of
        (result, _, s', w') \<Rightarrow> run_jobs getClient maxRetries jobs ((job, result) # dn) s' w')"

definition wbq_Stop :: "'w WriteBackQueue \<Rightarrow> os \<Rightarrow> 'w \<Rightarrow> panic + 'w wb_state" where
  "wbq_Stop q s w =
     (case close_chan (wq_stopped q) of
        Inl p \<Rightarrow> Inl p
      | Inr c \<Rightarrow>
          if wq_workers q = [] then Inr (q\<lparr>wq_stopped := c\<rparr>, s, w)
          else (case run_jobs (wq_getClient q) (wq_maxRetries q) (concat (map held_job (wq_workers q)) @ wq_jobs q)
                       (wq_done q) s w of
                  (dn, s', w') \<Rightarrow>
                    Inr (q\<lparr>wq_stopped := c, wq_jobs := [], wq_done := dn,
                           wq_workers := replicate (length (wq_workers q)) Exited\<rparr>, s', w')))"

text \<open>What is left to do: five moves for a waiting job, fewer for a worker that is further on.\<close>

fun moves_left :: "worker \<Rightarrow> nat" where
  "moves_left Idle = 2"
| "moves_left (Working _) = 4"
| "moves_left Draining = 1"
| "moves_left (DrainWorking _) = 2"
| "moves_left Exited = 0"

definition wb_measure :: "'w WriteBackQueue \<Rightarrow> nat" where
  "wb_measure q = 5 * length (wq_jobs q) + sum_list (map moves_left (wq_workers q))"

lemma wb_measure_move:
  assumes "i < length (wq_workers q)"
    and "5 * length jobs + moves_left x < 5 * length (wq_jobs q) + moves_left (wq_workers q ! i)"
  shows "wb_measure (set_worker i x (q\<lparr>wq_jobs := jobs, wq_done := dn\<rparr>)) < wb_measure q"
proof -
  let ?f = "\<lambda>ws. sum_list (map moves_left ws)"
  have "?f (wq_workers q) = ?f (take i (wq_workers q)) + moves_left (wq_workers q ! i) + ?f (drop (Suc i) (wq_workers q))"
    by (subst id_take_nth_drop [OF assms(1)]) simp
  moreover have "?f ((wq_workers q)[i := x]) = ?f (take i (wq_workers q)) + moves_left x + ?f (drop (Suc i) (wq_workers q))"
    by (simp add: upd_conv_take_nth_drop [OF assms(1)])
  ultimately show ?thesis using assms(2) by (simp add: wb_measure_def set_worker_def)
qed

lemma wb_work_measure: "wb_work st st' \<Longrightarrow> wb_measure (fst st') < wb_measure (fst st)"
proof (induction rule: wb_work.induct)
  case (work_take i q job jobs s w)
  then show ?case using wb_measure_move [of i q jobs "Working job" "wq_done q"] by simp
next
  case (work_finish i q job stop s w result job' s' w')
  then show ?case using wb_measure_move [of i q "wq_jobs q" Idle "(job, result) # wq_done q"] by simp
next
  case (work_notice i q s w)
  then show ?case using wb_measure_move [of i q "wq_jobs q" Draining "wq_done q"] by simp
next
  case (work_drain i q job jobs s w)
  then show ?case using wb_measure_move [of i q jobs "DrainWorking job" "wq_done q"] by simp
next
  case (work_drained i q job s w result job' s' w')
  then show ?case using wb_measure_move [of i q "wq_jobs q" Draining "(job, result) # wq_done q"] by simp
next
  case (work_exit i q s w)
  have "q\<lparr>wq_jobs := wq_jobs q, wq_done := wq_done q\<rparr> = q" by simp
  then show ?case
    using wb_measure_move [of i q "wq_jobs q" Exited "wq_done q"] work_exit(1,2) by (simp only: fst_conv) simp
qed

lemma wb_work_stopped: "wb_work st st' \<Longrightarrow> wq_stopped (fst st) \<Longrightarrow> wq_stopped (fst st')"
  by (induction rule: wb_work.induct) (auto simp: set_worker_def)

lemma wb_work_progress:
  assumes "wq_stopped q" and "\<not> set (wq_workers q) \<subseteq> {Exited}"
  shows "\<exists>st'. wb_work (q, s, w) st'"
proof -
  from assms(2) obtain x where "x \<in> set (wq_workers q)" and "x \<noteq> Exited" by blast
  then obtain i where i: "i < length (wq_workers q)" and ne: "wq_workers q ! i \<noteq> Exited"
    unfolding in_set_conv_nth by blast
  show ?thesis
  proof (cases "wq_workers q ! i")
    case Idle
    then show ?thesis by (intro exI) (rule work_notice [OF i _ assms(1)])
  next
    case (Working job)
    obtain r job' s' w' where "process (wq_getClient q) (wq_maxRetries q) (\<lambda>_. False) job s w = (r, job', s', w')"
      by (metis prod_cases4)
    then show ?thesis by (intro exI) (rule work_finish [OF i Working, of "\<lambda>_. False"]; simp)
  next
    case Draining
    show ?thesis
    proof (cases "wq_jobs q")
      case Nil
      then show ?thesis by (intro exI) (rule work_exit [OF i Draining])
    next
      case (Cons job jobs)
      then show ?thesis by (intro exI) (rule work_drain [OF i Draining])
    qed
  next
    case (DrainWorking job)
    obtain r job' s' w' where "process (wq_getClient q) (wq_maxRetries q) (\<lambda>_. True) job s w = (r, job', s', w')"
      by (metis prod_cases4)
    then show ?thesis by (intro exI) (rule work_drained [OF i DrainWorking])
  next
    case Exited
    with ne show ?thesis by simp
  qed
qed

lemma no_infinite_work: "\<not> (\<forall>i. wb_work (f i) (f (Suc i)))"
proof
  assume h: "\<forall>i. wb_work (f i) (f (Suc i))"
  have "wb_measure (fst (f i)) + i \<le> wb_measure (fst (f 0))" for i
  proof (induction i)
    case (Suc i)
    with wb_work_measure [of "f i" "f (Suc i)"] h show ?case by fastforce
  qed simp
  from this [of "Suc (wb_measure (fst (f 0)))"] show False by simp
qed

lemma wb_work_completes:
  assumes "wq_stopped q"
  shows "\<exists>q' s' w'. wb_work\<^sup>*\<^sup>* (q, s, w) (q', s', w') \<and> set (wq_workers q') \<subseteq> {Exited}"
  using assms
proof (induction "wb_measure q" arbitrary: q s w rule: less_induct)
  case less
  show ?case
  proof (cases "set (wq_workers q) \<subseteq> {Exited}")
    case False
    then obtain q1 s1 w1 where st: "wb_work (q, s, w) (q1, s1, w1)"
      using wb_work_progress [OF less.prems] by (metis prod_cases3)
    then have "wb_measure q1 < wb_measure q" "wq_stopped q1"
      using wb_work_measure wb_work_stopped less.prems by fastforce+
    from less.hyps [OF this] st show ?thesis by (metis converse_rtranclp_into_rtranclp)
  qed blast
qed

text \<open>C21: \<open>WriteBackQueue.Stop\<close> returns. After the stop channel is closed, in every state the
  workers alone can reach, either all workers have exited or one of them can move; there is no
  endless sequence of their moves; and when all have exited, every job accepted before the stop
  has been processed.\<close>

theorem writeback_stop_returns:
  assumes "wq_stopped q" and "wb_inv q" and "wq_workers q \<noteq> []" and "\<not> wq_late q"
  shows "\<not> (\<exists>f. f 0 = (q, s, w) \<and> (\<forall>i. wb_work (f i) (f (Suc i)))) \<and>
    (\<forall>q' s' w'. wb_work\<^sup>*\<^sup>* (q, s, w) (q', s', w') \<longrightarrow>
       (if set (wq_workers q') \<subseteq> {Exited}
        then wq_jobs q' = [] \<and> mset (map fst (wq_done q')) = mset (wq_accepted q)
        else \<exists>st''. wb_work (q', s', w') st''))"
proof -
  have keep: "wq_stopped (fst st') \<and> wb_inv (fst st') \<and> length (wq_workers (fst st')) = length (wq_workers q) \<and>
      wq_late (fst st') = wq_late q \<and> wq_accepted (fst st') = wq_accepted q"
    if "wb_work\<^sup>*\<^sup>* (q, s, w) st'" for st'
    using that
  proof (induction rule: rtranclp_induct)
    case base
    then show ?case using assms by simp
  next
    case (step y z)
    have "length (wq_workers (fst z)) = length (wq_workers (fst y)) \<and> wq_late (fst z) = wq_late (fst y) \<and>
        wq_accepted (fst z) = wq_accepted (fst y)"
      using step(2) by (induction rule: wb_work.induct) (simp_all add: set_worker_def)
    then show ?case
      using step(3) wb_work_stopped [OF step(2)] wb_step_inv [OF wb_work_step [OF step(2)]] by simp
  qed
  have "if set (wq_workers q') \<subseteq> {Exited}
        then wq_jobs q' = [] \<and> mset (map fst (wq_done q')) = mset (wq_accepted q)
        else \<exists>st''. wb_work (q', s', w') st''"
    if r: "wb_work\<^sup>*\<^sup>* (q, s, w) (q', s', w')" for q' s' w'
  proof (cases "set (wq_workers q') \<subseteq> {Exited}")
    case True
    have k: "wb_inv q'" "\<not> wq_late q'" "wq_accepted q' = wq_accepted q" "wq_workers q' \<noteq> []"
      using keep [OF r] assms by auto
    then have "Exited \<in> set (wq_workers q')" using True by (cases "wq_workers q'") auto
    then have "wq_jobs q' = []" using k(1,2) by (simp add: wb_inv_def)
    with True k in_flight_exited [OF True] show ?thesis by (simp add: wb_inv_def)
  next
    case False
    then show ?thesis using wb_work_progress [OF _ False] keep [OF r] by simp
  qed
  then show ?thesis using no_infinite_work by blast
qed

theorem writeback_stop_returns_witness:
  "\<exists>q' s' w'. wb_work\<^sup>*\<^sup>* ((snd (Submit demo_job demo_queue))\<lparr>wq_stopped := True\<rparr>, staged_os, []) (q', s', w') \<and>
     wq_jobs q' = [] \<and> map fst (wq_done q') = [demo_job]"
proof -
  let ?q = "(snd (Submit demo_job demo_queue))\<lparr>wq_stopped := True\<rparr>"
  have i: "wb_inv (snd (Submit demo_job demo_queue))"
    unfolding demo_queue_def by (intro Submit_inv NewWriteBackQueue_inv)
  have h: "wq_stopped ?q" "wb_inv ?q" "wq_workers ?q \<noteq> []" "\<not> wq_late ?q" and acc: "wq_accepted ?q = [demo_job]"
    using i by (simp_all add: wb_inv_def demo_queue_def NewWriteBackQueue_def Submit_def)
  obtain q' s' w' where r: "wb_work\<^sup>*\<^sup>* (?q, staged_os, []) (q', s', w')" "set (wq_workers q') \<subseteq> {Exited}"
    using wb_work_completes [OF h(1)] by blast
  from conjunct2 [OF writeback_stop_returns [OF h, of staged_os "[]"], THEN spec, THEN spec, THEN spec, THEN mp, OF r(1)] r(2)
  have "wq_jobs q' = []" "mset (map fst (wq_done q')) = mset [demo_job]" by (simp_all only: acc if_True)
  from this(2) have "map fst (wq_done q') = [demo_job]" by (simp only: mset.simps mset_single_iff)
  with r(1) \<open>wq_jobs q' = []\<close> show ?thesis by (intro exI conjI)
qed

end
