(* ===== verification/Gateway.thy ===== *)
theory Gateway
  imports Config Lifecycle Fuse_Dir
begin

text \<open>
  \<open>internal/gateway\<close> and \<open>cmd/s3gw/main.go\<close>: the mounts, the gateway that owns the shared
  components, and the program. The mounts share the gateway's cache, catalog and queue by
  pointer; here they are in the gateway's record and \<open>bm_root\<close> builds a mount's context from
  them. What the operating system, go-fuse, SQLite, bbolt and the SDK answer is the record
  \<open>gw_env\<close>.
\<close>

section \<open>The environment\<close>

record mount_options =
  mo_Name :: string
  mo_FsName :: string
  mo_DisableXAttrs :: bool
  mo_MaxReadAhead :: int
  mo_DirectMount :: bool
  mo_AllowOther :: bool
  mo_AttrTimeout :: duration
  mo_EntryTimeout :: duration

record ('db, 'w) gw_env =
  ge_bolt_Open :: "string \<Rightarrow> go_error + 'db bolt \<times> 'db"
  ge_bolt_create :: "'db \<Rightarrow> go_error + 'db"
  ge_codec :: codec
  ge_sql_fault :: "sql_stmt \<Rightarrow> go_error option"
  ge_sql_disk :: "string \<Rightarrow> ((object_key, row) gomap \<times> (string \<times> string, int) gomap) option"
  ge_s3_New :: "s3_options \<Rightarrow> 'w aws"
  ge_Mount :: "string \<Rightarrow> mount_options \<Rightarrow> go_error option"
  ge_Unmount :: "string \<Rightarrow> go_error option"

definition ge_NewMetadataStore :: "('db, 'w) gw_env \<Rightarrow> string \<Rightarrow> go_error + 'db MetadataStore" where
  "ge_NewMetadataStore env = NewMetadataStore (ge_bolt_Open env) (ge_bolt_create env) (ge_codec env)"

text \<open>
  How a call ends: it returns, it panics, or it blocks until something outside the program
  happens; with the state at that point.
\<close>

datatype 'a outcome = Returns 'a | Panics panic 'a | Blocks 'a

fun and_then :: "'a outcome \<Rightarrow> ('a \<Rightarrow> 'b outcome) \<Rightarrow> ('a \<Rightarrow> 'b) \<Rightarrow> 'b outcome" where
  "and_then (Returns a) f g = f a"
| "and_then (Panics p a) f g = Panics p (g a)"
| "and_then (Blocks a) f g = Blocks (g a)"

section \<open>bucket.go\<close>

datatype Server = Serving mount_options | Unmounted

record 'w BucketMount =
  bm_cfg :: BucketConfig
  bm_s3 :: "'w client"
  bm_writeBack :: bool          \<comment> \<open>points to the gateway's queue\<close>
  bm_server :: "Server option"
  bm_ttl :: duration
  bm_mountPoint :: string

definition NewBucketMount :: "(s3_options \<Rightarrow> 'w aws) \<Rightarrow> BucketConfig \<Rightarrow> bool \<Rightarrow> duration \<Rightarrow> 'w BucketMount" where
  "NewBucketMount s3_New bcfg wb defaultTTL =
     (let ttl = EffectiveTTL bcfg defaultTTL;
          s3c = NewClient s3_New (bc_Name bcfg) (bc_Region bcfg) (bc_Endpoint bcfg) (bc_AccessKey bcfg) (bc_SecretKey bcfg)
      in \<lparr>bm_cfg = bcfg, bm_s3 = s3c, bm_writeBack = wb, bm_server = None, bm_ttl = ttl,
          bm_mountPoint = bc_MountPoint bcfg\<rparr>)"

definition kernelTTL :: "'w BucketMount \<Rightarrow> duration" where
  "kernelTTL bm =
     (if \<not> bc_SoleWriter (bm_cfg bm) then
        if bm_ttl bm > 10 * second then 10 * second else bm_ttl bm
      else bm_ttl bm)"

definition bm_options :: "'w BucketMount \<Rightarrow> mount_options" where
  "bm_options bm =
     \<lparr>mo_Name = ''s3gw'', mo_FsName = ''s3gw:'' @ bc_Name (bm_cfg bm), mo_DisableXAttrs = True,
      mo_MaxReadAhead = 128 * 1024, mo_DirectMount = True, mo_AllowOther = True,
      mo_AttrTimeout = kernelTTL bm, mo_EntryTimeout = kernelTTL bm\<rparr>"

definition bm_Start ::
  "('db, 'w) gw_env \<Rightarrow> os \<Rightarrow> 'w BucketMount \<Rightarrow> go_error option \<times> 'w BucketMount" where
  "bm_Start env s bm =
     (case os_MkdirAll (bm_mountPoint bm) s of
        Some err \<Rightarrow> (Some (wrapf (''create mount point '' @ bm_mountPoint bm) err), bm)
      | None \<Rightarrow>
          (case ge_Mount env (bm_mountPoint bm) (bm_options bm) of
             Some err \<Rightarrow>
               (Some (wrapf (''mount '' @ bm_mountPoint bm @ '' for bucket '' @ bc_Name (bm_cfg bm)) err), bm)
           | None \<Rightarrow> (None, bm\<lparr>bm_server := Some (Serving (bm_options bm))\<rparr>)))"

text \<open>After a successful unmount the server's loop ends and \<open>Wait\<close> returns.\<close>

definition bm_Stop :: "('db, 'w) gw_env \<Rightarrow> 'w BucketMount \<Rightarrow> 'w BucketMount" where
  "bm_Stop env bm =
     (case bm_server bm of
        None \<Rightarrow> bm
      | Some srv \<Rightarrow>
          (case ge_Unmount env (bm_mountPoint bm) of
             Some err \<Rightarrow> bm
           | None \<Rightarrow> bm\<lparr>bm_server := Some Unmounted\<rparr>))"

text \<open>Whether \<open>Wait\<close> returns.\<close>

definition bm_Wait :: "'w BucketMount \<Rightarrow> bool" where
  "bm_Wait bm \<longleftrightarrow> (case bm_server bm of Some (Serving _) \<Rightarrow> False | _ \<Rightarrow> True)"

section \<open>gateway.go\<close>

text \<open>\<open>g_wg\<close> counts the goroutines started that wait for the first mounts.\<close>

record ('db, 'w) Gateway =
  g_cfg :: Config
  g_cache :: "'db Manager option"
  g_catalog :: "'w Catalog option"
  g_catLife :: cat_life
  g_writeBack :: "'w WriteBackQueue option"
  g_mounts :: "'w BucketMount list"
  g_wg :: nat

type_synonym ('db, 'w) gw_state = "('db, 'w) Gateway \<times> os \<times> 'w"

definition gw_New :: "Config \<Rightarrow> ('db, 'w) Gateway" where
  "gw_New cfg =
     \<lparr>g_cfg = cfg, g_cache = None, g_catalog = None, g_catLife = cat_opened, g_writeBack = None,
      g_mounts = [], g_wg = 0\<rparr>"

text \<open>\<open>g.wg.Wait()\<close> returns when every waiting goroutine has.\<close>

definition wg_Wait :: "('db, 'w) Gateway \<Rightarrow> bool" where
  "wg_Wait g \<longleftrightarrow> list_all bm_Wait (take (g_wg g) (g_mounts g))"

definition gw_catalog_Stop :: "('db, 'w) gw_state \<Rightarrow> ('db, 'w) gw_state outcome" where
  "gw_catalog_Stop st =
     (case st of (g, s, w) \<Rightarrow>
        (case g_catalog g of
           None \<Rightarrow> Panics NilDereference st
         | Some _ \<Rightarrow>
             (case cat_Stop (g_catLife g) of
                Inl p \<Rightarrow> Panics p st
              | Inr l \<Rightarrow> Returns (g\<lparr>g_catLife := l\<rparr>, s, w))))"

definition gw_writeBack_Stop :: "('db, 'w) gw_state \<Rightarrow> ('db, 'w) gw_state outcome" where
  "gw_writeBack_Stop st =
     (case st of (g, s, w) \<Rightarrow>
        (case g_writeBack g of
           None \<Rightarrow> Returns st
         | Some q \<Rightarrow>
             (case wbq_Stop q s w of
                Inl p \<Rightarrow> Panics p st
              | Inr (q, s, w) \<Rightarrow> Returns (g\<lparr>g_writeBack := Some q\<rparr>, s, w))))"

definition gw_StopEvictor :: "('db, 'w) gw_state \<Rightarrow> ('db, 'w) gw_state outcome" where
  "gw_StopEvictor st =
     (case st of (g, s, w) \<Rightarrow>
        (case g_cache g of
           None \<Rightarrow> Panics NilDereference st
         | Some cm \<Rightarrow>
             (case cm_StopEvictor cm of
                Inl p \<Rightarrow> Panics p st
              | Inr cm \<Rightarrow> Returns (g\<lparr>g_cache := Some cm\<rparr>, s, w))))"

definition gw_cache_Close :: "('db, 'w) gw_state \<Rightarrow> ('db, 'w) gw_state outcome" where
  "gw_cache_Close st =
     (case st of (g, s, w) \<Rightarrow>
        (case g_cache g of
           None \<Rightarrow> Panics NilDereference st
         | Some cm \<Rightarrow>
             (case cm_Close None cm of
                Inl p \<Rightarrow> Panics p st
              | Inr (_, cm) \<Rightarrow> Returns (g\<lparr>g_cache := Some cm\<rparr>, s, w))))"

text \<open>Stopping the mounts \<open>n - 1, ..., 0\<close>.\<close>

fun stop_down :: "('db, 'w) gw_env \<Rightarrow> nat \<Rightarrow> 'w BucketMount list \<Rightarrow> 'w BucketMount list" where
  "stop_down env 0 bms = bms"
| "stop_down env (Suc j) bms = stop_down env j (bms[j := bm_Stop env (bms ! j)])"

text \<open>The first loop over the buckets: the mounts and the map of S3 clients.\<close>

fun create_mounts ::
  "(s3_options \<Rightarrow> 'w aws) \<Rightarrow> duration \<Rightarrow> BucketConfig list \<Rightarrow> (string, 'w client) gomap \<Rightarrow> 'w Catalog \<Rightarrow>
   'w BucketMount list \<times> (string, 'w client) gomap \<times> 'w Catalog" where
  "create_mounts s3_New ttl [] clients cat = ([], clients, cat)"
| "create_mounts s3_New ttl (bcfg # bs) clients cat =
     (let bm = NewBucketMount s3_New bcfg False ttl in
      case create_mounts s3_New ttl bs (AList.update (bc_Name bcfg) (bm_s3 bm) clients)
             (cat_RegisterBucket (bc_Name bcfg) (bm_s3 bm) cat) of
        (bms, clients, cat) \<Rightarrow> (bm # bms, clients, cat))"

text \<open>The loop that mounts: the number of mounts started and the error it stopped at.\<close>

fun start_mounts ::
  "('db, 'w) gw_env \<Rightarrow> os \<Rightarrow> 'w BucketMount list \<Rightarrow> (nat \<times> go_error option) \<times> 'w BucketMount list" where
  "start_mounts env s [] = ((0, None), [])"
| "start_mounts env s (bm # bms) =
     (case bm_Start env s bm of
        (Some err, bm) \<Rightarrow> ((0, Some err), bm # bms)
      | (None, bm) \<Rightarrow>
          (case start_mounts env s bms of ((i, err), bms) \<Rightarrow> ((Suc i, err), bm # bms)))"

text \<open>The way back when mount \<open>i\<close> cannot be started.\<close>

definition gw_rollback ::
  "('db, 'w) gw_env \<Rightarrow> nat \<Rightarrow> ('db, 'w) gw_state \<Rightarrow> ('db, 'w) gw_state outcome" where
  "gw_rollback env i st =
     (case st of (g, s, w) \<Rightarrow>
        (let g = g\<lparr>g_mounts := stop_down env i (g_mounts g)\<rparr>
         in if \<not> wg_Wait g then Blocks (g, s, w)
            else and_then (and_then (gw_writeBack_Stop (g, s, w)) gw_catalog_Stop id) gw_cache_Close id))"

definition gw_open ::
  "('db, 'w) gw_env \<Rightarrow> ('db, 'w) gw_state \<Rightarrow> (go_error option \<times> ('db, 'w) gw_state) outcome" where
  "gw_open env st =
     (case st of (g, s, w) \<Rightarrow>
        (case NewManager (ge_NewMetadataStore env) (CacheDir (g_cfg g)) (MaxCacheSize (g_cfg g)) s of
           Inl err \<Rightarrow> Returns (Some (wrapf ''init cache'' err), st)
         | Inr cm \<Rightarrow>
             (let g = g\<lparr>g_cache := Some cm\<rparr>;
                  catCfg = \<lparr>cc_DBPath = DefaultDBPath (CacheDir (g_cfg g)),
                            cc_SyncInterval = SyncInterval (cfg_Catalog (g_cfg g)),
                            cc_NegCacheTTL = NegCacheTTL (cfg_Catalog (g_cfg g)),
                            cc_DirCacheTTL = DirCacheTTL (cfg_Catalog (g_cfg g)),
                            cc_SyncConcurrency = SyncConcurrency (cfg_Catalog (g_cfg g))\<rparr>
              in case cat_New (ge_sql_fault env) (ge_sql_disk env) catCfg of
                   Inl err \<Rightarrow>
                     and_then (gw_cache_Close (g, s, w)) (\<lambda>st. Returns (Some (wrapf ''init catalog'' err), st))
                       (\<lambda>st. (None, st))
                 | Inr cat \<Rightarrow> Returns (None, g\<lparr>g_catalog := Some cat, g_catLife := cat_opened\<rparr>, s, w))))"

text \<open>The mounts and, if enabled, the queue whose clients are those of the mounts.\<close>

definition gw_create :: "('db, 'w) gw_env \<Rightarrow> ('db, 'w) Gateway \<Rightarrow> ('db, 'w) Gateway" where
  "gw_create env g =
     (case g_catalog g of
        None \<Rightarrow> g
      | Some cat \<Rightarrow>
          (case create_mounts (ge_s3_New env) (DefaultTTL (g_cfg g)) (Buckets (g_cfg g)) [] cat of
             (bms, clients, cat) \<Rightarrow>
               (let g = g\<lparr>g_catalog := Some cat, g_mounts := g_mounts g @ bms\<rparr>;
                    wb = cfg_WriteBack (g_cfg g)
                in if wb_Enabled wb
                   then g\<lparr>g_writeBack := Some (NewWriteBackQueue (nat (wb_Workers wb)) (nat (wb_QueueSize wb))
                                                (wb_MaxRetries wb) (map_of clients)),
                          g_mounts := map (\<lambda>bm. bm\<lparr>bm_writeBack := True\<rparr>) (g_mounts g)\<rparr>
                   else g)))"

definition gw_Start ::
  "('db, 'w) gw_env \<Rightarrow> ('db, 'w) gw_state \<Rightarrow> (go_error option \<times> ('db, 'w) gw_state) outcome" where
  "gw_Start env st =
     and_then (gw_open env st)
       (\<lambda>(err, g, s, w).
          if err \<noteq> None then Returns (err, g, s, w)
          else (let g = gw_create env g in
             case start_mounts env s (g_mounts g) of ((i, err), bms) \<Rightarrow>
               (let g = g\<lparr>g_mounts := bms, g_wg := i\<rparr> in
                case err of
                  Some e \<Rightarrow>
                    and_then (gw_rollback env i (g, s, w))
                      (\<lambda>st. Returns (Some (wrapf (''start bucket '' @ bc_Name (Buckets (g_cfg g) ! i)) e), st))
                      (\<lambda>st. (None, st))
                | None \<Rightarrow> Returns (None, g\<lparr>g_catLife := cat_Start (g_catLife g)\<rparr>, s, w))))
       id"

text \<open>The first half of \<open>Stop\<close> runs while the mounts still serve requests.\<close>

definition gw_Stop_services :: "('db, 'w) gw_state \<Rightarrow> ('db, 'w) gw_state outcome" where
  "gw_Stop_services st = and_then (and_then (gw_catalog_Stop st) gw_writeBack_Stop id) gw_StopEvictor id"

definition gw_Stop_mounts :: "('db, 'w) gw_env \<Rightarrow> ('db, 'w) gw_state \<Rightarrow> ('db, 'w) gw_state outcome" where
  "gw_Stop_mounts env st =
     (case st of (g, s, w) \<Rightarrow>
        gw_cache_Close (g\<lparr>g_mounts := stop_down env (length (g_mounts g)) (g_mounts g)\<rparr>, s, w))"

definition gw_Stop :: "('db, 'w) gw_env \<Rightarrow> ('db, 'w) gw_state \<Rightarrow> ('db, 'w) gw_state outcome" where
  "gw_Stop env st = and_then (gw_Stop_services st) (gw_Stop_mounts env) id"

text \<open>The context of a mount's nodes.\<close>

definition bm_root ::
  "('db, 'w) gw_state \<Rightarrow> 'w BucketMount \<Rightarrow> (('db, 'w) bucketCtx \<times> string) option" where
  "bm_root st bm =
     (case st of (g, s, w) \<Rightarrow>
        (case (g_cache g, g_catalog g) of
           (Some cm, Some cat) \<Rightarrow>
             Some (NewRoot (bm_s3 bm) cm cat (if bm_writeBack bm then g_writeBack g else None)
                     (bc_Name (bm_cfg bm)) (bm_ttl bm) (bc_SoleWriter (bm_cfg bm)) s w)
         | _ \<Rightarrow> None))"

section \<open>main.go\<close>

datatype process_end = ExitStatus nat | Crash panic | Hangs

text \<open>\<open>serve\<close> is what the mounts do to the shared state until the signal arrives.\<close>

definition main ::
  "('db, 'w) gw_env \<Rightarrow> (bytes \<Rightarrow> Config \<Rightarrow> go_error + Config) \<Rightarrow> (string \<Rightarrow> go_error + bytes) \<Rightarrow> string \<Rightarrow>
   (('db, 'w) gw_state \<Rightarrow> ('db, 'w) gw_state) \<Rightarrow> os \<Rightarrow> 'w \<Rightarrow> process_end" where
  "main env yaml_Unmarshal ReadFile configPath serve s w =
     (case Load yaml_Unmarshal ReadFile configPath of
        Inl err \<Rightarrow> ExitStatus 1
      | Inr cfg \<Rightarrow>
          if Validate cfg \<noteq> None then ExitStatus 1
          else (case gw_Start env (gw_New cfg, s, w) of
             Panics p _ \<Rightarrow> Crash p
           | Blocks _ \<Rightarrow> Hangs
           | Returns (Some err, st) \<Rightarrow> ExitStatus 1
           | Returns (None, st) \<Rightarrow>
               (case gw_Stop env (serve st) of
                  Returns _ \<Rightarrow> ExitStatus 0
                | Panics p _ \<Rightarrow> Crash p
                | Blocks _ \<Rightarrow> Hangs)))"

end
