(* ===== verification/Gateway_Life.thy ===== *)
theory Gateway_Life
  imports Gateway Handle_Write
begin

text \<open>
  What a start of the gateway leaves running, what a failed start leaves, and how the program ends.
\<close>

section \<open>The loops\<close>

definition started :: "'w BucketMount \<Rightarrow> 'w BucketMount" where
  "started bm = bm\<lparr>bm_server := Some (Serving (bm_options bm))\<rparr>"

lemma bm_Start_None: "bm_Start env s bm = (None, bm') \<Longrightarrow> bm' = started bm"
  by (auto simp: bm_Start_def started_def split: option.splits)

lemma bm_Start_Some: "bm_Start env s bm = (Some e, bm') \<Longrightarrow> bm' = bm"
  by (auto simp: bm_Start_def split: option.splits)

lemma start_mounts_ok: "start_mounts env s bms = ((i, None), bms') \<Longrightarrow> i = length bms \<and> bms' = map started bms"
proof (induction bms arbitrary: i bms')
  case (Cons bm bms)
  then show ?case by (auto split: prod.splits option.splits dest: bm_Start_None)
qed simp

lemma start_mounts_err:
  "start_mounts env s bms = ((i, Some e), bms') \<Longrightarrow>
     i < length bms \<and> bms' = map started (take i bms) @ drop i bms \<and> fst (bm_Start env s (bms ! i)) = Some e"
proof (induction bms arbitrary: i bms')
  case (Cons bm bms)
  obtain r bm1 where b: "bm_Start env s bm = (r, bm1)" by (metis surj_pair)
  show ?case
  proof (cases r)
    case (Some err)
    with b Cons.prems bm_Start_Some [of env s bm err bm1] have "i = 0" "err = e" "bms' = bm # bms" by simp_all
    with b Some show ?thesis by simp
  next
    case None
    obtain j err bms1 where m: "start_mounts env s bms = ((j, err), bms1)" by (metis surj_pair)
    with b Cons.prems None have "i = Suc j" "err = Some e" "bms' = bm1 # bms1" by auto
    with Cons.IH [of j bms1] m b bm_Start_None [of env s bm bm1] None show ?thesis by simp
  qed
qed simp

lemma stop_down_map: "n \<le> length bms \<Longrightarrow> stop_down env n bms = map (bm_Stop env) (take n bms) @ drop n bms"
proof (induction n arbitrary: bms)
  case (Suc n)
  then have "n < length bms" by simp
  then have "take n (bms[n := bm_Stop env (bms ! n)]) = take n bms"
    "drop n (bms[n := bm_Stop env (bms ! n)]) = bm_Stop env (bms ! n) # drop (Suc n) bms"
    "take (Suc n) bms = take n bms @ [bms ! n]"
    by (simp_all add: drop_update_swap take_Suc_conv_app_nth Cons_nth_drop_Suc [symmetric])
  with Suc show ?case by simp
qed simp

lemma create_mounts_map:
  "create_mounts s3_New ttl bs clients cat = (bms, clients', cat') \<Longrightarrow>
     bms = map (\<lambda>b. NewBucketMount s3_New b False ttl) bs \<and>
     (\<forall>n. n \<notin> bc_Name ` set bs \<longrightarrow> map_of clients' n = map_of clients n) \<and>
     (distinct (map bc_Name bs) \<longrightarrow> (\<forall>b \<in> set bs. map_of clients' (bc_Name b) = Some (bm_s3 (NewBucketMount s3_New b False ttl))))"
proof (induction bs arbitrary: bms clients cat)
  case (Cons b bs)
  let ?c = "bm_s3 (NewBucketMount s3_New b False ttl)"
  obtain r where r: "create_mounts s3_New ttl bs (AList.update (bc_Name b) ?c clients)
      (cat_RegisterBucket (bc_Name b) ?c cat) = (r, clients', cat')" "bms = NewBucketMount s3_New b False ttl # r"
    using Cons.prems by (auto simp: Let_def split: prod.splits)
  from Cons.IH [OF r(1)] r(2) show ?case by (auto simp: update_conv')
qed auto

section \<open>The running gateway\<close>

text \<open>Nothing has been stopped: every stop channel is open, the goroutines run.\<close>

definition running :: "('db, 'w) Gateway \<Rightarrow> bool" where
  "running g \<longleftrightarrow>
     (\<exists>cm. g_cache g = Some cm \<and> \<not> ev_stopCh (cm_evictor cm) \<and> ev_running (cm_evictor cm)) \<and>
     g_catalog g \<noteq> None \<and>
     \<not> cl_sync (g_catLife g) \<and> \<not> cl_neg (g_catLife g) \<and> \<not> cl_dir (g_catLife g) \<and> cl_open (g_catLife g) \<and>
     (\<forall>q. g_writeBack g = Some q \<longrightarrow> \<not> wq_stopped q)"

lemma NewManager_evictor:
  "NewManager om dir n s = Inr cm \<Longrightarrow> \<not> ev_stopCh (cm_evictor cm) \<and> ev_running (cm_evictor cm)"
  by (auto simp: NewManager_def ev_Start_def NewEvictor_def split: option.splits sum.splits)

lemma gw_open_ok:
  assumes "gw_open env (gw_New cfg, s, w) = Returns (None, g, s', w')"
  shows "running g \<and> g_cfg g = cfg \<and> g_mounts g = [] \<and> g_writeBack g = None \<and> g_catLife g = cat_opened \<and> s' = s \<and> w' = w"
    "map_option Inr (g_cache g) = Some (NewManager (ge_NewMetadataStore env) (CacheDir cfg) (MaxCacheSize cfg) s)"
proof -
  obtain cm where cm: "NewManager (ge_NewMetadataStore env) (CacheDir cfg) (MaxCacheSize cfg) s = Inr cm"
    using assms by (auto simp: gw_open_def gw_New_def split: sum.splits)
  note ev = NewManager_evictor [OF cm]
  then have "\<exists>g1. gw_cache_Close (gw_New cfg\<lparr>g_cache := Some cm\<rparr>, s, w) = Returns g1"
    by (auto simp: gw_cache_Close_def cm_Close_def ev_Stop_def close_chan_def)
  with assms cm ev show "running g \<and> g_cfg g = cfg \<and> g_mounts g = [] \<and> g_writeBack g = None \<and> g_catLife g = cat_opened \<and> s' = s \<and> w' = w"
    "map_option Inr (g_cache g) = Some (NewManager (ge_NewMetadataStore env) (CacheDir cfg) (MaxCacheSize cfg) s)"
    by (auto simp: gw_open_def gw_New_def running_def cat_opened_def Let_def split: sum.splits)
qed

lemma gw_create_ok:
  assumes "running g" and "g_mounts g = []" and "g_writeBack g = None" and "wb = cfg_WriteBack (g_cfg g)"
  shows "\<exists>gc. running (gw_create env g) \<and> g_cfg (gw_create env g) = g_cfg g \<and> g_catLife (gw_create env g) = g_catLife g \<and>
    g_mounts (gw_create env g) =
      map (\<lambda>b. NewBucketMount (ge_s3_New env) b (wb_Enabled wb) (DefaultTTL (g_cfg g))) (Buckets (g_cfg g)) \<and>
    g_writeBack (gw_create env g) =
      (if wb_Enabled wb
       then Some (NewWriteBackQueue (nat (wb_Workers wb)) (nat (wb_QueueSize wb)) (wb_MaxRetries wb) gc) else None) \<and>
    (distinct (map bc_Name (Buckets (g_cfg g))) \<longrightarrow> (\<forall>b \<in> set (Buckets (g_cfg g)).
       gc (bc_Name b) = Some (bm_s3 (NewBucketMount (ge_s3_New env) b (wb_Enabled wb) (DefaultTTL (g_cfg g))))))"
proof -
  obtain cat where cat: "g_catalog g = Some cat" using assms(1) by (auto simp: running_def)
  obtain bms clients cat' where c: "create_mounts (ge_s3_New env) (DefaultTTL (g_cfg g)) (Buckets (g_cfg g)) [] cat = (bms, clients, cat')"
    by (metis prod_cases3)
  note cm = create_mounts_map [OF c]
  have wb: "(NewBucketMount s b False t)\<lparr>bm_writeBack := True\<rparr> = NewBucketMount s b True t"
    "bm_s3 (NewBucketMount s b False t) = bm_s3 (NewBucketMount s b e t)" for s :: "s3_options \<Rightarrow> 'b aws" and b t e
    by (simp_all add: NewBucketMount_def Let_def)
  show ?thesis
  proof (intro exI [of _ "map_of clients"] conjI)
    show "distinct (map bc_Name (Buckets (g_cfg g))) \<longrightarrow> (\<forall>b \<in> set (Buckets (g_cfg g)).
       map_of clients (bc_Name b) = Some (bm_s3 (NewBucketMount (ge_s3_New env) b (wb_Enabled wb) (DefaultTTL (g_cfg g)))))"
      using cm wb(2) [of "ge_s3_New env" _ "DefaultTTL (g_cfg g)" "wb_Enabled wb"] by simp
  qed (use assms cat c cm wb(1) in \<open>simp_all add: gw_create_def running_def Let_def NewWriteBackQueue_def comp_def\<close>)
qed

lemma gw_Start_ok:
  assumes "gw_Start env (gw_New cfg, s, w) = Returns (None, g, s', w')"
  shows "\<exists>g0. gw_open env (gw_New cfg, s, w) = Returns (None, g0, s, w) \<and> s' = s \<and> w' = w \<and>
    g = (gw_create env g0)\<lparr>g_mounts := map started (g_mounts (gw_create env g0)),
      g_wg := length (g_mounts (gw_create env g0)), g_catLife := cat_Start (g_catLife (gw_create env g0))\<rparr>"
proof -
  obtain err g0 s1 w1 where o: "gw_open env (gw_New cfg, s, w) = Returns (err, g0, s1, w1)"
    using assms by (cases "gw_open env (gw_New cfg, s, w)") (auto simp: gw_Start_def)
  have err: "err = None"
    using assms o by (cases err) (auto simp: gw_Start_def)
  note ok = gw_open_ok(1) [OF o [unfolded err]]
  let ?g = "gw_create env g0"
  obtain i e bms where st: "start_mounts env s1 (g_mounts ?g) = ((i, e), bms)" by (metis surj_pair)
  show ?thesis
  proof (cases e)
    case None
    then have "i = length (g_mounts ?g)" "bms = map started (g_mounts ?g)" using start_mounts_ok st by blast+
    with assms o err st None ok show ?thesis by (auto simp: gw_Start_def Let_def)
  next
    case (Some e')
    with assms o err st show ?thesis
      by (cases "gw_rollback env i (?g\<lparr>g_mounts := bms, g_wg := i\<rparr>, s1, w1)") (auto simp: gw_Start_def Let_def)
  qed
qed

text \<open>The gateway after a successful start.\<close>

lemma gw_started:
  assumes "gw_Start env (gw_New cfg, s, w) = Returns (None, g, s', w')" and "distinct (map bc_Name (Buckets cfg))"
  defines "wb \<equiv> cfg_WriteBack cfg"
  defines "bm \<equiv> \<lambda>b. NewBucketMount (ge_s3_New env) b (wb_Enabled wb) (DefaultTTL cfg)"
  obtains gc where "s' = s" "w' = w" "running g" "cl_loop (g_catLife g)" "g_mounts g = map (\<lambda>b. started (bm b)) (Buckets cfg)"
    "g_wg g = length (Buckets cfg)"
    "g_writeBack g = (if wb_Enabled wb
       then Some (NewWriteBackQueue (nat (wb_Workers wb)) (nat (wb_QueueSize wb)) (wb_MaxRetries wb) gc) else None)"
    "\<forall>b \<in> set (Buckets cfg). gc (bc_Name b) = Some (bm_s3 (bm b))"
    "map_option Inr (g_cache g) = Some (NewManager (ge_NewMetadataStore env) (CacheDir cfg) (MaxCacheSize cfg) s)"
proof -
  obtain g0 where o: "gw_open env (gw_New cfg, s, w) = Returns (None, g0, s, w)" "s' = s" "w' = w"
    and g: "g = (gw_create env g0)\<lparr>g_mounts := map started (g_mounts (gw_create env g0)),
      g_wg := length (g_mounts (gw_create env g0)), g_catLife := cat_Start (g_catLife (gw_create env g0))\<rparr>"
    using gw_Start_ok [OF assms(1)] by blast
  note ok = gw_open_ok [OF o(1)]
  obtain gc where c: "running (gw_create env g0)" "g_catLife (gw_create env g0) = cat_opened"
    "g_mounts (gw_create env g0) = map bm (Buckets cfg)"
    "g_writeBack (gw_create env g0) = (if wb_Enabled wb
       then Some (NewWriteBackQueue (nat (wb_Workers wb)) (nat (wb_QueueSize wb)) (wb_MaxRetries wb) gc) else None)"
    "\<forall>b \<in> set (Buckets cfg). gc (bc_Name b) = Some (bm_s3 (bm b))"
    using gw_create_ok [of g0 wb env] ok(1) assms(2) by (auto simp: bm_def wb_def)
  have cm: "g_cache (gw_create env g0) = g_cache g0"
    by (simp add: gw_create_def Let_def split: option.split prod.split)
  show thesis
  proof (rule that [OF o(2,3)])
    show "running g" "cl_loop (g_catLife g)"
      using c(1,2) by (simp_all add: g running_def cat_Start_def sm_Start_def cat_opened_def)
  qed (use c ok(2) cm in \<open>simp_all add: g\<close>)
qed

text \<open>C24: what runs after a successful start. Every configured bucket is mounted, in order, with its
  own client and its effective TTL; the kernel's caching time is the same for names and attributes,
  never above the TTL, the whole TTL for a sole writer and at most ten seconds otherwise; the
  write-back queue exists exactly when it is enabled, with the configured workers and capacity, and
  finds each mounted bucket's client; nothing is stopped.\<close>

theorem gateway_start_mounts:
  assumes "gw_Start env (gw_New cfg, s, w) = Returns (None, g, s', w')" and "distinct (map bc_Name (Buckets cfg))"
    and "i < length (Buckets cfg)" and "b = Buckets cfg ! i" and "ttl = EffectiveTTL b (DefaultTTL cfg)"
  shows "running g \<and> cl_loop (g_catLife g) \<and> length (g_mounts g) = length (Buckets cfg) \<and> g_wg g = length (Buckets cfg) \<and>
    (\<exists>opts. bm_server (g_mounts g ! i) = Some (Serving opts) \<and> mo_AttrTimeout opts = mo_EntryTimeout opts \<and>
       (if bc_SoleWriter b then mo_AttrTimeout opts = ttl
        else mo_AttrTimeout opts \<le> 10 * second \<and> mo_AttrTimeout opts \<le> ttl)) \<and>
    bm_cfg (g_mounts g ! i) = b \<and> bm_ttl (g_mounts g ! i) = ttl \<and> c_bucket (bm_s3 (g_mounts g ! i)) = bc_Name b \<and>
    (if wb_Enabled (cfg_WriteBack cfg)
     then (\<exists>q. g_writeBack g = Some q \<and> length (wq_workers q) = nat (wb_Workers (cfg_WriteBack cfg)) \<and>
        wq_cap q = nat (wb_QueueSize (cfg_WriteBack cfg)) \<and> wq_getClient q (bc_Name b) = Some (bm_s3 (g_mounts g ! i)))
     else g_writeBack g = None)"
proof -
  let ?m = "\<lambda>b. NewBucketMount (ge_s3_New env) b (wb_Enabled (cfg_WriteBack cfg)) (DefaultTTL cfg)"
  obtain gc where c: "running g" "cl_loop (g_catLife g)" "g_mounts g = map (\<lambda>b. started (?m b)) (Buckets cfg)"
    "g_wg g = length (Buckets cfg)"
    "g_writeBack g = (if wb_Enabled (cfg_WriteBack cfg)
       then Some (NewWriteBackQueue (nat (wb_Workers (cfg_WriteBack cfg))) (nat (wb_QueueSize (cfg_WriteBack cfg)))
         (wb_MaxRetries (cfg_WriteBack cfg)) gc) else None)"
    "\<forall>b \<in> set (Buckets cfg). gc (bc_Name b) = Some (bm_s3 (?m b))"
    by (rule gw_started [OF assms(1,2)])
  have m: "g_mounts g ! i = started (?m b)" using assms(3,4) by (simp add: c(3))
  have gc: "gc (bc_Name b) = Some (bm_s3 (g_mounts g ! i))" using c(6) assms(3,4) by (simp add: m started_def)
  have bm: "bm_cfg (?m b) = b" "bm_ttl (?m b) = ttl" "c_bucket (bm_s3 (?m b)) = bc_Name b"
    using assms(5) by (simp_all add: NewBucketMount_def Let_def NewClient_def)
  have srv: "\<exists>opts. bm_server (g_mounts g ! i) = Some (Serving opts) \<and> mo_AttrTimeout opts = mo_EntryTimeout opts \<and>
      (if bc_SoleWriter b then mo_AttrTimeout opts = ttl else mo_AttrTimeout opts \<le> 10 * second \<and> mo_AttrTimeout opts \<le> ttl)"
    by (intro exI [of _ "bm_options (?m b)"]) (simp add: m started_def bm_options_def kernelTTL_def bm)
  have "bm_cfg (g_mounts g ! i) = b" "bm_ttl (g_mounts g ! i) = ttl" "c_bucket (bm_s3 (g_mounts g ! i)) = bc_Name b"
    by (simp_all add: m started_def bm)
  with c(1-5) srv gc show ?thesis by (simp add: NewWriteBackQueue_def)
qed

section \<open>Stopping\<close>

lemma cat_Stop_running:
  "\<not> cl_sync l \<Longrightarrow> \<not> cl_neg l \<Longrightarrow> \<not> cl_dir l \<Longrightarrow>
     \<exists>l'. cat_Stop l = Inr l' \<and> \<not> cl_open l' \<and> \<not> cl_loop l' \<and> cl_sync l' \<and> cl_neg l' \<and> cl_dir l'"
  by (simp add: cat_Stop_def sm_Stop_def nc_Stop_def dc_Stop_def close_chan_def)

lemma wbq_Stop_running:
  assumes "\<not> wq_stopped q"
  obtains q' s' w' where "wbq_Stop q s w = Inr (q', s', w')" "set (wq_workers q') \<subseteq> {Exited}" "wq_cap q' = wq_cap q"
    "wq_workers q \<noteq> [] \<longrightarrow> wq_jobs q' = [] \<and> wq_workers q' \<noteq> []" "wq_getClient q' = wq_getClient q"
proof -
  obtain dn s1 w1 where r: "run_jobs (wq_getClient q) (wq_maxRetries q) (concat (map held_job (wq_workers q)) @ wq_jobs q)
      (wq_done q) s w = (dn, s1, w1)"
    by (metis prod_cases3)
  show thesis
  proof (cases "wq_workers q = []")
    case True
    with assms show thesis by (intro that [of "q\<lparr>wq_stopped := True\<rparr>" s w]) (simp_all add: wbq_Stop_def close_chan_def)
  next
    case False
    with assms r show thesis
      by (intro that [of "q\<lparr>wq_stopped := True, wq_jobs := [], wq_done := dn,
            wq_workers := replicate (length (wq_workers q)) Exited\<rparr>" s1 w1])
        (auto simp: wbq_Stop_def close_chan_def)
  qed
qed

text \<open>The first half of \<open>Stop\<close>: background work is gone, the mounts are as they were.\<close>

lemma gw_Stop_services_running:
  assumes "running g"
  obtains g' s' w' cm where "gw_Stop_services (g, s, w) = Returns (g', s', w')" "g_mounts g' = g_mounts g" "\<not> cl_open (g_catLife g')"
    "g_cache g' = Some cm" "ev_stopCh (cm_evictor cm)" "\<not> ev_running (cm_evictor cm)"
    "\<And>q. g_writeBack g = Some q \<Longrightarrow> \<exists>q'. g_writeBack g' = Some q' \<and> set (wq_workers q') \<subseteq> {Exited} \<and> wq_cap q' = wq_cap q \<and>
       (wq_workers q \<noteq> [] \<longrightarrow> wq_jobs q' = [])"
proof -
  obtain cm where cm: "g_cache g = Some cm" "\<not> ev_stopCh (cm_evictor cm)" using assms by (auto simp: running_def)
  obtain cat where cat: "g_catalog g = Some cat" using assms by (auto simp: running_def)
  obtain l where l: "cat_Stop (g_catLife g) = Inr l" "\<not> cl_open l"
    using assms cat_Stop_running [of "g_catLife g"] by (auto simp: running_def)
  let ?cm = "cm\<lparr>cm_evictor := (cm_evictor cm)\<lparr>ev_stopCh := True, ev_running := False\<rparr>\<rparr>"
  have ev: "cm_StopEvictor cm = Inr ?cm" using cm(2) by (simp add: cm_StopEvictor_def ev_Stop_def close_chan_def)
  show thesis
  proof (cases "g_writeBack g")
    case None
    then have "gw_Stop_services (g, s, w) = Returns (g\<lparr>g_catLife := l, g_cache := Some ?cm\<rparr>, s, w)"
      using cm cat l ev by (simp add: gw_Stop_services_def gw_catalog_Stop_def gw_writeBack_Stop_def gw_StopEvictor_def)
    then show thesis using None l(2) cm by (intro that [of "g\<lparr>g_catLife := l, g_cache := Some ?cm\<rparr>" s w ?cm]) simp_all
  next
    case (Some q)
    then have "\<not> wq_stopped q" using assms by (simp add: running_def)
    then obtain q' s' w' where q': "wbq_Stop q s w = Inr (q', s', w')" "set (wq_workers q') \<subseteq> {Exited}" "wq_cap q' = wq_cap q"
      "wq_workers q \<noteq> [] \<longrightarrow> wq_jobs q' = [] \<and> wq_workers q' \<noteq> []" "wq_getClient q' = wq_getClient q"
      by (rule wbq_Stop_running [of q s w])
    then have "gw_Stop_services (g, s, w) =
        Returns (g\<lparr>g_catLife := l, g_writeBack := Some q', g_cache := Some ?cm\<rparr>, s', w')"
      using cm cat l ev Some by (simp add: gw_Stop_services_def gw_catalog_Stop_def gw_writeBack_Stop_def gw_StopEvictor_def)
    then show thesis
      using Some l(2) q'(2-4)
      by (intro that [of "g\<lparr>g_catLife := l, g_writeBack := Some q', g_cache := Some ?cm\<rparr>" s' w' ?cm]) auto
  qed
qed

lemma gw_Stop_running:
  assumes "running g"
  shows "\<exists>g' s' w'. gw_Stop env (g, s, w) = Panics CloseOfClosedChannel (g', s', w') \<and>
    g_mounts g' = map (bm_Stop env) (g_mounts g) \<and> \<not> cl_open (g_catLife g')"
proof -
  obtain g1 s1 w1 cm where g1: "gw_Stop_services (g, s, w) = Returns (g1, s1, w1)" "g_mounts g1 = g_mounts g"
    "\<not> cl_open (g_catLife g1)" "g_cache g1 = Some cm" "ev_stopCh (cm_evictor cm)"
    by (rule gw_Stop_services_running [OF assms])
  then show ?thesis
    by (simp add: gw_Stop_def gw_Stop_mounts_def gw_cache_Close_def cm_Close_def ev_Stop_def close_chan_def stop_down_map)
qed

text \<open>C22: the program never exits cleanly. Whatever the configuration file, the environment and what
  the mounts did to the shared state (as long as they stop nothing themselves, which no file
  operation does): when \<open>main\<close> gets as far as the signal, \<open>Stop\<close> closes the evictor's channel a second
  time and panics. So the exit status 0 and the message after \<open>Stop\<close> are never reached.\<close>

theorem main_never_exits_cleanly:
  assumes "\<And>g s w. running g \<Longrightarrow> running (fst (serve (g, s, w)))"
  shows "main env yaml_Unmarshal ReadFile path serve s w \<noteq> ExitStatus 0 \<and>
    (\<forall>cfg st. Load yaml_Unmarshal ReadFile path = Inr cfg \<longrightarrow> Validate cfg = None \<longrightarrow>
       gw_Start env (gw_New cfg, s, w) = Returns (None, st) \<longrightarrow>
       main env yaml_Unmarshal ReadFile path serve s w = Crash CloseOfClosedChannel)"
proof -
  have run: "running (fst st)" if h: "gw_Start env (gw_New cfg, s, w) = Returns (None, st)" for cfg st
  proof -
    obtain g s' w' where st: "st = (g, s', w')" by (metis prod_cases3)
    obtain g0 where o: "gw_open env (gw_New cfg, s, w) = Returns (None, g0, s, w)"
      and g: "g = (gw_create env g0)\<lparr>g_mounts := map started (g_mounts (gw_create env g0)),
        g_wg := length (g_mounts (gw_create env g0)), g_catLife := cat_Start (g_catLife (gw_create env g0))\<rparr>"
      using gw_Start_ok [OF h [unfolded st]] by blast
    note ok = gw_open_ok(1) [OF o]
    then have "running (gw_create env g0)" using gw_create_ok [of g0 "cfg_WriteBack (g_cfg g0)" env] by auto
    then show ?thesis by (simp add: st g running_def cat_Start_def sm_Start_def)
  qed
  have crash: "main env yaml_Unmarshal ReadFile path serve s w = Crash CloseOfClosedChannel"
    if h: "Load yaml_Unmarshal ReadFile path = Inr cfg" "Validate cfg = None" "gw_Start env (gw_New cfg, s, w) = Returns (None, st)" for cfg st
  proof -
    obtain g s' w' where st: "st = (g, s', w')" by (metis prod_cases3)
    obtain g2 s2 w2 where sv: "serve st = (g2, s2, w2)" by (metis prod_cases3)
    have "running g2" using assms [of g s' w'] run [OF h(3)] st sv by simp
    from gw_Stop_running [OF this, of env s2 w2] h st sv show ?thesis by (auto simp: main_def)
  qed
  have "main env yaml_Unmarshal ReadFile path serve s w \<noteq> ExitStatus 0"
  proof (cases "Load yaml_Unmarshal ReadFile path")
    case (Inr cfg)
    show ?thesis
    proof (cases "gw_Start env (gw_New cfg, s, w)")
      case (Returns x)
      obtain err st where x: "x = (err, st)" by (metis surj_pair)
      show ?thesis
      proof (cases err)
        case None
        with crash [OF Inr _ Returns [unfolded x None]] show ?thesis
          by (cases "Validate cfg = None") (auto simp: main_def Inr)
      qed (simp add: main_def Inr Returns x)
    qed (simp_all add: main_def Inr)
  qed (simp add: main_def)
  with crash show ?thesis by blast
qed

section \<open>Rolling back\<close>

lemma bm_Wait_started:
  "bm_Wait (bm_Stop env (started bm)) \<longleftrightarrow> ge_Unmount env (bm_mountPoint bm) = None"
  by (auto simp: bm_Wait_def bm_Stop_def started_def split: option.splits)

text \<open>What the rollback closes once the mounts are down; here the evictor is stopped only once.\<close>

lemma gw_close_running:
  assumes "running g"
  obtains g' s' w' where
    "and_then (and_then (gw_writeBack_Stop (g, s, w)) gw_catalog_Stop id) gw_cache_Close id = Returns (g', s', w')"
    "g_mounts g' = g_mounts g" "\<not> cl_open (g_catLife g')"
    "\<forall>q. g_writeBack g' = Some q \<longrightarrow> set (wq_workers q) \<subseteq> {Exited}"
    "\<forall>cm. g_cache g' = Some cm \<longrightarrow> \<not> ev_running (cm_evictor cm)"
proof -
  obtain cm where cm: "g_cache g = Some cm" "\<not> ev_stopCh (cm_evictor cm)" using assms by (auto simp: running_def)
  obtain cat where cat: "g_catalog g = Some cat" using assms by (auto simp: running_def)
  obtain l where l: "cat_Stop (g_catLife g) = Inr l" "\<not> cl_open l"
    using assms cat_Stop_running [of "g_catLife g"] by (auto simp: running_def)
  let ?cm = "cm\<lparr>cm_evictor := (cm_evictor cm)\<lparr>ev_stopCh := True, ev_running := False\<rparr>\<rparr>"
  obtain e where close: "cm_Close None cm = Inr (e, ?cm)"
    using cm(2) by (auto simp: cm_Close_def ev_Stop_def close_chan_def)
  show thesis
  proof (cases "g_writeBack g")
    case None
    then show thesis
      using cm cat l close
      by (intro that [of "g\<lparr>g_catLife := l, g_cache := Some ?cm\<rparr>" s w])
        (simp_all add: gw_catalog_Stop_def gw_writeBack_Stop_def gw_cache_Close_def)
  next
    case (Some q)
    then have "\<not> wq_stopped q" using assms by (simp add: running_def)
    then obtain q' s' w' where "wbq_Stop q s w = Inr (q', s', w')" "set (wq_workers q') \<subseteq> {Exited}" "wq_cap q' = wq_cap q"
      "wq_workers q \<noteq> [] \<longrightarrow> wq_jobs q' = [] \<and> wq_workers q' \<noteq> []" "wq_getClient q' = wq_getClient q"
      by (rule wbq_Stop_running [of q s w])
    then show thesis
      using Some cm cat l close
      by (intro that [of "g\<lparr>g_writeBack := Some q', g_catLife := l, g_cache := Some ?cm\<rparr>" s' w'])
        (simp_all add: gw_catalog_Stop_def gw_writeBack_Stop_def gw_cache_Close_def)
  qed
qed

text \<open>C25: a start that fails at one bucket takes the earlier ones down, if it can. When mount \<open>i\<close> cannot
  be started and every earlier one can be unmounted, \<open>Start\<close> returns an error naming the bucket, and
  then no mount serves, the write-back workers have exited, the catalog is closed and the evictor is
  stopped. When an earlier one cannot be unmounted, \<open>Start\<close> blocks for ever waiting for it, and
  the error is not reported.\<close>

theorem gateway_start_rollback:
  assumes "gw_open env (gw_New cfg, s, w) = Returns (None, g0, s, w)" and "bms = g_mounts (gw_create env g0)"
    and "start_mounts env s bms = ((i, Some e), bms')"
  shows "if \<forall>j < i. ge_Unmount env (bm_mountPoint (bms ! j)) = None
    then \<exists>g s' w'. gw_Start env (gw_New cfg, s, w) =
        Returns (Some (wrapf (''start bucket '' @ bc_Name (Buckets cfg ! i)) e), g, s', w') \<and>
      (\<forall>bm \<in> set (g_mounts g). bm_Wait bm) \<and> \<not> cl_open (g_catLife g) \<and>
      (\<forall>q. g_writeBack g = Some q \<longrightarrow> set (wq_workers q) \<subseteq> {Exited}) \<and>
      (\<forall>cm. g_cache g = Some cm \<longrightarrow> \<not> ev_running (cm_evictor cm))
    else \<exists>st. gw_Start env (gw_New cfg, s, w) = Blocks st"
proof -
  note ok = gw_open_ok(1) [OF assms(1)]
  let ?g = "gw_create env g0"
  obtain gc where c: "running ?g" "g_cfg ?g = cfg" "g_mounts ?g = bms" "\<forall>bm \<in> set bms. bm_server bm = None"
    using gw_create_ok [of g0 "cfg_WriteBack (g_cfg g0)" env] ok assms(2)
    by (auto simp: NewBucketMount_def Let_def)
  note err = start_mounts_err [OF assms(3)]
  let ?stopped = "map (bm_Stop env) (map started (take i bms)) @ drop i bms"
  have sd: "stop_down env i bms' = ?stopped"
    using err by (simp add: stop_down_map)
  let ?g1 = "?g\<lparr>g_wg := i, g_mounts := ?stopped\<rparr>"
  have len: "i < length bms" using err by simp
  have start: "gw_Start env (gw_New cfg, s, w) = and_then (if \<not> wg_Wait ?g1 then Blocks (?g1, s, w)
        else and_then (and_then (gw_writeBack_Stop (?g1, s, w)) gw_catalog_Stop id) gw_cache_Close id)
      (\<lambda>st. Returns (Some (wrapf (''start bucket '' @ bc_Name (Buckets cfg ! i)) e), st)) (\<lambda>st. (None, st))"
    using assms(1,3) c(2,3) sd by (simp add: gw_Start_def gw_rollback_def Let_def)
  have wait: "wg_Wait ?g1 \<longleftrightarrow> (\<forall>j < i. ge_Unmount env (bm_mountPoint (bms ! j)) = None)"
    using len by (auto simp: wg_Wait_def list_all_length bm_Wait_started)
  show ?thesis
  proof (cases "wg_Wait ?g1")
    case True
    then have down: "\<forall>bm \<in> set ?stopped. bm_Wait bm"
      using c(4) by (auto simp: wg_Wait_def list_all_iff bm_Wait_def len less_imp_le dest: in_set_dropD)
    have g1: "running ?g1" using c(1) by (simp add: running_def)
    obtain g s' w' where "and_then (and_then (gw_writeBack_Stop (?g1, s, w)) gw_catalog_Stop id) gw_cache_Close id =
        Returns (g, s', w')" "g_mounts g = g_mounts ?g1" "\<not> cl_open (g_catLife g)"
      "\<forall>q. g_writeBack g = Some q \<longrightarrow> set (wq_workers q) \<subseteq> {Exited}"
      "\<forall>cm. g_cache g = Some cm \<longrightarrow> \<not> ev_running (cm_evictor cm)"
      using g1 by (rule gw_close_running [of ?g1 s w]) simp
    with True wait start down show ?thesis by auto
  next
    case False
    with wait start show ?thesis by auto
  qed
qed

section \<open>What a shutdown loses\<close>

lemma bm_root_writeBack:
  "bm_root (g, s, w) bm = Some (x, k) \<Longrightarrow> bm_writeBack bm \<Longrightarrow>
     bx_writeBack x = g_writeBack g \<and> bx_world x = w \<and> bx_os x = s \<and> (\<exists>cm. g_cache g = Some cm \<and> bx_cache x = cm)"
  by (auto simp: bm_root_def NewRoot_def split: option.splits)

text \<open>C23: a file flushed during the shutdown is lost, and the writer is told it was written. \<open>Stop\<close>
  ends the upload workers before it unmounts, so the mounts still serve. A write-back flush that
  arrives then returns success and queues its job; but no worker is left, and whatever else
  happens to the queue, the job stays in it and nothing more is uploaded.\<close>

theorem shutdown_loses_flush:
  assumes "running g" and "g_writeBack g = Some q" and "wq_workers q \<noteq> []" and "0 < wq_cap q"
    and "gw_Stop_services (g, s, w) = Returns (g1, s1, w1)"
    and "bm_writeBack bm" and "bm_root (g1, s1, w1) bm = Some (x, k)" and "cm_ok (bx_cache x) (bx_os x)"
    and "h_dirty h" and "h_tmpFile h = OpenFile p" and "fault s1 OpRename p = None" and "fmlookup (files s1) p = Some c"
    and "h_Flush h now f x = (OK, h', f', x')"
  shows "g_mounts g1 = g_mounts g \<and> bx_world x' = w1 \<and> fn_size f' = int (length c) \<and>
    (\<exists>q1. bx_writeBack x' = Some q1 \<and>
       (\<forall>q2 s2 w2. wb_step\<^sup>*\<^sup>* (q1, bx_os x', bx_world x') (q2, s2, w2) \<longrightarrow>
          staged_job h p c \<in> set (wq_jobs q2) \<and> wq_done q2 = wq_done q1))"
proof -
  obtain g' s' w' cm where st: "gw_Stop_services (g, s, w) = Returns (g', s', w')" "g_mounts g' = g_mounts g"
    "\<forall>q. g_writeBack g = Some q \<longrightarrow> (\<exists>q'. g_writeBack g' = Some q' \<and> set (wq_workers q') \<subseteq> {Exited} \<and> wq_cap q' = wq_cap q \<and>
       (wq_workers q \<noteq> [] \<longrightarrow> wq_jobs q' = []))"
    by (rule gw_Stop_services_running [OF assms(1), of s w]) blast
  then obtain q' where q': "g_writeBack g1 = Some q'" "set (wq_workers q') \<subseteq> {Exited}" "wq_cap q' = wq_cap q" "wq_jobs q' = []"
    and m: "g_mounts g1 = g_mounts g"
    using assms(2,3,5) by auto
  from bm_root_writeBack [OF assms(7,6)] have x: "bx_writeBack x = Some q'" "bx_world x = w1" "bx_os x = s1"
    by (simp_all add: q'(1))
  have "h_Flush h now f x = flush_writeBack h p (int (length c)) q' now f x"
    using h_Flush_write_back [OF x(1) assms(9,10,13)] assms(12) x(3) by (simp add: tmp_contents_OpenFile)
  then have "flush_writeBack h p (int (length c)) q' now f x = (OK, h', f', x')" using assms(13) by simp
  note fl = flush_writeBack_queued [OF assms(8) x(1) _ _ _ this]
  let ?q1 = "snd (Submit (staged_job h p c) q')"
  have q1: "set (wq_workers ?q1) \<subseteq> {Exited}" "staged_job h p c \<in> set (wq_jobs ?q1)"
    using q'(2-4) assms(4) by (simp_all add: Submit_def)
  have "staged_job h p c \<in> set (wq_jobs q2) \<and> wq_done q2 = wq_done ?q1"
    if "wb_step\<^sup>*\<^sup>* (?q1, bx_os x', bx_world x') (q2, s2, w2)" for q2 s2 w2
    using wb_exited_run [OF that] q1 by auto
  moreover have "bx_world x' = w1" "fn_size f' = int (length c)" "bx_writeBack x' = Some ?q1"
    using fl q' assms(4,11,12) x by (simp_all add: fn_update_def)
  ultimately show ?thesis using m by blast
qed

section \<open>Witnesses\<close>

text \<open>An environment in which everything works, except that nothing can be mounted at \<open>bad\<close>.\<close>

definition demo_env :: "string \<Rightarrow> ((string \<times> bytes) list, mem_world) gw_env" where
  "demo_env bad =
     \<lparr>ge_bolt_Open = (\<lambda>_. Inr (alist_bolt, [])), ge_bolt_create = Inr, ge_codec = table_codec [], ge_sql_fault = (\<lambda>_. None), ge_sql_disk = (\<lambda>_. None),
      ge_s3_New = (\<lambda>_. mem_s3), ge_Mount = (\<lambda>mp _. if mp = bad then Some (errorf ''busy'') else None),
      ge_Unmount = (\<lambda>_. None)\<rparr>"

definition demo_config :: Config where
  "demo_config = default_config\<lparr>Buckets := [sample_bucket ''b'' ''/m'', sample_bucket ''c'' ''/n'']\<rparr>"

lemma demo_open: "\<exists>g. gw_open (demo_env bad) (gw_New demo_config, demo_os, w) = Returns (None, g, demo_os, w)"
  by (simp add: gw_open_def gw_New_def NewManager_def NewDiskStore_def os_MkdirAll_def cat_New_def NewStore_def
      createSchema_def demo_env_def demo_os_def ge_NewMetadataStore_def NewMetadataStore_def alist_bolt_def Let_def)

lemma demo_mounts:
  assumes "gw_open (demo_env bad) (gw_New demo_config, demo_os, w) = Returns (None, g, demo_os, w)"
  shows "\<exists>bm1 bm2. g_mounts (gw_create (demo_env bad) g) = [bm1, bm2] \<and> bm_mountPoint bm1 = ''/m'' \<and>
    bm_mountPoint bm2 = ''/n'' \<and> bm_server bm1 = None \<and> bm_server bm2 = None \<and> g_cfg (gw_create (demo_env bad) g) = demo_config"
  using gw_create_ok [of g _ "demo_env bad"] gw_open_ok(1) [OF assms]
  by (auto simp: demo_config_def sample_bucket_def NewBucketMount_def Let_def)

lemma demo_start_mounts:
  assumes "bm_mountPoint bm1 = ''/m''" and "bm_mountPoint bm2 = ''/n''"
  shows "start_mounts (demo_env []) demo_os [bm1, bm2] = ((2, None), [started bm1, started bm2])"
    "\<exists>e bms. start_mounts (demo_env ''/n'') demo_os [bm1, bm2] = ((1, Some e), bms)"
  using assms by (simp_all add: bm_Start_def os_MkdirAll_def demo_env_def demo_os_def started_def numeral_2_eq_2)

lemma demo_start:
  "\<exists>g. gw_Start (demo_env []) (gw_New demo_config, demo_os, w) = Returns (None, g, demo_os, w)"
proof -
  obtain g where o: "gw_open (demo_env []) (gw_New demo_config, demo_os, w) = Returns (None, g, demo_os, w)"
    using demo_open by blast
  obtain bm1 bm2 where m: "g_mounts (gw_create (demo_env []) g) = [bm1, bm2]" "bm_mountPoint bm1 = ''/m''" "bm_mountPoint bm2 = ''/n''"
    using demo_mounts [OF o] by blast
  show ?thesis by (simp add: gw_Start_def o m(1) demo_start_mounts(1) [OF m(2,3)] Let_def del: start_mounts.simps)
qed

theorem gateway_start_mounts_witness:
  "\<exists>g. gw_Start (demo_env []) (gw_New demo_config, demo_os, []) = Returns (None, g, demo_os, []) \<and>
     length (g_mounts g) = 2 \<and> bm_server (g_mounts g ! 1) \<noteq> None \<and> g_writeBack g \<noteq> None"
proof -
  obtain g where st: "gw_Start (demo_env []) (gw_New demo_config, demo_os, []) = Returns (None, g, demo_os, [])"
    using demo_start by blast
  have b: "distinct (map bc_Name (Buckets demo_config))" "1 < length (Buckets demo_config)"
    "wb_Enabled (cfg_WriteBack demo_config)" "length (Buckets demo_config) = 2"
    by (simp_all add: demo_config_def default_config_def sample_bucket_def)
  from gateway_start_mounts [OF st b(1,2) refl refl] b(3,4)
  have "length (g_mounts g) = 2" "bm_server (g_mounts g ! 1) \<noteq> None" "g_writeBack g \<noteq> None" by auto
  with st show ?thesis by (intro exI conjI)
qed

lemma demo_config_valid: "Validate demo_config = None"
  by (simp add: Validate_valid valid_config_def demo_config_def default_config_def sample_bucket_def bucket_ok_def
      IsAbs_iff second_def)

theorem main_never_exits_cleanly_witness:
  "main (demo_env []) (\<lambda>_ _. Inr demo_config) (\<lambda>_. Inr []) [] id demo_os [] = Crash CloseOfClosedChannel"
proof -
  have l: "Load (\<lambda>_ _. Inr demo_config) (\<lambda>_. Inr []) [] = Inr demo_config" by (simp add: Load_def)
  obtain g where st: "gw_Start (demo_env []) (gw_New demo_config, demo_os, []) = Returns (None, g, demo_os, [])"
    using demo_start by blast
  show ?thesis
    using main_never_exits_cleanly [of id "demo_env []" "\<lambda>_ _. Inr demo_config" "\<lambda>_. Inr []" "[]" demo_os "[]"]
      l demo_config_valid st by auto
qed

theorem gateway_start_rollback_witness:
  "\<exists>e g s' w'. gw_Start (demo_env ''/n'') (gw_New demo_config, demo_os, []) =
       Returns (Some (wrapf ''start bucket c'' e), g, s', w') \<and> (\<forall>bm \<in> set (g_mounts g). bm_Wait bm)"
proof -
  obtain g where o: "gw_open (demo_env ''/n'') (gw_New demo_config, demo_os, []) = Returns (None, g, demo_os, [])"
    using demo_open by blast
  obtain bm1 bm2 where m: "g_mounts (gw_create (demo_env ''/n'') g) = [bm1, bm2]" "bm_mountPoint bm1 = ''/m''" "bm_mountPoint bm2 = ''/n''"
    using demo_mounts [OF o] by blast
  obtain e bms where st: "start_mounts (demo_env ''/n'') demo_os [bm1, bm2] = ((1, Some e), bms)"
    using demo_start_mounts(2) [OF m(2,3)] by blast
  have u: "\<forall>j < 1. ge_Unmount (demo_env ''/n'') (bm_mountPoint ([bm1, bm2] ! j)) = None" by (simp add: demo_env_def)
  obtain g s' w' where
    "gw_Start (demo_env ''/n'') (gw_New demo_config, demo_os, []) =
       Returns (Some (wrapf (''start bucket '' @ bc_Name (Buckets demo_config ! 1)) e), g, s', w')"
    "\<forall>bm \<in> set (g_mounts g). bm_Wait bm"
    using gateway_start_rollback [OF o refl st [folded m(1)], unfolded m(1), unfolded if_P [OF u]] by blast
  then show ?thesis by (intro exI conjI) (simp_all add: demo_config_def sample_bucket_def)
qed

text \<open>A gateway with one mount, the queue and an empty cache; then the services stop.\<close>

definition demo_gateway :: "((string \<times> bytes) list, mem_world) Gateway" where
  "demo_gateway =
     \<lparr>g_cfg = demo_config, g_cache = Some ((demo_manager [] [])\<lparr>cm_evictor := ev_Start (NewEvictor 0)\<rparr>),
      g_catalog = Some demo_sync, g_catLife = cat_opened, g_writeBack = Some demo_queue,
      g_mounts = [NewBucketMount (\<lambda>_. mem_s3) (sample_bucket ''b'' ''/m'') True second], g_wg = 1\<rparr>"

lemma demo_stop:
  "\<exists>g1 x k. gw_Stop_services (demo_gateway, staged_os, []) = Returns (g1, staged_os, []) \<and>
     bm_root (g1, staged_os, []) (hd (g_mounts demo_gateway)) = Some (x, k) \<and> cm_ok (bx_cache x) staged_os \<and>
     bx_os x = staged_os \<and> (\<exists>q. bx_writeBack x = Some q \<and> wq_jobs q = [] \<and> wq_cap q = 8)"
  using demo_empty_ok [of staged_os "[]"]
  by (simp add: gw_Stop_services_def gw_catalog_Stop_def gw_writeBack_Stop_def gw_StopEvictor_def cat_Stop_def sm_Stop_def nc_Stop_def
      dc_Stop_def cat_opened_def wbq_Stop_def demo_queue_def NewWriteBackQueue_def cm_StopEvictor_def ev_Stop_def ev_Start_def
      NewEvictor_def close_chan_def demo_gateway_def bm_root_def NewRoot_def NewBucketMount_def Let_def cm_ok_def
      staged_os_def demo_os_def)

lemma demo_flush_queued_OK:
  "bx_os x = staged_os \<Longrightarrow> bx_writeBack x = Some q \<Longrightarrow> wq_jobs q = [] \<Longrightarrow> wq_cap q = 8 \<Longrightarrow>
     fst (h_Flush demo_handle now demo_file x) = OK"
  by (simp add: h_Flush_def tmp_Seek_def tmp_Stat_def tmp_contents_def flush_writeBack_def os_Rename_def
      os_CreateTemp_def Submit_def demo_handle_def staged_os_def demo_os_def Let_def)

theorem shutdown_loses_flush_witness:
  "\<exists>g1 s1 w1 x k h f x' q. gw_Stop_services (demo_gateway, staged_os, []) = Returns (g1, s1, w1) \<and>
     bm_root (g1, s1, w1) (hd (g_mounts demo_gateway)) = Some (x, k) \<and>
     h_Flush demo_handle 9 demo_file x = (OK, h, f, x') \<and> bx_writeBack x' = Some q \<and>
     (\<forall>q2 s2 w2. wb_step\<^sup>*\<^sup>* (q, bx_os x', bx_world x') (q2, s2, w2) \<longrightarrow> wq_jobs q2 \<noteq> [])"
proof -
  obtain g1 x k q where st: "gw_Stop_services (demo_gateway, staged_os, []) = Returns (g1, staged_os, [])"
    "bm_root (g1, staged_os, []) (hd (g_mounts demo_gateway)) = Some (x, k)" and ok: "cm_ok (bx_cache x) (bx_os x)"
    and x: "bx_os x = staged_os" "bx_writeBack x = Some q" "wq_jobs q = []" "wq_cap q = 8"
    using demo_stop by auto
  obtain h f x' where fl: "h_Flush demo_handle 9 demo_file x = (OK, h, f, x')"
    using demo_flush_queued_OK [OF x, of 9] by (metis prod.collapse)
  have a: "running demo_gateway" "g_writeBack demo_gateway = Some demo_queue" "wq_workers demo_queue \<noteq> []" "0 < wq_cap demo_queue"
    by (simp_all add: running_def demo_gateway_def demo_queue_def NewWriteBackQueue_def ev_Start_def NewEvictor_def cat_opened_def)
  have b: "bm_writeBack (hd (g_mounts demo_gateway))" by (simp add: demo_gateway_def NewBucketMount_def Let_def)
  have c: "h_dirty demo_handle" "h_tmpFile demo_handle = OpenFile ''/tmp/t''" "fault staged_os OpRename ''/tmp/t'' = None"
    "fmlookup (files staged_os) ''/tmp/t'' = Some ''xyz''"
    by (simp_all add: demo_handle_simps)
  from shutdown_loses_flush [OF a st(1) b st(2) ok c fl] obtain q1 where q1: "bx_writeBack x' = Some q1"
    "\<forall>q2 s2 w2. wb_step\<^sup>*\<^sup>* (q1, bx_os x', bx_world x') (q2, s2, w2) \<longrightarrow>
       staged_job demo_handle ''/tmp/t'' ''xyz'' \<in> set (wq_jobs q2) \<and> wq_done q2 = wq_done q1"
    by blast
  then have "\<forall>q2 s2 w2. wb_step\<^sup>*\<^sup>* (q1, bx_os x', bx_world x') (q2, s2, w2) \<longrightarrow> wq_jobs q2 \<noteq> []"
    by fastforce
  with st fl q1(1) show ?thesis by (intro exI conjI)
qed

end
