(* ===== verification/File_System.thy ===== *)
theory File_System
  imports Fuse_Dir
begin

text \<open>
  What a mount promises to its users, without caches, catalog, handles' temporary files or S3
  requests: a map from keys to contents and, per open file, a buffer. The second part is the
  interface between such a specification and an implementation, with the fact that a run of
  the implementation is a run of the specification.
\<close>

section \<open>Requests\<close>

text \<open>
  The requests of the kernel that this specification covers, and two things that happen by
  themselves: a name is looked up (which fills the catalog) and the cache is trimmed. Open files are
  numbered by the kernel; the file node passed with a request carries the attributes at that time.
\<close>

datatype fs_req =
    FsOpen nat FileNode
  | FsCreate nat DirNode string
  | FsWrite nat bytes int
  | FsRead nat nat int FileNode
  | FsFlush nat FileNode
  | FsRelease nat
  | FsUnlink DirNode string
  | FsRename DirNode string DirNode string
  | FsMkdir DirNode string
  | FsRmdir DirNode string
  | FsLookup DirNode string
  | FsEvict

datatype fs_reply = Done | Data bytes | Failed errno

section \<open>The specification\<close>

text \<open>An open file: its key, the buffer and whether the buffer has been written to since the last flush.\<close>

record fs =
  fs_objs :: "string \<rightharpoonup> bytes"
  fs_open :: "nat \<rightharpoonup> string \<times> bytes \<times> bool"

text \<open>
  A request that fails changes nothing. A read of a written buffer sees the buffer, any other read
  the object; a flush makes the buffer the object; a rename may leave the old name.
\<close>

fun fs_step :: "fs_req \<Rightarrow> fs_reply \<Rightarrow> fs \<Rightarrow> fs \<Rightarrow> bool" where
  "fs_step r (Failed e) a a' \<longleftrightarrow> e \<noteq> OK \<and> a' = a"
| "fs_step (FsOpen i f) Done a a' \<longleftrightarrow> a' = a\<lparr>fs_open := (fs_open a)(i \<mapsto> (fn_key f, [], False))\<rparr>"
| "fs_step (FsCreate i d name) Done a a' \<longleftrightarrow> a' = a\<lparr>fs_open := (fs_open a)(i \<mapsto> (dn_prefix d @ name, [], True))\<rparr>"
| "fs_step (FsWrite i d off) Done a a' \<longleftrightarrow> 0 \<le> off \<and>
     (case fs_open a i of
        None \<Rightarrow> False
      | Some (k, b, dirty) \<Rightarrow> a' = a\<lparr>fs_open := (fs_open a)(i \<mapsto> (k, write_at b d (nat off), True))\<rparr>)"
| "fs_step (FsRead i n off f) (Data d) a a' \<longleftrightarrow> a' = a \<and> 0 \<le> off \<and>
     (case fs_open a i of
        None \<Rightarrow> False
      | Some (k, b, dirty) \<Rightarrow>
          (case if dirty then Some b else fs_objs a k of
             None \<Rightarrow> False
           | Some c \<Rightarrow> d = take n (drop (nat off) c)))"
| "fs_step (FsFlush i f) Done a a' \<longleftrightarrow>
     (case fs_open a i of
        None \<Rightarrow> False
      | Some (k, b, dirty) \<Rightarrow>
          a' = (if dirty then a\<lparr>fs_objs := (fs_objs a)(k \<mapsto> b), fs_open := (fs_open a)(i \<mapsto> (k, b, False))\<rparr> else a))"
| "fs_step (FsRelease i) Done a a' \<longleftrightarrow> a' = a\<lparr>fs_open := (fs_open a)(i := None)\<rparr>"
| "fs_step (FsUnlink d name) Done a a' \<longleftrightarrow> a' = a\<lparr>fs_objs := (fs_objs a)(dn_prefix d @ name := None)\<rparr>"
| "fs_step (FsRename d name p newName) Done a a' \<longleftrightarrow>
     (case fs_objs a (dn_prefix d @ name) of
        None \<Rightarrow> False
      | Some c \<Rightarrow>
          a' = a\<lparr>fs_objs := (fs_objs a)(dn_prefix p @ newName \<mapsto> c, dn_prefix d @ name := None)\<rparr> \<or>
          a' = a\<lparr>fs_objs := (fs_objs a)(dn_prefix p @ newName \<mapsto> c)\<rparr>)"
| "fs_step (FsMkdir d name) Done a a' \<longleftrightarrow> a' = a\<lparr>fs_objs := (fs_objs a)(dn_prefix d @ name @ ''/'' \<mapsto> [])\<rparr>"
| "fs_step (FsRmdir d name) Done a a' \<longleftrightarrow> a' = a\<lparr>fs_objs := (fs_objs a)(dn_prefix d @ name @ ''/'' := None)\<rparr>"
| "fs_step (FsLookup d name) Done a a' \<longleftrightarrow> a' = a"
| "fs_step FsEvict Done a a' \<longleftrightarrow> a' = a"
| "fs_step _ _ a a' \<longleftrightarrow> False"

section \<open>With a cache\<close>

text \<open>
  The same file system with the copies of objects that a mount keeps. A clean read returns bytes of the copy,
  which it may first replace by the object; a flush that reaches S3 replaces object and copy; removing and renaming
  drop the copies, an eviction drops any.
\<close>

record cfs = fs +
  fs_view :: "string \<rightharpoonup> bytes"

definition reread :: "string \<Rightarrow> cfs \<Rightarrow> cfs \<Rightarrow> bool" where
  "reread k a a' \<longleftrightarrow> a' = a \<or> fs_objs a k \<noteq> None \<and> a' = a\<lparr>fs_view := (fs_view a)(k := fs_objs a k)\<rparr>"

fun cached_step :: "fs_req \<Rightarrow> fs_reply \<Rightarrow> cfs \<Rightarrow> cfs \<Rightarrow> bool" where
  "cached_step (FsRead i n off f) (Data d) a a' \<longleftrightarrow> 0 \<le> off \<and>
     (case fs_open a i of
        None \<Rightarrow> False
      | Some (k, b, dirty) \<Rightarrow>
          if dirty then a' = a \<and> d = take n (drop (nat off) b)
          else reread k a a' \<and> (case fs_view a' k of None \<Rightarrow> False | Some c \<Rightarrow> d = take n (drop (nat off) c)))"
| "cached_step (FsRead i n off f) (Failed e) a a' \<longleftrightarrow> e \<noteq> OK \<and>
     (a' = a \<or> (case fs_open a i of None \<Rightarrow> False | Some (k, b, dirty) \<Rightarrow> \<not> dirty \<and> reread k a a'))"
| "cached_step (FsFlush i f) Done a a' \<longleftrightarrow>
     (case fs_open a i of
        None \<Rightarrow> False
      | Some (k, b, dirty) \<Rightarrow>
          a' = (if dirty
                then a\<lparr>fs_objs := (fs_objs a)(k \<mapsto> b), fs_open := (fs_open a)(i \<mapsto> (k, b, False)), fs_view := (fs_view a)(k \<mapsto> b)\<rparr>
                else a))"
| "cached_step (FsUnlink d name) Done a a' \<longleftrightarrow>
     a' = a\<lparr>fs_objs := (fs_objs a)(dn_prefix d @ name := None), fs_view := (fs_view a)(dn_prefix d @ name := None)\<rparr>"
| "cached_step (FsRename d name p newName) Done a a' \<longleftrightarrow>
     fs_view a' = (fs_view a)(dn_prefix d @ name := None, dn_prefix p @ newName := None) \<and>
     fs_step (FsRename d name p newName) Done (fs.truncate a) (fs.truncate a')"
| "cached_step FsEvict Done a a' \<longleftrightarrow> fs_view a' \<subseteq>\<^sub>m fs_view a \<and> fs.truncate a' = fs.truncate a"
| "cached_step r out a a' \<longleftrightarrow> fs_view a' = fs_view a \<and> fs_step r out (fs.truncate a) (fs.truncate a')"

section \<open>Implementations\<close>

text \<open>A run of requests, each with the time it happens at, and of the specification.\<close>

fun run :: "('r \<Rightarrow> 's \<Rightarrow> 'o \<times> 's) \<Rightarrow> 'r list \<Rightarrow> 's \<Rightarrow> 'o list \<times> 's" where
  "run step [] s = ([], s)"
| "run step (r # rs) s = (case step r s of (out, s) \<Rightarrow> (case run step rs s of (outs, s) \<Rightarrow> (out # outs, s)))"

fun spec_run :: "('r \<Rightarrow> 'o \<Rightarrow> 'a \<Rightarrow> 'a \<Rightarrow> bool) \<Rightarrow> 'r list \<Rightarrow> 'o list \<Rightarrow> 'a \<Rightarrow> 'a \<Rightarrow> bool" where
  "spec_run spec [] outs a a' \<longleftrightarrow> outs = [] \<and> a' = a"
| "spec_run spec (r # rs) outs a a' \<longleftrightarrow>
     (\<exists>out outs' a1. outs = out # outs' \<and> spec r out a a1 \<and> spec_run spec rs outs' a1 a')"

locale implementation =
  fixes step :: "'r \<Rightarrow> 's \<Rightarrow> 'o \<times> 's"
    and spec :: "'r \<Rightarrow> 'o \<Rightarrow> 'a \<Rightarrow> 'a \<Rightarrow> bool"
    and inv :: "'s \<Rightarrow> bool"
    and absf :: "'s \<Rightarrow> 'a"
    and legal :: "'r \<Rightarrow> bool"
  assumes simulates: "inv s \<Longrightarrow> legal r \<Longrightarrow> step r s = (out, s') \<Longrightarrow> inv s' \<and> spec r out (absf s) (absf s')"
begin

lemma run_simulates:
  "inv s \<Longrightarrow> list_all legal rs \<Longrightarrow> run step rs s = (outs, s') \<Longrightarrow> inv s' \<and> spec_run spec rs outs (absf s) (absf s')"
proof (induction rs arbitrary: s outs)
  case (Cons r rs)
  obtain out s1 where st: "step r s = (out, s1)" by (metis surj_pair)
  obtain outs1 s2 where rn: "run step rs s1 = (outs1, s2)" by (metis surj_pair)
  have o: "outs = out # outs1" "s' = s2" using Cons.prems(3) st rn by simp_all
  have "inv s1 \<and> spec r out (absf s) (absf s1)" using simulates [OF Cons.prems(1) _ st] Cons.prems(2) by simp
  with Cons.IH [of s1 outs1] Cons.prems(2) rn o show ?case by auto
qed simp

text \<open>What every step of the specification keeps until something else holds, the implementation keeps so.\<close>

lemma run_keeps_until:
  assumes keeps: "\<And>r out a a'. spec r out a a' \<Longrightarrow> P a \<Longrightarrow> P a' \<or> Q a'"
  shows "inv s \<Longrightarrow> list_all legal rs \<Longrightarrow> run step rs s = (outs, s') \<Longrightarrow> P (absf s) \<Longrightarrow>
     P (absf s') \<or> (\<exists>n \<le> length rs. Q (absf (snd (run step (take n rs) s))))"
proof (induction rs arbitrary: s outs)
  case (Cons r rs)
  obtain out s1 where st: "step r s = (out, s1)" by (metis surj_pair)
  obtain outs1 where rn: "run step rs s1 = (outs1, s')" using Cons.prems(3) st by (auto split: prod.splits)
  have s1: "inv s1" "spec r out (absf s) (absf s1)" using simulates [OF Cons.prems(1) _ st] Cons.prems(2) by simp_all
  have pre: "snd (run step (take (Suc n) (r # rs)) s) = snd (run step (take n rs) s1)" for n
    using st by (simp split: prod.split)
  from keeps [OF s1(2) Cons.prems(4)] show ?case
  proof
    assume "P (absf s1)"
    moreover have "list_all legal rs" using Cons.prems(2) by simp
    ultimately consider "P (absf s')" | n where "n \<le> length rs" "Q (absf (snd (run step (take n rs) s1)))"
      using Cons.IH [OF s1(1) _ rn] by blast
    then show ?thesis
    proof cases
      case (2 n)
      then show ?thesis by (intro disjI2 exI [of _ "Suc n"]) (simp only: pre, simp)
    qed simp
  next
    assume "Q (absf s1)"
    then show ?thesis by (intro disjI2 exI [of _ "Suc 0"]) (simp only: pre, simp)
  qed
qed simp

end

text \<open>
  An implementation that serves the requests it must: \<open>served\<close> holds of a list of requests if each
  is one of these in every state the specification can be in once the earlier ones were served.
\<close>

fun served ::
  "('r \<Rightarrow> 'o \<Rightarrow> 'a \<Rightarrow> 'a \<Rightarrow> bool) \<Rightarrow> ('r \<Rightarrow> 'a \<Rightarrow> bool) \<Rightarrow> ('o \<Rightarrow> bool) \<Rightarrow> 'r list \<Rightarrow> 'a \<Rightarrow> bool" where
  "served spec must failed [] a \<longleftrightarrow> True"
| "served spec must failed (r # rs) a \<longleftrightarrow>
     must r a \<and> (\<forall>out a'. spec r out a a' \<longrightarrow> \<not> failed out \<longrightarrow> served spec must failed rs a')"

locale serving = implementation step spec inv absf legal
  for step :: "'r \<Rightarrow> 's \<Rightarrow> 'o \<times> 's"
    and spec :: "'r \<Rightarrow> 'o \<Rightarrow> 'a \<Rightarrow> 'a \<Rightarrow> bool"
    and inv :: "'s \<Rightarrow> bool"
    and absf :: "'s \<Rightarrow> 'a"
    and legal :: "'r \<Rightarrow> bool" +
  fixes healthy :: "'s \<Rightarrow> bool"
    and must :: "'r \<Rightarrow> 'a \<Rightarrow> bool"
    and failed :: "'o \<Rightarrow> bool"
  assumes healthy_step: "inv s \<Longrightarrow> legal r \<Longrightarrow> healthy s \<Longrightarrow> step r s = (out, s') \<Longrightarrow> healthy s'"
    and serves: "inv s \<Longrightarrow> healthy s \<Longrightarrow> must r (absf s) \<Longrightarrow> step r s = (out, s') \<Longrightarrow> \<not> failed out"
begin

lemma run_serves:
  "inv s \<Longrightarrow> healthy s \<Longrightarrow> list_all legal rs \<Longrightarrow> served spec must failed rs (absf s) \<Longrightarrow>
     run step rs s = (outs, s') \<Longrightarrow> list_all (\<lambda>out. \<not> failed out) outs"
proof (induction rs arbitrary: s outs)
  case (Cons r rs)
  obtain out s1 where st: "step r s = (out, s1)" by (metis surj_pair)
  obtain outs1 s2 where rn: "run step rs s1 = (outs1, s2)" by (metis surj_pair)
  have o: "outs = out # outs1" "s' = s2" using Cons.prems(5) st rn by simp_all
  have l: "legal r" "list_all legal rs" using Cons.prems(3) by simp_all
  have m: "must r (absf s)" using Cons.prems(4) by simp
  note sim = simulates [OF Cons.prems(1) l(1) st]
  have ok: "\<not> failed out" by (rule serves [OF Cons.prems(1,2) m st])
  have "served spec must failed rs (absf s1)" using Cons.prems(4) sim ok unfolding served.simps by blast
  with Cons.IH [of s1 outs1] sim healthy_step [OF Cons.prems(1) l(1) Cons.prems(2) st] l(2) rn o ok show ?case by simp
qed simp

end

end
