(* ===== verification/Mount.thy ===== *)
theory Mount
  imports File_System Handle_Read Dir_Ops
begin

text \<open>
  A mount in write-through mode as a whole: its context and the open files, the requests as the
  program answers them, the invariant, the file system it stands for, and what the cache and the
  evictor do to the context. \<open>Mount_Refines\<close> proves that the mount implements that file system.
\<close>

section \<open>The mount\<close>

record ('db, 'w) mount =
  mt_ctx :: "('db, 'w) bucketCtx"
  mt_handles :: "(nat, 'w Handle) gomap"

definition with_handle ::
  "nat \<Rightarrow> ('w Handle \<Rightarrow> fs_reply \<times> ('db, 'w) mount) \<Rightarrow> ('db, 'w) mount \<Rightarrow> fs_reply \<times> ('db, 'w) mount" where
  "with_handle i f m = (case map_of (mt_handles m) i of None \<Rightarrow> (Failed EINVAL, m) | Some h \<Rightarrow> f h)"

definition answer :: "errno \<Rightarrow> fs_reply" where
  "answer e = (if e = OK then Done else Failed e)"

fun mount_do :: "time \<times> fs_req \<Rightarrow> ('db, 'w) mount \<Rightarrow> fs_reply \<times> ('db, 'w) mount" where
  "mount_do (now, FsOpen i f) m =
     (case fn_Open f (mt_ctx m) of
        ((None, e), x) \<Rightarrow> (Failed e, m\<lparr>mt_ctx := x\<rparr>)
      | ((Some h, e), x) \<Rightarrow> (answer e, m\<lparr>mt_ctx := x, mt_handles := AList.update i h (mt_handles m)\<rparr>))"
| "mount_do (now, FsCreate i d name) m =
     (case dn_Create d name now (mt_ctx m) of
        (Inl e, x) \<Rightarrow> (Failed e, m\<lparr>mt_ctx := x\<rparr>)
      | (Inr (_, h), x) \<Rightarrow> (Done, m\<lparr>mt_ctx := x, mt_handles := AList.update i h (mt_handles m)\<rparr>))"
| "mount_do (now, FsWrite i d off) m =
     with_handle i (\<lambda>h. case h_Write h d off (mt_ctx m) of
       ((_, e), h, x) \<Rightarrow> (answer e, m\<lparr>mt_ctx := x, mt_handles := AList.update i h (mt_handles m)\<rparr>)) m"
| "mount_do (now, FsRead i n off f) m =
     with_handle i (\<lambda>h. case h_Read h n off now f (mt_ctx m) of
       (r, _, x) \<Rightarrow> (case r of Inl e \<Rightarrow> Failed e | Inr d \<Rightarrow> Data d, m\<lparr>mt_ctx := x\<rparr>)) m"
| "mount_do (now, FsFlush i f) m =
     with_handle i (\<lambda>h. case h_Flush h now f (mt_ctx m) of
       (e, h, _, x) \<Rightarrow> (answer e, m\<lparr>mt_ctx := x, mt_handles := AList.update i h (mt_handles m)\<rparr>)) m"
| "mount_do (now, FsRelease i) m =
     with_handle i (\<lambda>h. case h_Release h (mt_ctx m) of
       (e, h, x) \<Rightarrow> (answer e, m\<lparr>mt_ctx := x, mt_handles := AList.delete i (mt_handles m)\<rparr>)) m"
| "mount_do (now, FsUnlink d name) m =
     (case dn_Unlink d name (mt_ctx m) of (e, x) \<Rightarrow> (answer e, m\<lparr>mt_ctx := x\<rparr>))"
| "mount_do (now, FsRename d name p newName) m =
     (case dn_Rename d name (Dir p) newName (mt_ctx m) of (e, x) \<Rightarrow> (answer e, m\<lparr>mt_ctx := x\<rparr>))"
| "mount_do (now, FsMkdir d name) m =
     (case dn_Mkdir d name now (mt_ctx m) of
        (r, x) \<Rightarrow> (case r of Inl e \<Rightarrow> Failed e | Inr _ \<Rightarrow> Done, m\<lparr>mt_ctx := x\<rparr>))"
| "mount_do (now, FsRmdir d name) m =
     (case dn_Rmdir d name (mt_ctx m) of (e, x) \<Rightarrow> (answer e, m\<lparr>mt_ctx := x\<rparr>))"
| "mount_do (now, FsLookup d name) m =
     (case dn_Lookup d name now (mt_ctx m) of
        (r, x) \<Rightarrow> (case r of Inl e \<Rightarrow> Failed e | Inr _ \<Rightarrow> Done, m\<lparr>mt_ctx := x\<rparr>))"
| "mount_do (now, FsEvict) m =
     (case run_triggered (bx_cache (mt_ctx m)) (bx_os (mt_ctx m)) of
        (cm, s) \<Rightarrow> (Done, m\<lparr>mt_ctx := (mt_ctx m)\<lparr>bx_cache := cm, bx_os := s\<rparr>\<rparr>))"

section \<open>What the proof needs of the surroundings\<close>

text \<open>
  A request to S3 that fails has not taken effect (\<open>s3_atomic\<close>), and the local disk does not fail.
\<close>

definition disk_ok :: "os \<Rightarrow> bool" where
  "disk_ok s \<longleftrightarrow> fault s = (\<lambda>_ _. None)"

section \<open>The invariant\<close>

definition temp_path :: "string \<Rightarrow> bool" where
  "temp_path p \<longleftrightarrow> (\<forall>ds b k. p \<noteq> ds_Path ds b k)"

text \<open>The objects of the mount's bucket, and the cached copies of the keys in use.\<close>

definition objs_abs :: "('w \<Rightarrow> s3_content) \<Rightarrow> ('db, 'w) bucketCtx \<Rightarrow> string \<rightharpoonup> bytes" where
  "objs_abs objs x = (\<lambda>k. map_option fst (objs (bx_world x) (c_bucket (bx_s3 x), k)))"

definition view :: "string set \<Rightarrow> ('db, 'w) bucketCtx \<Rightarrow> string \<rightharpoonup> bytes" where
  "view K x = (\<lambda>k. if k \<in> K then cached_data (bx_cache x) (bx_os x) (bx_bucket x) k else None)"

text \<open>Every cached copy of one of the keys in use is the object's content.\<close>

definition cache_true :: "('w \<Rightarrow> s3_content) \<Rightarrow> string set \<Rightarrow> ('db, 'w) bucketCtx \<Rightarrow> bool" where
  "cache_true objs K x \<longleftrightarrow> view K x \<subseteq>\<^sub>m objs_abs objs x"

text \<open>What holds of a mount's context in either mode.\<close>

definition ctx_base :: "('w \<Rightarrow> s3_content) \<Rightarrow> string set \<Rightarrow> ('db, 'w) bucketCtx \<Rightarrow> bool" where
  "ctx_base objs K x \<longleftrightarrow>
     s3_ok (c_inner (bx_s3 x)) objs \<and> s3_atomic (c_inner (bx_s3 x)) objs \<and> CHR ''/'' \<notin> set (c_bucket (bx_s3 x)) \<and>
     disk_ok (bx_os x) \<and> cm_ok (bx_cache x) (bx_os x) \<and> inj_on (ds_Path (cm_store (bx_cache x)) (bx_bucket x)) K"

definition ctx_ok :: "('w \<Rightarrow> s3_content) \<Rightarrow> string set \<Rightarrow> ('db, 'w) bucketCtx \<Rightarrow> bool" where
  "ctx_ok objs K x \<longleftrightarrow> ctx_base objs K x \<and> bx_writeBack x = None \<and> cache_true objs K x"

text \<open>The open files have temporary files of their own; none of them is a staged upload.\<close>

definition staged_name :: "string \<Rightarrow> bool" where
  "staged_name p \<longleftrightarrow> (\<exists>u. p = u @ ''.wb'')"

definition handle_ok :: "string set \<Rightarrow> ('db, 'w) bucketCtx \<Rightarrow> 'w Handle \<Rightarrow> bool" where
  "handle_ok K x h \<longleftrightarrow>
     h_s3 h = bx_s3 x \<and> h_bucket h = bx_bucket x \<and> h_key h \<in> K \<and>
     (\<exists>p c. h_tmpFile h = OpenFile p \<and> temp_path p \<and> \<not> staged_name p \<and> fmlookup (files (bx_os x)) p = Some c)"

definition open_ok :: "string set \<Rightarrow> ('db, 'w) bucketCtx \<Rightarrow> (nat \<rightharpoonup> 'w Handle) \<Rightarrow> bool" where
  "open_ok K x hs \<longleftrightarrow>
     (\<forall>i h. hs i = Some h \<longrightarrow> handle_ok K x h) \<and>
     (\<forall>i j h h'. hs i = Some h \<longrightarrow> hs j = Some h' \<longrightarrow> i \<noteq> j \<longrightarrow> h_tmpFile h \<noteq> h_tmpFile h')"

definition base_ok :: "('w \<Rightarrow> s3_content) \<Rightarrow> string set \<Rightarrow> ('db, 'w) mount \<Rightarrow> bool" where
  "base_ok objs K m \<longleftrightarrow> ctx_base objs K (mt_ctx m) \<and> open_ok K (mt_ctx m) (map_of (mt_handles m))"

text \<open>A write-through mount, whose cached copies are the objects.\<close>

definition mount_ok :: "('w \<Rightarrow> s3_content) \<Rightarrow> string set \<Rightarrow> ('db, 'w) mount \<Rightarrow> bool" where
  "mount_ok objs K m \<longleftrightarrow> ctx_ok objs K (mt_ctx m) \<and> open_ok K (mt_ctx m) (map_of (mt_handles m))"

text \<open>The file system a mount stands for.\<close>

definition open_abs :: "('db, 'w) bucketCtx \<Rightarrow> (nat \<rightharpoonup> 'w Handle) \<Rightarrow> nat \<rightharpoonup> string \<times> bytes \<times> bool" where
  "open_abs x hs = (\<lambda>i. map_option (\<lambda>h. (h_key h, tmp_contents (h_tmpFile h) (bx_os x), h_dirty h)) (hs i))"

definition fs_abs :: "('w \<Rightarrow> s3_content) \<Rightarrow> ('db, 'w) mount \<Rightarrow> fs" where
  "fs_abs objs m = \<lparr>fs_objs = objs_abs objs (mt_ctx m), fs_open = open_abs (mt_ctx m) (map_of (mt_handles m))\<rparr>"

definition cfs_abs :: "('w \<Rightarrow> s3_content) \<Rightarrow> string set \<Rightarrow> ('db, 'w) mount \<Rightarrow> cfs" where
  "cfs_abs objs K m =
     \<lparr>fs_objs = objs_abs objs (mt_ctx m), fs_open = open_abs (mt_ctx m) (map_of (mt_handles m)), fs_view = view K (mt_ctx m)\<rparr>"

lemma truncate_cfs_abs [simp]: "fs.truncate (cfs_abs objs K m) = fs_abs objs m"
  by (simp add: cfs_abs_def fs_abs_def fs.truncate_def)

text \<open>Requests about keys in use; a directory's marker is not the key of a file.\<close>

fun legal_req :: "string set \<Rightarrow> time \<times> fs_req \<Rightarrow> bool" where
  "legal_req K (t, FsOpen i f) \<longleftrightarrow> fn_key f \<in> K"
| "legal_req K (t, FsCreate i d name) \<longleftrightarrow> dn_prefix d @ name \<in> K"
| "legal_req K (t, FsUnlink d name) \<longleftrightarrow> dn_prefix d @ name \<in> K"
| "legal_req K (t, FsRename d name p newName) \<longleftrightarrow> dn_prefix d @ name \<in> K \<and> dn_prefix p @ newName \<in> K"
| "legal_req K (t, FsMkdir d name) \<longleftrightarrow> dn_prefix d @ name @ ''/'' \<notin> K"
| "legal_req K (t, FsRmdir d name) \<longleftrightarrow> dn_prefix d @ name @ ''/'' \<notin> K"
| "legal_req K (t, _) \<longleftrightarrow> True"


section \<open>Steps of the context\<close>

text \<open>
  What an operation may do to the context as the open files see it: no temporary file is touched but
  those of \<open>A\<close>, and the mount's configuration stays.
\<close>

definition local_step :: "string set \<Rightarrow> ('db, 'w) bucketCtx \<Rightarrow> ('db, 'w) bucketCtx \<Rightarrow> bool" where
  "local_step A x x' \<longleftrightarrow>
     bx_s3 x' = bx_s3 x \<and> bx_bucket x' = bx_bucket x \<and> bx_writeBack x' = bx_writeBack x \<and>
     cm_store (bx_cache x') = cm_store (bx_cache x) \<and> fault (bx_os x') = fault (bx_os x) \<and>
     temp_name (bx_os x') = temp_name (bx_os x) \<and> cm_ok (bx_cache x') (bx_os x') \<and>
     (\<forall>q. temp_path q \<longrightarrow> q \<notin> A \<longrightarrow> fmlookup (files (bx_os x')) q = fmlookup (files (bx_os x)) q)"

lemma local_step_trans: "local_step A x y \<Longrightarrow> local_step A y z \<Longrightarrow> local_step A x z"
  unfolding local_step_def by (intro conjI allI impI; elim conjE; simp)

lemma local_step_mono: "local_step A x y \<Longrightarrow> A \<subseteq> B \<Longrightarrow> local_step B x y"
  by (auto simp: local_step_def)

lemma temp_path_ds_Path: "temp_path p \<Longrightarrow> p \<noteq> ds_Path ds b k"
  by (simp add: temp_path_def)

lemma temp_path_upload: "temp_ok s \<Longrightarrow> temp_path (temp_name s [] ''s3gw-upload-*'' fs)"
  using upload_temp_not_cached by (simp add: temp_path_def)

lemma disk_okD [simp]: "disk_ok s \<Longrightarrow> fault s op p = None"
  by (simp add: disk_ok_def)

lemma ctx_baseD:
  assumes "ctx_base objs K x"
  shows "s3_ok (c_inner (bx_s3 x)) objs" "s3_atomic (c_inner (bx_s3 x)) objs" "CHR ''/'' \<notin> set (c_bucket (bx_s3 x))"
    "disk_ok (bx_os x)" "cm_ok (bx_cache x) (bx_os x)" "temp_ok (bx_os x)"
    "inj_on (ds_Path (cm_store (bx_cache x)) (bx_bucket x)) K"
  using assms by (simp_all add: ctx_base_def cm_ok_def)

lemma ctx_okD:
  assumes "ctx_ok objs K x"
  shows "ctx_base objs K x" "bx_writeBack x = None" "cache_true objs K x"
  using assms by (simp_all add: ctx_ok_def)

lemma ctx_base_step: "ctx_base objs K x \<Longrightarrow> local_step A x x' \<Longrightarrow> ctx_base objs K x'"
  by (simp add: ctx_base_def local_step_def disk_ok_def)

lemma ctx_ok_step: "ctx_ok objs K x \<Longrightarrow> local_step A x x' \<Longrightarrow> cache_true objs K x' \<Longrightarrow> ctx_ok objs K x'"
  using ctx_base_step [of objs K x A x'] by (simp add: ctx_ok_def) (simp add: local_step_def)

lemma handle_ok_step:
  "handle_ok K x h \<Longrightarrow> local_step A x x' \<Longrightarrow> h_tmpFile h \<notin> OpenFile ` A \<Longrightarrow>
     handle_ok K x' h \<and> tmp_contents (h_tmpFile h) (bx_os x') = tmp_contents (h_tmpFile h) (bx_os x)"
  by (auto simp: handle_ok_def local_step_def tmp_contents_OpenFile)

lemma open_okD:
  "open_ok K x hs \<Longrightarrow> hs i = Some h \<Longrightarrow> handle_ok K x h"
  "open_ok K x hs \<Longrightarrow> hs i = Some h \<Longrightarrow> hs j = Some h' \<Longrightarrow> i \<noteq> j \<Longrightarrow> h_tmpFile h \<noteq> h_tmpFile h'"
  unfolding open_ok_def by blast+

lemma open_ok_cong:
  "bx_s3 x' = bx_s3 x \<Longrightarrow> bx_bucket x' = bx_bucket x \<Longrightarrow> bx_os x' = bx_os x \<Longrightarrow> open_ok K x' hs = open_ok K x hs"
  "bx_os x' = bx_os x \<Longrightarrow> open_abs x' hs = open_abs x hs"
  by (simp_all add: open_ok_def handle_ok_def open_abs_def)

lemma base_okD:
  assumes "base_ok objs K m"
  shows "ctx_base objs K (mt_ctx m)" "open_ok K (mt_ctx m) (map_of (mt_handles m))"
  using assms by (simp_all add: base_ok_def)

lemma mount_okD:
  assumes "mount_ok objs K m"
  shows "ctx_ok objs K (mt_ctx m)" "base_ok objs K m"
  using assms by (simp_all add: mount_ok_def base_ok_def ctx_ok_def)

lemma upload_temp_not_staged: "temp_ok s \<Longrightarrow> \<not> staged_name (temp_name s [] ''s3gw-upload-*'' fs)"
proof
  assume t: "temp_ok s" and "staged_name (temp_name s [] ''s3gw-upload-*'' fs)"
  then obtain u where "temp_name s [] (''s3gw-upload-'' @ ''*'') fs = u @ ''.wb''" by (auto simp: staged_name_def)
  then have l: "last (temp_name s [] (''s3gw-upload-'' @ ''*'') fs) = CHR ''b''" by simp
  obtain r where r: "list_all is_digit r" "temp_name s [] (''s3gw-upload-'' @ ''*'') fs = temp_dir [] @ ''/'' @ ''s3gw-upload-'' @ r"
    using temp_shape [OF t] .
  show False
  proof (cases r rule: rev_cases)
    case Nil
    with l r(2) show False by simp
  next
    case (snoc s c)
    with l r show False by (simp add: is_digit_def)
  qed
qed

text \<open>The open files change at one number at most.\<close>

lemma open_step:
  assumes "open_ok K x hs" and "local_step A x x'" and "hs' = hs(i := oh)"
    and "\<And>j h. j \<noteq> i \<Longrightarrow> hs j = Some h \<Longrightarrow> h_tmpFile h \<notin> OpenFile ` A"
    and "\<And>h. oh = Some h \<Longrightarrow> handle_ok K x' h"
    and "\<And>h j h'. oh = Some h \<Longrightarrow> j \<noteq> i \<Longrightarrow> hs j = Some h' \<Longrightarrow> h_tmpFile h' \<noteq> h_tmpFile h"
  shows "open_ok K x' hs' \<and>
    open_abs x' hs' = (open_abs x hs)(i := map_option (\<lambda>h. (h_key h, tmp_contents (h_tmpFile h) (bx_os x'), h_dirty h)) oh)"
proof -
  have keep: "handle_ok K x' h" "tmp_contents (h_tmpFile h) (bx_os x') = tmp_contents (h_tmpFile h) (bx_os x)"
    if "j \<noteq> i" "hs j = Some h" for j h
    using handle_ok_step [OF open_okD(1) [OF assms(1) that(2)] assms(2) assms(4) [OF that]] by blast+
  have "open_ok K x' hs'"
    unfolding open_ok_def
  proof (intro conjI allI impI)
    fix j h assume "hs' j = Some h"
    then show "handle_ok K x' h" using keep(1) assms(5) by (simp add: assms(3) split: if_splits)
  next
    fix j l h h' assume h: "hs' j = Some h" "hs' l = Some h'" "j \<noteq> l"
    show "h_tmpFile h \<noteq> h_tmpFile h'"
    proof (cases "j = i \<or> l = i")
      case True
      with h assms(6) show ?thesis by (auto simp: assms(3)) metis+
    next
      case False
      with h open_okD(2) [OF assms(1)] show ?thesis by (simp add: assms(3))
    qed
  qed
  moreover have "open_abs x' hs' = (open_abs x hs)(i := map_option (\<lambda>h. (h_key h, tmp_contents (h_tmpFile h) (bx_os x'), h_dirty h)) oh)"
    using keep(2) by (auto simp: open_abs_def assms(3) fun_eq_iff intro!: option.map_cong)
  ultimately show ?thesis ..
qed

lemma open_same:
  assumes "open_ok K x hs" and "local_step A x x'" and "\<And>j h. hs j = Some h \<Longrightarrow> h_tmpFile h \<notin> OpenFile ` A"
  shows "open_ok K x' hs \<and> open_abs x' hs = open_abs x hs"
proof -
  have "handle_ok K x' h \<and> tmp_contents (h_tmpFile h) (bx_os x') = tmp_contents (h_tmpFile h) (bx_os x)"
    if "hs j = Some h" for j h
    using handle_ok_step [OF open_okD(1) [OF assms(1) that] assms(2) assms(3) [OF that]] .
  with assms(1) show ?thesis
    by (auto simp: open_ok_def open_abs_def fun_eq_iff intro!: option.map_cong)
qed

lemma objs_abs_cong:
  "objs (bx_world x') = objs (bx_world x) \<Longrightarrow> bx_s3 x' = bx_s3 x \<Longrightarrow> objs_abs objs x' = objs_abs objs x"
  by (simp add: objs_abs_def)

lemma objs_abs_upd:
  "objs (bx_world x') = (objs (bx_world x))((c_bucket (bx_s3 x), k) \<mapsto> (c, t)) \<Longrightarrow> bx_s3 x' = bx_s3 x \<Longrightarrow>
     objs_abs objs x' = (objs_abs objs x)(k \<mapsto> c)"
  "objs (bx_world x') = (objs (bx_world x))((c_bucket (bx_s3 x), k) := None) \<Longrightarrow> bx_s3 x' = bx_s3 x \<Longrightarrow>
     objs_abs objs x' = (objs_abs objs x)(k := None)"
  by (auto simp: objs_abs_def fun_eq_iff)

section \<open>The cache\<close>

lemma local_step_refl: "cm_ok (bx_cache x) (bx_os x) \<Longrightarrow> local_step A x x"
  by (simp add: local_step_def)

lemma view_simps [simp]:
  "view K (x\<lparr>bx_catalog := cat\<rparr>) = view K x" "view K (x\<lparr>bx_world := w\<rparr>) = view K x" "view K (x\<lparr>bx_writeBack := wb\<rparr>) = view K x"
  by (simp_all add: view_def cong: if_cong)

text \<open>The cached copies after a step that leaves their files alone, or changes one.\<close>

lemma view_cong:
  assumes "local_step A x x'"
    and "\<And>k. k \<in> K \<Longrightarrow> fmlookup (files (bx_os x')) (ds_Path (cm_store (bx_cache x)) (bx_bucket x) k) =
      fmlookup (files (bx_os x)) (ds_Path (cm_store (bx_cache x)) (bx_bucket x) k)"
  shows "view K x' = view K x"
  using assms by (simp add: view_def cached_data_def local_step_def fun_eq_iff)

lemma view_le:
  assumes "local_step A x x'"
    and "\<And>k. k \<in> K \<Longrightarrow> fmlookup (files (bx_os x')) (ds_Path (cm_store (bx_cache x)) (bx_bucket x) k) \<in>
      {fmlookup (files (bx_os x)) (ds_Path (cm_store (bx_cache x)) (bx_bucket x) k), None}"
  shows "view K x' \<subseteq>\<^sub>m view K x"
  using assms by (fastforce simp: map_le_def view_def cached_data_def local_step_def split: if_splits)

lemma view_upd:
  assumes "inj_on (ds_Path (cm_store (bx_cache x)) (bx_bucket x)) K" and "k \<in> K" and "local_step A x x'"
    and "\<And>q. q \<noteq> ds_Path (cm_store (bx_cache x)) (bx_bucket x) k \<Longrightarrow> \<not> temp_path q \<Longrightarrow>
      fmlookup (files (bx_os x')) q = fmlookup (files (bx_os x)) q"
  shows "view K x' = (view K x)(k := fmlookup (files (bx_os x')) (ds_Path (cm_store (bx_cache x)) (bx_bucket x) k))"
proof
  fix j
  have "ds_Path (cm_store (bx_cache x)) (bx_bucket x) j \<noteq> ds_Path (cm_store (bx_cache x)) (bx_bucket x) k" if "j \<in> K" "j \<noteq> k"
    using assms(1,2) that by (auto simp: inj_on_def)
  moreover have "\<not> temp_path (ds_Path (cm_store (bx_cache x)) (bx_bucket x) j)" by (auto simp: temp_path_def)
  ultimately show "view K x' j = ((view K x)(k := fmlookup (files (bx_os x')) (ds_Path (cm_store (bx_cache x)) (bx_bucket x) k))) j"
    using assms(2-4) by (auto simp: view_def cached_data_def local_step_def)
qed

lemma ds_Write_disk:
  assumes "disk_ok s" and "temp_ok s"
  shows "ds_Write ds b k src s = (None, s\<lparr>files := fmupd (ds_Path ds b k) (snd src) (files s)\<rparr>)"
proof -
  have "fst (ds_Write ds b k src s) = None"
    using assms(1) by (simp add: ds_Write_def os_MkdirAll_def os_CreateTemp_def io_Copy_def os_Rename_def Let_def)
  then obtain s' where "ds_Write ds b k src s = (None, s')" by (metis prod.collapse)
  with ds_Write_ok [OF assms(2) this] show ?thesis by simp
qed

lemma ctx_cache_Put_disk:
  assumes "disk_ok (bx_os x)" and "cm_ok (bx_cache x) (bx_os x)"
  shows "files (bx_os (ctx_cache_Put k src meta now x)) =
      fmupd (ds_Path (cm_store (bx_cache x)) (bx_bucket x) k) (snd src) (files (bx_os x))"
    and "local_step A x (ctx_cache_Put k src meta now x)"
proof -
  let ?s = "(bx_os x)\<lparr>files := fmupd (ds_Path (cm_store (bx_cache x)) (bx_bucket x) k) (snd src) (files (bx_os x))\<rparr>"
  obtain r m' s' where p: "cm_Put (bx_bucket x) k src meta now (bx_cache x) (bx_os x) = (r, m', s')"
    by (metis prod_cases3)
  then have x': "ctx_cache_Put k src meta now x = x\<lparr>bx_cache := m', bx_os := s'\<rparr>" by (simp add: ctx_cache_Put_def)
  have "temp_ok (bx_os x)" using assms(2) by (simp add: cm_ok_def)
  from p ds_Write_disk [OF assms(1) this] have s': "s' = ?s"
    by (auto simp: cm_Put_def Let_def split: prod.splits option.splits)
  then show "files (bx_os (ctx_cache_Put k src meta now x)) =
      fmupd (ds_Path (cm_store (bx_cache x)) (bx_bucket x) k) (snd src) (files (bx_os x))"
    by (simp add: x')
  show "local_step A x (ctx_cache_Put k src meta now x)"
    using cm_Put_store [OF p] cm_ok_Put [OF assms(2) p]
    by (auto simp: local_step_def x' s' dest: temp_path_ds_Path)
qed

lemma ctx_cache_Invalidate_step:
  assumes "cm_ok (bx_cache x) (bx_os x)"
  shows "local_step A x (ctx_cache_Invalidate k x)"
proof -
  obtain r m' s' where i: "cm_Invalidate (bx_bucket x) k (bx_cache x) (bx_os x) = (r, m', s')" by (metis prod_cases3)
  then have "cm_ok (bx_cache (ctx_cache_Invalidate k x)) (bx_os (ctx_cache_Invalidate k x))"
    using cm_ok_Invalidate [OF assms i] by (simp add: ctx_cache_Invalidate_def)
  then show ?thesis by (auto simp: local_step_def ctx_cache_Invalidate_files dest: temp_path_ds_Path)
qed

section \<open>Eviction\<close>

lemma ds_Delete_frame:
  assumes "ds_Delete ds b k s = (r, s')"
  shows "fault s' = fault s \<and> temp_name s' = temp_name s \<and>
    (\<forall>q. fmlookup (files s') q = fmlookup (files s) q \<or> \<not> temp_path q \<and> fmlookup (files s') q = None)"
proof -
  have "s' = snd (os_Remove (ds_Path ds b k) s)" using assms by (simp add: ds_Delete_def)
  then show ?thesis using temp_path_ds_Path by (auto simp: os_Remove_files)
qed

lemma evict_loop_frame:
  "ms_ok ms \<Longrightarrow> ms_wf ms \<Longrightarrow> evict_loop ds target es tot n ms s = (r, ms', s') \<Longrightarrow>
     ms_ok ms' \<and> ms_wf ms' \<and> fault s' = fault s \<and> temp_name s' = temp_name s \<and>
     (\<forall>q. fmlookup (files s') q = fmlookup (files s) q \<or> \<not> temp_path q \<and> fmlookup (files s') q = None)"
proof (induction es arbitrary: tot n ms s)
  case (Cons e es)
  obtain r1 s1 where d: "ds_Delete ds (ce_Bucket e) (ce_Key e) s = (r1, s1)" by (metis surj_pair)
  obtain r2 ms2 where m: "ms_Delete ms (ce_Bucket e) (ce_Key e) = (r2, ms2)" by (metis surj_pair)
  have ok2: "ms_ok ms2" "ms_wf ms2" using ms_ok_ops(2) [OF Cons.prems(1,2) m] by simp_all
  note f1 = ds_Delete_frame [OF d]
  consider (stop) "(ms', s') = (ms, s)"
    | (go) t k ms1 where "evict_loop ds target es t k ms1 s1 = (r, ms', s')" "ms1 = ms \<or> ms1 = ms2"
    using Cons.prems(3) d m by (auto split: if_splits option.splits)
  then show ?case
  proof cases
    case stop
    with Cons.prems show ?thesis by simp
  next
    case go
    then have "ms_ok ms1" "ms_wf ms1" using Cons.prems(1,2) ok2 by auto
    from Cons.IH [OF this go(1)] f1 show ?thesis by (metis (lifting))
  qed
qed simp

lemma run_triggered_frame:
  assumes "cm_ok cm s" and "run_triggered cm s = (cm', s')"
  shows "cm_ok cm' s' \<and> cm_store cm' = cm_store cm \<and> fault s' = fault s \<and> temp_name s' = temp_name s \<and>
    (\<forall>q. fmlookup (files s') q = fmlookup (files s) q \<or> \<not> temp_path q \<and> fmlookup (files s') q = None)"
proof -
  have ok: "ms_ok (cm_meta cm)" "ms_wf (cm_meta cm)" "temp_ok s" using assms(1) by (simp_all add: cm_ok_def)
  obtain r ms1 s1 where e: "evictOnce (cm_evictor cm) (cm_store cm) (cm_meta cm) s = (r, ms1, s1)" by (metis prod_cases3)
  then consider "(ms1, s1) = (cm_meta cm, s)"
    | target es tot r1 where "evict_loop (cm_store cm) target es tot 0 (cm_meta cm) s = (r1, ms1, s1)"
    by (auto simp: evictOnce_def Let_def split: sum.splits if_splits prod.splits)
  then have "ms_ok ms1 \<and> ms_wf ms1 \<and> fault s1 = fault s \<and> temp_name s1 = temp_name s \<and>
    (\<forall>q. fmlookup (files s1) q = fmlookup (files s) q \<or> \<not> temp_path q \<and> fmlookup (files s1) q = None)"
    using ok by cases (simp, rule evict_loop_frame)
  with assms(2) e ok(3) temp_ok_cong [of s1 s] show ?thesis by (auto simp: run_triggered_def cm_ok_def)
qed


end
