(* ===== verification/Mount_Steps.thy ===== *)
theory Mount_Steps
  imports Mount
begin

text \<open>
  What each request does to a mount, write-through or write-back: one lemma per request says that
  it is a step of the file system with a cache (\<open>cached_step\<close>) and which temporary files it
  touches. Flushes, where the modes differ, are only treated here as far as both share them.
\<close>

section \<open>Steps of a mount\<close>

definition upload_temp :: "os \<Rightarrow> string" where
  "upload_temp s = temp_name s [] ''s3gw-upload-*'' (files s)"

text \<open>
  No request but a flush touches a staged file, and an open file keeps its temporary file or is new.
\<close>

definition kernel_step :: "('db, 'w) mount \<Rightarrow> ('db, 'w) mount \<Rightarrow> bool" where
  "kernel_step m m' \<longleftrightarrow>
     (\<exists>A. local_step A (mt_ctx m) (mt_ctx m') \<and> (\<forall>p \<in> A. \<not> staged_name p)) \<and>
     (\<forall>i h'. map_of (mt_handles m') i = Some h' \<longrightarrow>
        h_tmpFile h' = OpenFile (upload_temp (bx_os (mt_ctx m))) \<or>
        (\<exists>h. map_of (mt_handles m) i = Some h \<and> h_tmpFile h' = h_tmpFile h))"

definition simulated :: "('w \<Rightarrow> s3_content) \<Rightarrow> string set \<Rightarrow> fs_req \<Rightarrow> fs_reply \<Rightarrow> ('db, 'w) mount \<Rightarrow> ('db, 'w) mount \<Rightarrow> bool" where
  "simulated objs K r out m m' \<longleftrightarrow>
     base_ok objs K m' \<and> cached_step r out (cfs_abs objs K m) (cfs_abs objs K m') \<and> kernel_step m m'"

lemma simulatedI:
  "base_ok objs K m' \<and> kernel_step m m' \<and> cfs_abs objs K m' = a' \<Longrightarrow> cached_step r out (cfs_abs objs K m) a' \<Longrightarrow>
     simulated objs K r out m m'"
  by (simp add: simulated_def)

lemma cfs_eqI: "fs_objs a = fs_objs b \<Longrightarrow> fs_open a = fs_open b \<Longrightarrow> fs_view a = fs_view b \<Longrightarrow> (a :: cfs) = b"
  by simp

text \<open>A step that leaves the open files alone.\<close>

lemma ctx_step:
  assumes "base_ok objs K m" and "local_step {} (mt_ctx m) x'"
  shows "base_ok objs K (m\<lparr>mt_ctx := x'\<rparr>) \<and> kernel_step m (m\<lparr>mt_ctx := x'\<rparr>) \<and>
    cfs_abs objs K (m\<lparr>mt_ctx := x'\<rparr>) = (cfs_abs objs K m)\<lparr>fs_objs := objs_abs objs x', fs_view := view K x'\<rparr>"
proof -
  note o = open_same [OF base_okD(2) [OF assms(1)] assms(2)]
  have "base_ok objs K (m\<lparr>mt_ctx := x'\<rparr>)"
    using o ctx_base_step [OF base_okD(1) [OF assms(1)] assms(2)] by (simp add: base_ok_def)
  moreover have "kernel_step m (m\<lparr>mt_ctx := x'\<rparr>)" using assms(2) by (auto simp: kernel_step_def)
  ultimately show ?thesis using o by (simp add: cfs_abs_def)
qed

text \<open>A step at one open file.\<close>

lemma handle_step:
  assumes "base_ok objs K m" and "local_step A (mt_ctx m) x'" and "\<forall>p \<in> A. \<not> staged_name p"
    and "map_of hs = (map_of (mt_handles m))(i := oh)"
    and "\<And>j h. j \<noteq> i \<Longrightarrow> map_of (mt_handles m) j = Some h \<Longrightarrow> h_tmpFile h \<notin> OpenFile ` A"
    and "\<And>h. oh = Some h \<Longrightarrow> handle_ok K x' h"
    and "\<And>h j h'. oh = Some h \<Longrightarrow> j \<noteq> i \<Longrightarrow> map_of (mt_handles m) j = Some h' \<Longrightarrow> h_tmpFile h' \<noteq> h_tmpFile h"
    and "\<And>h. oh = Some h \<Longrightarrow> h_tmpFile h = OpenFile (upload_temp (bx_os (mt_ctx m))) \<or>
      (\<exists>h0. map_of (mt_handles m) i = Some h0 \<and> h_tmpFile h = h_tmpFile h0)"
  shows "base_ok objs K (m\<lparr>mt_ctx := x', mt_handles := hs\<rparr>) \<and> kernel_step m (m\<lparr>mt_ctx := x', mt_handles := hs\<rparr>) \<and>
    cfs_abs objs K (m\<lparr>mt_ctx := x', mt_handles := hs\<rparr>) =
      \<lparr>fs_objs = objs_abs objs x',
       fs_open = (fs_open (cfs_abs objs K m))(i := map_option (\<lambda>h. (h_key h, tmp_contents (h_tmpFile h) (bx_os x'), h_dirty h)) oh),
       fs_view = view K x'\<rparr>"
proof -
  let ?m' = "m\<lparr>mt_ctx := x', mt_handles := hs\<rparr>"
  have o: "open_ok K x' (map_of hs) \<and> open_abs x' (map_of hs) = (open_abs (mt_ctx m) (map_of (mt_handles m)))
      (i := map_option (\<lambda>h. (h_key h, tmp_contents (h_tmpFile h) (bx_os x'), h_dirty h)) oh)"
    by (rule open_step [OF base_okD(2) [OF assms(1)] assms(2,4)]) (use assms(5-7) in auto)
  have "base_ok objs K ?m'"
    using o ctx_base_step [OF base_okD(1) [OF assms(1)] assms(2)] by (simp add: base_ok_def)
  moreover have "kernel_step m ?m'"
    unfolding kernel_step_def
  proof (intro conjI allI impI exI)
    show "local_step A (mt_ctx m) (mt_ctx ?m')" using assms(2) by simp
    show "\<forall>p \<in> A. \<not> staged_name p" by (rule assms(3))
  next
    fix j h' assume "map_of (mt_handles ?m') j = Some h'"
    then show "h_tmpFile h' = OpenFile (upload_temp (bx_os (mt_ctx m))) \<or>
        (\<exists>h. map_of (mt_handles m) j = Some h \<and> h_tmpFile h' = h_tmpFile h)"
      using assms(8) [of h'] by (simp add: assms(4) split: if_splits)
  qed
  ultimately show ?thesis using o by (simp add: cfs_abs_def)
qed

text \<open>Nothing changes but the catalog and the part of the world that is not objects.\<close>

definition unseen :: "('w \<Rightarrow> s3_content) \<Rightarrow> ('db, 'w) bucketCtx \<Rightarrow> ('db, 'w) bucketCtx \<Rightarrow> bool" where
  "unseen objs x x' \<longleftrightarrow> local_step {} x x' \<and> bx_os x' = bx_os x \<and> objs (bx_world x') = objs (bx_world x)"

lemma unseen_step:
  assumes "base_ok objs K m" and "unseen objs (mt_ctx m) x'" and "m' = m\<lparr>mt_ctx := x'\<rparr>"
    and "cached_step r out (cfs_abs objs K m) (cfs_abs objs K m)"
  shows "simulated objs K r out m m'"
proof -
  have st: "local_step {} (mt_ctx m) x'" using assms(2) by (simp add: unseen_def)
  have "view K x' = view K (mt_ctx m)" by (rule view_cong [OF st]) (use assms(2) in \<open>simp add: unseen_def\<close>)
  moreover have "objs_abs objs x' = objs_abs objs (mt_ctx m)"
    by (rule objs_abs_cong) (use assms(2) in \<open>simp_all add: unseen_def local_step_def\<close>)
  ultimately have "cfs_abs objs K m' = cfs_abs objs K m"
    using ctx_step [OF assms(1) st] by (simp add: assms(3)) (simp add: cfs_abs_def)
  with ctx_step [OF assms(1) st] assms(3,4) show ?thesis by (simp add: simulated_def)
qed

section \<open>Opening, creating, writing, releasing\<close>

text \<open>Only one temporary file changes.\<close>

lemma tmp_file_step:
  assumes "ctx_base objs K x" and "temp_path p" and "\<And>q. q \<noteq> p \<Longrightarrow> fmlookup F q = fmlookup (files (bx_os x)) q"
  shows "local_step {p} x (x\<lparr>bx_os := (bx_os x)\<lparr>files := F\<rparr>\<rparr>)" and "view K (x\<lparr>bx_os := (bx_os x)\<lparr>files := F\<rparr>\<rparr>) = view K x"
proof -
  show st: "local_step {p} x (x\<lparr>bx_os := (bx_os x)\<lparr>files := F\<rparr>\<rparr>)"
    using ctx_baseD(5) [OF assms(1)] assms(3) by (simp add: local_step_def cm_ok_def)
  show "view K (x\<lparr>bx_os := (bx_os x)\<lparr>files := F\<rparr>\<rparr>) = view K x"
    by (rule view_cong [OF st]) (use assms(3) [OF temp_path_ds_Path [OF assms(2), symmetric]] in simp)
qed

lemma newHandle_disk:
  assumes "ctx_base objs K x"
  shows "newHandle f x =
      (Inr \<lparr>h_s3 = bx_s3 x, h_bucket = bx_bucket x, h_key = fn_key f, h_ttl = bx_ttl x,
            h_soleWriter = bx_soleWriter x, h_tmpFile = OpenFile (upload_temp (bx_os x)), h_dirty = False\<rparr>,
       x\<lparr>bx_os := (bx_os x)\<lparr>files := fmupd (upload_temp (bx_os x)) [] (files (bx_os x))\<rparr>\<rparr>)"
  using ctx_baseD(4) [OF assms] by (simp add: newHandle_def os_CreateTemp_def Let_def upload_temp_def)

text \<open>No open handle has a fresh file.\<close>

lemma fresh_not_open:
  "open_ok K x hs \<Longrightarrow> fmlookup (files (bx_os x)) p = None \<Longrightarrow> hs j = Some h \<Longrightarrow> h_tmpFile h \<noteq> OpenFile p"
  using open_okD(1) [of K x hs j h] by (auto simp: handle_ok_def)

text \<open>A new handle is entered, after other changes to the context that do not concern files.\<close>

lemma new_handle_step:
  assumes "base_ok objs K m" and "p = upload_temp (bx_os (mt_ctx m))"
    and "x' = (mt_ctx m)\<lparr>bx_os := (bx_os (mt_ctx m))\<lparr>files := fmupd p [] (files (bx_os (mt_ctx m)))\<rparr>, bx_catalog := cat\<rparr>"
    and "h_s3 h = bx_s3 (mt_ctx m)" "h_bucket h = bx_bucket (mt_ctx m)" "h_key h \<in> K" "h_tmpFile h = OpenFile p"
    and "m' = m\<lparr>mt_ctx := x', mt_handles := AList.update i h (mt_handles m)\<rparr>"
  shows "base_ok objs K m' \<and> kernel_step m m' \<and>
    cfs_abs objs K m' = (cfs_abs objs K m)\<lparr>fs_open := (fs_open (cfs_abs objs K m))(i \<mapsto> (h_key h, [], h_dirty h))\<rparr>"
proof -
  let ?x = "mt_ctx m"
  note ctx = base_okD(1) [OF assms(1)]
  note t = ctx_baseD(6) [OF ctx]
  have p: "temp_path p" "\<not> staged_name p" "fmlookup (files (bx_os ?x)) p = None"
    using temp_path_upload [OF t] upload_temp_not_staged [OF t] upload_temp_fresh [OF t] by (simp_all add: assms(2) upload_temp_def)
  let ?x1 = "?x\<lparr>bx_os := (bx_os ?x)\<lparr>files := fmupd p [] (files (bx_os ?x))\<rparr>\<rparr>"
  note tmp = tmp_file_step [OF ctx p(1), of "fmupd p [] (files (bx_os ?x))"]
  have x': "x' = ?x1\<lparr>bx_catalog := cat\<rparr>" by (simp add: assms(3))
  have st: "local_step {p} ?x x'" and vw: "view K x' = view K ?x"
    using tmp unfolding x' by (simp_all add: local_step_def)
  have h: "handle_ok K x' h" using p assms(4-7) by (simp add: handle_ok_def assms(3))
  have other: "h_tmpFile h' \<noteq> OpenFile p" if "map_of (mt_handles m) j = Some h'" for j h'
    using fresh_not_open [OF base_okD(2) [OF assms(1)] p(3) that] .
  have mp: "map_of (AList.update i h (mt_handles m)) = (map_of (mt_handles m))(i := Some h)" by (simp add: update_conv')
  have ns: "\<forall>q \<in> {p}. \<not> staged_name q" using p(2) by simp
  have "base_ok objs K m' \<and> kernel_step m m' \<and> cfs_abs objs K m' =
      \<lparr>fs_objs = objs_abs objs x',
       fs_open = (fs_open (cfs_abs objs K m))(i := map_option (\<lambda>h. (h_key h, tmp_contents (h_tmpFile h) (bx_os x'), h_dirty h)) (Some h)),
       fs_view = view K x'\<rparr>"
    unfolding assms(8)
    by (rule handle_step [OF assms(1) st ns mp]) (use h other assms(2,7) in auto)
  moreover have "tmp_contents (h_tmpFile h) (bx_os x') = []" by (simp add: assms(3,7) tmp_contents_OpenFile)
  moreover have "objs_abs objs x' = objs_abs objs ?x" by (rule objs_abs_cong) (simp_all add: assms(3))
  ultimately show ?thesis using vw by (simp add: cfs_abs_def)
qed

lemma simulates_open:
  assumes "base_ok objs K m" and "legal_req K (now, FsOpen i f)" and "mount_do (now, FsOpen i f) m = (out, m')"
  shows "simulated objs K (FsOpen i f) out m m'"
proof -
  let ?x = "mt_ctx m"
  let ?p = "upload_temp (bx_os ?x)"
  let ?x' = "?x\<lparr>bx_os := (bx_os ?x)\<lparr>files := fmupd ?p [] (files (bx_os ?x))\<rparr>\<rparr>"
  let ?h = "\<lparr>h_s3 = bx_s3 ?x, h_bucket = bx_bucket ?x, h_key = fn_key f, h_ttl = bx_ttl ?x,
    h_soleWriter = bx_soleWriter ?x, h_tmpFile = OpenFile ?p, h_dirty = False\<rparr>"
  have o: "out = Done" "m' = m\<lparr>mt_ctx := ?x'\<lparr>bx_catalog := bx_catalog ?x\<rparr>, mt_handles := AList.update i ?h (mt_handles m)\<rparr>"
    using assms(3) newHandle_disk [OF base_okD(1) [OF assms(1)], of f] by (simp_all add: fn_Open_def answer_def)
  have x': "?x'\<lparr>bx_catalog := bx_catalog ?x\<rparr> =
      ?x\<lparr>bx_os := (bx_os ?x)\<lparr>files := fmupd ?p [] (files (bx_os ?x))\<rparr>, bx_catalog := bx_catalog ?x\<rparr>"
    by simp
  show ?thesis
    by (rule simulatedI [OF new_handle_step [OF assms(1) refl x' _ _ _ _ o(2)]])
      (use assms(2) o(1) in \<open>simp_all add: fs.truncate_def\<close>)
qed

lemma simulates_create:
  assumes "base_ok objs K m" and "legal_req K (now, FsCreate i d name)" and "mount_do (now, FsCreate i d name) m = (out, m')"
  shows "simulated objs K (FsCreate i d name) out m m'"
proof -
  let ?x = "mt_ctx m" and ?k = "dn_prefix d @ name"
  let ?f = "\<lparr>fn_key = ?k, fn_size = 0, fn_etag = [], fn_mtime = now\<rparr>"
  let ?p = "upload_temp (bx_os ?x)"
  let ?x' = "?x\<lparr>bx_os := (bx_os ?x)\<lparr>files := fmupd ?p [] (files (bx_os ?x))\<rparr>\<rparr>"
  let ?h = "\<lparr>h_s3 = bx_s3 ?x, h_bucket = bx_bucket ?x, h_key = ?k, h_ttl = bx_ttl ?x,
    h_soleWriter = bx_soleWriter ?x, h_tmpFile = OpenFile ?p, h_dirty = True\<rparr>"
  let ?cat = "snd (cat_Put (bx_bucket ?x') (file_entry ?k 0 [] now) (bx_catalog ?x'))"
  have o: "out = Done" "m' = m\<lparr>mt_ctx := ?x'\<lparr>bx_catalog := ?cat\<rparr>, mt_handles := AList.update i ?h (mt_handles m)\<rparr>"
    using assms(3) newHandle_disk [OF base_okD(1) [OF assms(1)], of ?f]
    by (simp_all add: dn_Create_def ctx_catalog_Put_def Let_def)
  have x': "?x'\<lparr>bx_catalog := ?cat\<rparr> =
      ?x\<lparr>bx_os := (bx_os ?x)\<lparr>files := fmupd ?p [] (files (bx_os ?x))\<rparr>, bx_catalog := ?cat\<rparr>"
    by simp
  show ?thesis
    by (rule simulatedI [OF new_handle_step [OF assms(1) refl x' _ _ _ _ o(2)]])
      (use assms(2) o(1) in \<open>simp_all add: fs.truncate_def\<close>)
qed

text \<open>The open file a request names, with the part of the invariant about it.\<close>

lemma with_handle_cases:
  assumes "base_ok objs K m" and "with_handle i f m = (out, m')"
  obtains (closed) "out = Failed EINVAL" "m' = m" "fs_open (cfs_abs objs K m) i = None"
  | (opened) h p c where "map_of (mt_handles m) i = Some h" "f h = (out, m')" "h_s3 h = bx_s3 (mt_ctx m)"
      "h_bucket h = bx_bucket (mt_ctx m)" "h_key h \<in> K" "h_tmpFile h = OpenFile p" "temp_path p" "\<not> staged_name p"
      "fmlookup (files (bx_os (mt_ctx m))) p = Some c" "fs_open (cfs_abs objs K m) i = Some (h_key h, c, h_dirty h)"
proof (cases "map_of (mt_handles m) i")
  case None
  with assms(2) show thesis by (intro closed) (simp_all add: with_handle_def cfs_abs_def open_abs_def)
next
  case (Some h)
  note ok = open_okD(1) [OF base_okD(2) [OF assms(1)] Some]
  then obtain p c where "h_tmpFile h = OpenFile p" "temp_path p" "\<not> staged_name p" "fmlookup (files (bx_os (mt_ctx m))) p = Some c"
    by (auto simp: handle_ok_def)
  with ok assms(2) Some show thesis
    by (intro opened [of h p c]) (simp_all add: with_handle_def handle_ok_def cfs_abs_def open_abs_def tmp_contents_OpenFile)
qed

lemma kernel_step_refl: "base_ok objs K m \<Longrightarrow> kernel_step m m"
  using local_step_refl [OF ctx_baseD(5) [OF base_okD(1)], of objs K m "{}"] by (auto simp: kernel_step_def)

text \<open>A request that does nothing.\<close>

lemma simulated_refl: "base_ok objs K m \<Longrightarrow> cached_step r out (cfs_abs objs K m) (cfs_abs objs K m) \<Longrightarrow> simulated objs K r out m m"
  by (simp add: simulated_def kernel_step_refl)

text \<open>An open handle is updated and keeps its file.\<close>

lemma update_step:
  assumes "base_ok objs K m" and "map_of (mt_handles m) i = Some h0" and "h_tmpFile h0 = OpenFile p"
    and "local_step {p} (mt_ctx m) x'" and "fmlookup (files (bx_os x')) p = Some c"
    and "h_s3 h = h_s3 h0" "h_bucket h = h_bucket h0" "h_key h = h_key h0" "h_tmpFile h = h_tmpFile h0"
    and "m' = m\<lparr>mt_ctx := x', mt_handles := AList.update i h (mt_handles m)\<rparr>"
  shows "base_ok objs K m' \<and> kernel_step m m' \<and> cfs_abs objs K m' =
    \<lparr>fs_objs = objs_abs objs x', fs_open = (fs_open (cfs_abs objs K m))(i \<mapsto> (h_key h0, c, h_dirty h)), fs_view = view K x'\<rparr>"
proof -
  note op = base_okD(2) [OF assms(1)]
  note h0 = open_okD(1) [OF op assms(2)]
  have h: "handle_ok K x' h"
    using h0 assms(3,4-9) by (simp add: handle_ok_def local_step_def)
  have other: "h_tmpFile h' \<noteq> OpenFile p" if "j \<noteq> i" "map_of (mt_handles m) j = Some h'" for j h'
    using open_okD(2) [OF op assms(2) that(2)] that(1) assms(3) by auto
  have ns: "\<forall>q \<in> {p}. \<not> staged_name q" using h0 assms(3) by (simp add: handle_ok_def)
  have mp: "map_of (AList.update i h (mt_handles m)) = (map_of (mt_handles m))(i := Some h)" by (simp add: update_conv')
  have "base_ok objs K m' \<and> kernel_step m m' \<and> cfs_abs objs K m' =
      \<lparr>fs_objs = objs_abs objs x',
       fs_open = (fs_open (cfs_abs objs K m))(i := map_option (\<lambda>h. (h_key h, tmp_contents (h_tmpFile h) (bx_os x'), h_dirty h)) (Some h)),
       fs_view = view K x'\<rparr>"
    unfolding assms(10)
    by (rule handle_step [OF assms(1,4) ns mp]) (use h other assms(2,3,9) in auto)
  then show ?thesis using assms(3,5,8,9) by (simp add: tmp_contents_OpenFile)
qed

lemma simulates_write:
  assumes "base_ok objs K m" and "mount_do (now, FsWrite i d off) m = (out, m')"
  shows "simulated objs K (FsWrite i d off) out m m'"
proof -
  let ?x = "mt_ctx m"
  note ctx = base_okD(1) [OF assms(1)]
  note ok = ctx_baseD [OF ctx]
  show ?thesis
    using assms(1) assms(2) [unfolded mount_do.simps]
  proof (cases rule: with_handle_cases)
    case closed
    with assms(1) show ?thesis by (simp add: simulated_refl)
  next
    case (opened h p c)
    have c: "tmp_contents (OpenFile p) (bx_os ?x) = c" using opened(9) by (simp add: tmp_contents_OpenFile)
    show ?thesis
    proof (cases "0 \<le> off")
      case False
      then have o: "out = Failed EIO" "m' = m\<lparr>mt_ctx := ?x, mt_handles := AList.update i h (mt_handles m)\<rparr>"
        using opened(2,6) by (simp_all add: h_Write_def tmp_WriteAt_def answer_def)
      note u = update_step [OF assms(1) opened(1,6) local_step_refl [OF ok(5)] opened(9) refl refl refl refl o(2)]
      then have "cfs_abs objs K m' = cfs_abs objs K m"
        using opened(10) by (auto intro!: cfs_eqI) (simp_all add: cfs_abs_def)
      with u o(1) show ?thesis by (simp add: simulated_def)
    next
      case True
      let ?F = "fmupd p (write_at c d (nat off)) (files (bx_os ?x))"
      let ?x' = "?x\<lparr>bx_os := (bx_os ?x)\<lparr>files := ?F\<rparr>\<rparr>"
      let ?h = "h\<lparr>h_dirty := True\<rparr>"
      have "h_Write h d off ?x = ((take_bit 32 (int (length d)), OK), ?h, ?x')"
        using h_Write_ok [OF opened(6) disk_okD [OF ok(4)] True] by (simp only: c)
      then have o: "out = Done" "m' = m\<lparr>mt_ctx := ?x', mt_handles := AList.update i ?h (mt_handles m)\<rparr>"
        using opened(2) by (simp_all add: answer_def)
      have tmp: "local_step {p} ?x ?x'" "view K ?x' = view K ?x" using tmp_file_step [OF ctx opened(7), of ?F] by simp_all
      have "fmlookup (files (bx_os ?x')) p = Some (write_at c d (nat off))" by simp
      note u = update_step [OF assms(1) opened(1,6) tmp(1) this, where h = ?h and m' = m']
      have "objs_abs objs ?x' = objs_abs objs ?x" by (simp add: objs_abs_def)
      with u o True opened(10) tmp(2) show ?thesis
        by (auto simp: simulated_def fs.truncate_def) (simp_all add: cfs_abs_def)
    qed
  qed
qed

lemma simulates_release:
  assumes "base_ok objs K m" and "mount_do (now, FsRelease i) m = (out, m')"
  shows "simulated objs K (FsRelease i) out m m'"
proof -
  let ?x = "mt_ctx m"
  note ctx = base_okD(1) [OF assms(1)]
  note ok = ctx_baseD [OF ctx]
  show ?thesis
    using assms(1) assms(2) [unfolded mount_do.simps]
  proof (cases rule: with_handle_cases)
    case closed
    with assms(1) show ?thesis by (simp add: simulated_refl)
  next
    case (opened h p c)
    let ?F = "fmdrop p (files (bx_os ?x))"
    let ?x' = "?x\<lparr>bx_os := (bx_os ?x)\<lparr>files := ?F\<rparr>\<rparr>"
    let ?hs = "AList.delete i (mt_handles m)"
    have o: "out = Done" "m' = m\<lparr>mt_ctx := ?x', mt_handles := ?hs\<rparr>"
      using opened(2,6,9) ok(4) by (simp_all add: h_Release_def os_Remove_def answer_def)
    have other: "h_tmpFile h' \<notin> OpenFile ` {p}" if "j \<noteq> i" "map_of (mt_handles m) j = Some h'" for j h'
      using open_okD(2) [OF base_okD(2) [OF assms(1)] opened(1) that(2)] that(1) opened(6) by auto
    have mp: "map_of ?hs = (map_of (mt_handles m))(i := None)" by (simp add: delete_conv')
    have tmp: "local_step {p} ?x ?x'" "view K ?x' = view K ?x" using tmp_file_step [OF ctx opened(7), of ?F] by simp_all
    have ns: "\<forall>q \<in> {p}. \<not> staged_name q" using opened(8) by simp
    note u = handle_step [OF assms(1) tmp(1) ns mp other]
    have "objs_abs objs ?x' = objs_abs objs ?x" by (simp add: objs_abs_def)
    with u o tmp(2) show ?thesis
      by (simp add: simulated_def fs.truncate_def) (simp add: cfs_abs_def)
  qed
qed


section \<open>Directories\<close>

lemma local_step_world: "local_step A x y \<Longrightarrow> local_step A x (y\<lparr>bx_world := w\<rparr>)"
  and local_step_catalog: "local_step A x y \<Longrightarrow> local_step A x (y\<lparr>bx_catalog := cat\<rparr>)"
  by (simp_all add: local_step_def)

lemma ctx_catalog_steps:
  "local_step A x y \<Longrightarrow> local_step A x (ctx_catalog_Put e y)"
  "local_step A x y \<Longrightarrow> local_step A x (ctx_catalog_Delete k y)"
  "local_step A x y \<Longrightarrow> local_step A x (ctx_catalog_DeletePrefix p y)"
  by (simp_all add: local_step_catalog ctx_catalog_Put_def ctx_catalog_Delete_def ctx_catalog_DeletePrefix_def)

lemma Invalidate_step:
  "local_step A x y \<Longrightarrow> local_step A x (ctx_cache_Invalidate k y)"
  by (rule local_step_trans [OF _ ctx_cache_Invalidate_step]) (simp_all add: local_step_def)

lemmas steps = local_step_world local_step_catalog ctx_catalog_steps Invalidate_step local_step_refl

lemma view_catalog [simp]:
  "view K (ctx_catalog_Put e x) = view K x" "view K (ctx_catalog_Delete k x) = view K x"
  "view K (ctx_catalog_DeletePrefix p x) = view K x"
  by (simp_all add: ctx_catalog_Put_def ctx_catalog_Delete_def ctx_catalog_DeletePrefix_def)

lemma objs_abs_frames [simp]:
  "objs_abs objs (ctx_catalog_Put e x) = objs_abs objs x" "objs_abs objs (ctx_catalog_Delete k x) = objs_abs objs x"
  "objs_abs objs (ctx_catalog_DeletePrefix p x) = objs_abs objs x" "objs_abs objs (ctx_cache_Invalidate k x) = objs_abs objs x"
  "objs_abs objs (ctx_cache_Put k src meta now x) = objs_abs objs x"
  by (simp_all add: objs_abs_def)

lemma view_Invalidate:
  assumes "ctx_base objs K x" and "k \<in> K"
  shows "view K (ctx_cache_Invalidate k x) = (view K x)(k := None)"
proof -
  note ok = ctx_baseD [OF assms(1)]
  have st: "local_step {} x (ctx_cache_Invalidate k x)" by (rule ctx_cache_Invalidate_step [OF ok(5)])
  have "view K (ctx_cache_Invalidate k x) = (view K x)(k :=
      fmlookup (files (bx_os (ctx_cache_Invalidate k x))) (ds_Path (cm_store (bx_cache x)) (bx_bucket x) k))"
    by (rule view_upd [OF ok(7) assms(2) st]) (simp add: ctx_cache_Invalidate_files)
  then show ?thesis using ok(4) by (simp add: ctx_cache_Invalidate_files)
qed

lemma unseen_world:
  "cm_ok (bx_cache x) (bx_os x) \<Longrightarrow> objs w = objs (bx_world x) \<Longrightarrow> unseen objs x (x\<lparr>bx_world := w\<rparr>)"
  by (simp add: unseen_def steps)

lemma simulates_unlink:
  assumes "base_ok objs K m" and "legal_req K (now, FsUnlink d name)" and "mount_do (now, FsUnlink d name) m = (out, m')"
  shows "simulated objs K (FsUnlink d name) out m m'"
proof -
  let ?x = "mt_ctx m" and ?k = "dn_prefix d @ name"
  note ctx = base_okD(1) [OF assms(1)]
  note ok = ctx_baseD [OF ctx]
  obtain r w where dl: "DeleteObject (bx_s3 ?x) ?k (bx_world ?x) = (r, w)" by (metis surj_pair)
  show ?thesis
  proof (cases r)
    case (Some e)
    then have o: "out = Failed (TranslateError (Some e))" "m' = m\<lparr>mt_ctx := ?x\<lparr>bx_world := w\<rparr>\<rparr>"
      using assms(3) dl by (simp_all add: dn_Unlink_def answer_def Let_def)
    show ?thesis
      by (rule unseen_step [OF assms(1) unseen_world o(2)]) (use o(1) ok(5) s3_atomicD(2) [OF ok(2) dl [unfolded Some]] in simp_all)
  next
    case None
    let ?x1 = "?x\<lparr>bx_world := w\<rparr>"
    let ?x' = "ctx_catalog_Delete ?k (ctx_cache_Invalidate ?k ?x1)"
    have o: "out = Done" "m' = m\<lparr>mt_ctx := ?x'\<rparr>"
      using assms(3) dl None by (simp_all add: dn_Unlink_def answer_def Let_def)
    have st: "local_step {} ?x ?x'" using ok(5) by (intro steps)
    have "objs_abs objs ?x1 = (objs_abs objs ?x)(?k := None)"
      by (rule objs_abs_upd(2)) (use DeleteObject_content(1) [OF ok(1) dl None] in simp_all)
    moreover have "view K ?x' = (view K ?x)(?k := None)"
      using view_Invalidate [of objs K ?x1 ?k] ctx_base_step [OF ctx local_step_world [OF local_step_refl [OF ok(5)]]] assms(2) by simp
    ultimately show ?thesis
      using ctx_step [OF assms(1) st] o by (simp add: simulated_def) (simp add: cfs_abs_def)
  qed
qed

lemma simulates_rename:
  assumes "base_ok objs K m" and "legal_req K (now, FsRename d name p newName)"
    and "mount_do (now, FsRename d name p newName) m = (out, m')"
  shows "simulated objs K (FsRename d name p newName) out m m'"
proof -
  let ?x = "mt_ctx m" and ?src = "dn_prefix d @ name" and ?dst = "dn_prefix p @ newName"
  note ctx = base_okD(1) [OF assms(1)]
  note ok = ctx_baseD [OF ctx]
  obtain r w where cp: "CopyObject (bx_s3 ?x) ?src ?dst (bx_world ?x) = (r, w)" by (metis surj_pair)
  show ?thesis
  proof (cases r)
    case (Some e)
    then have o: "out = Failed (TranslateError (Some e))" "m' = m\<lparr>mt_ctx := ?x\<lparr>bx_world := w\<rparr>\<rparr>"
      using assms(3) cp by (simp_all add: dn_Rename_def answer_def Let_def)
    show ?thesis
      by (rule unseen_step [OF assms(1) unseen_world o(2)]) (use o(1) ok(5) s3_atomicD(3) [OF ok(2) cp [unfolded Some]] in simp_all)
  next
    case None
    obtain r2 w2 where dl: "DeleteObject (bx_s3 ?x) ?src w = (r2, w2)" by (metis surj_pair)
    let ?x1 = "?x\<lparr>bx_world := w2\<rparr>"
    let ?x' = "ctx_catalog_Delete ?dst (ctx_catalog_Delete ?src (ctx_cache_Invalidate ?dst (ctx_cache_Invalidate ?src ?x1)))"
    have o: "out = Done" "m' = m\<lparr>mt_ctx := ?x'\<rparr>"
      using assms(3) cp dl None by (simp_all add: dn_Rename_def answer_def Let_def)
    have st: "local_step {} ?x ?x'" using ok(5) by (intro steps)
    have b1: "ctx_base objs K ?x1" by (rule ctx_base_step [OF ctx local_step_world [OF local_step_refl [OF ok(5)]]])
    have b2: "ctx_base objs K (ctx_cache_Invalidate ?src ?x1)"
      by (rule ctx_base_step [OF b1 ctx_cache_Invalidate_step [OF ctx_baseD(5) [OF b1]]])
    have vw: "view K ?x' = (view K ?x)(?src := None, ?dst := None)"
      using view_Invalidate [OF b1, of ?src] view_Invalidate [OF b2, of ?dst] assms(2) by simp
    obtain c t t' where ob: "objs (bx_world ?x) (c_bucket (bx_s3 ?x), ?src) = Some (c, t)"
      "objs w = (objs (bx_world ?x))((c_bucket (bx_s3 ?x), ?dst) \<mapsto> (c, t'))"
      using CopyObject_content(1) [OF ok(1,3) cp None] by blast
    have w2: "objs w2 = objs w \<or> objs w2 = (objs w)((c_bucket (bx_s3 ?x), ?src) := None)"
      using DeleteObject_content(2) [OF ok(1) dl] .
    have "objs_abs objs ?x ?src = Some c" using ob(1) by (simp add: objs_abs_def)
    moreover have "objs_abs objs ?x1 \<in> {(objs_abs objs ?x)(?dst \<mapsto> c, ?src := None), (objs_abs objs ?x)(?dst \<mapsto> c)}"
      using w2 ob(2) by (auto simp: objs_abs_def fun_eq_iff)
    ultimately show ?thesis
      using ctx_step [OF assms(1) st] o vw by (simp add: simulated_def) (auto simp: cfs_abs_def fs_abs_def fs.truncate_def)
  qed
qed

lemma simulates_mkdir:
  assumes "base_ok objs K m" and "mount_do (now, FsMkdir d name) m = (out, m')"
  shows "simulated objs K (FsMkdir d name) out m m'"
proof -
  let ?x = "mt_ctx m" and ?k = "dn_prefix d @ name @ ''/''"
  note ok = ctx_baseD [OF base_okD(1) [OF assms(1)]]
  obtain r w where pt: "PutObject (bx_s3 ?x) ?k [] 0 (bx_world ?x) = (r, w)" by (metis surj_pair)
  show ?thesis
  proof (cases r)
    case (Inl e)
    then have o: "out = Failed (TranslateError (Some e))" "m' = m\<lparr>mt_ctx := ?x\<lparr>bx_world := w\<rparr>\<rparr>"
      using assms(2) pt by (simp_all add: dn_Mkdir_def Let_def)
    show ?thesis
      by (rule unseen_step [OF assms(1) unseen_world o(2)]) (use o(1) ok(5) s3_atomicD(1) [OF ok(2) pt [unfolded Inl]] in simp_all)
  next
    case (Inr meta)
    let ?x1 = "?x\<lparr>bx_world := w\<rparr>"
    let ?x' = "ctx_catalog_Put (ingest_prefix ?k) ?x1"
    have o: "out = Done" "m' = m\<lparr>mt_ctx := ?x'\<rparr>"
      using assms(2) pt Inr by (simp_all add: dn_Mkdir_def Let_def)
    have st: "local_step {} ?x ?x'" using ok(5) by (intro steps)
    have "objs_abs objs ?x1 = (objs_abs objs ?x)(?k \<mapsto> [])"
      by (rule objs_abs_upd(1) [of _ _ _ _ _ "om_ETag meta"]) (use PutObject_content(1) [OF ok(1) pt Inr] in simp_all)
    then show ?thesis
      using ctx_step [OF assms(1) st] o by (simp add: simulated_def) (simp add: cfs_abs_def fs_abs_def fs.truncate_def)
  qed
qed

lemma simulates_rmdir:
  assumes "base_ok objs K m" and "mount_do (now, FsRmdir d name) m = (out, m')"
  shows "simulated objs K (FsRmdir d name) out m m'"
proof -
  let ?x = "mt_ctx m" and ?k = "dn_prefix d @ name @ ''/''"
  note ok = ctx_baseD [OF base_okD(1) [OF assms(1)]]
  obtain r w where ls: "ListObjects (bx_s3 ?x) ?k ''/'' None (bx_world ?x) = (r, w)" by (metis surj_pair)
  obtain r2 w2 where dl: "DeleteObject (bx_s3 ?x) ?k w = (r2, w2)" by (metis surj_pair)
  note w = ListObjects_content(1) [OF ok(1) ls]
  let ?x1 = "?x\<lparr>bx_world := w2\<rparr>"
  let ?x' = "ctx_catalog_DeletePrefix ?k ?x1"
  consider (failed) e w' where "e \<noteq> OK" "out = Failed e" "m' = m\<lparr>mt_ctx := ?x\<lparr>bx_world := w'\<rparr>\<rparr>" "objs w' = objs (bx_world ?x)"
    | (removed) "r2 = None" "out = Done" "m' = m\<lparr>mt_ctx := ?x'\<rparr>"
  proof (cases r)
    case (Inl e)
    with assms(2) ls w show thesis
      by (intro failed [of "TranslateError (Some e)" w]) (simp_all add: dn_Rmdir_def answer_def Let_def)
  next
    case (Inr res)
    show thesis
    proof (cases "list_ex (\<lambda>obj. oe_Key obj \<noteq> ?k) (lr_Objects res) \<or> length (lr_CommonPrefixes res) > 0")
      case True
      with assms(2) ls w Inr show thesis
        by (intro failed [of ENOTEMPTY w]) (auto simp: dn_Rmdir_def answer_def Let_def)
    next
      case False
      show thesis
      proof (cases r2)
        case None
        with assms(2) ls dl Inr False show thesis
          by (intro removed) (simp_all add: dn_Rmdir_def answer_def Let_def)
      next
        case (Some e)
        with assms(2) ls dl Inr False w s3_atomicD(2) [OF ok(2) dl [unfolded Some]] show thesis
          by (intro failed [of "TranslateError (Some e)" w2]) (simp_all add: dn_Rmdir_def answer_def Let_def)
      qed
    qed
  qed
  then show ?thesis
  proof cases
    case failed
    show ?thesis
      by (rule unseen_step [OF assms(1) unseen_world failed(3)]) (use failed ok(5) in simp_all)
  next
    case removed
    have st: "local_step {} ?x ?x'" using ok(5) by (intro steps)
    have "objs_abs objs ?x1 = (objs_abs objs ?x)(?k := None)"
      by (rule objs_abs_upd(2)) (use DeleteObject_content(1) [OF ok(1) dl removed(1)] w in simp_all)
    then show ?thesis
      using ctx_step [OF assms(1) st] removed by (simp add: simulated_def) (simp add: cfs_abs_def fs_abs_def fs.truncate_def)
  qed
qed

text \<open>A lookup changes the catalog only.\<close>

lemma lookup_fallback_frame:
  assumes "s3_ok (c_inner (bx_s3 x)) objs" and "cm_ok (bx_cache x) (bx_os x)" and "lookup_fallback key now x = (r, x')"
  shows "unseen objs x x' \<and> r \<noteq> Inl OK"
proof -
  obtain r1 w where ls: "ListObjects (bx_s3 x) (key @ ''/'') ''/'' None (bx_world x) = (r1, w)" by (metis surj_pair)
  obtain r2 w2 where hd: "HeadObject (bx_s3 x) key w = (r2, w2)" by (metis surj_pair)
  note w = ListObjects_content(1) [OF assms(1) ls] HeadObject_content(1) [OF assms(1) hd]
  show ?thesis
    using assms(2,3) w
    by (auto simp: unseen_def lookup_fallback_def lookup_s3_def ls hd ingestListResult_def ctx_catalog_Put_def Let_def steps
        split: sum.splits if_splits)
qed

lemma simulates_lookup:
  assumes "base_ok objs K m" and "mount_do (now, FsLookup d name) m = (out, m')"
  shows "simulated objs K (FsLookup d name) out m m'"
proof -
  let ?x = "mt_ctx m"
  note ok = ctx_baseD [OF base_okD(1) [OF assms(1)]]
  obtain r x' where l: "dn_Lookup d name now ?x = (r, x')" by (metis surj_pair)
  have f: "unseen objs ?x x' \<and> r \<noteq> Inl OK"
    using l refl
  proof (cases rule: dn_Lookup_cases)
    case (fallback cat)
    let ?y = "?x\<lparr>bx_catalog := cat\<rparr>"
    have "s3_ok (c_inner (bx_s3 ?y)) objs" "cm_ok (bx_cache ?y) (bx_os ?y)" using ok(1,5) by simp_all
    from lookup_fallback_frame [OF this fallback] show ?thesis unfolding unseen_def local_step_def by (elim conjE) simp
  qed (use ok(5) in \<open>auto simp: unseen_def steps\<close>)
  have o: "out = (case r of Inl e \<Rightarrow> Failed e | Inr _ \<Rightarrow> Done)" "m' = m\<lparr>mt_ctx := x'\<rparr>"
    using assms(2) l by simp_all
  show ?thesis
    by (rule unseen_step [OF assms(1) _ o(2)]) (use f o(1) in \<open>auto split: sum.split\<close>)
qed

lemma simulates_evict:
  assumes "base_ok objs K m" and "mount_do (now, FsEvict) m = (out, m')"
  shows "simulated objs K FsEvict out m m'"
proof -
  let ?x = "mt_ctx m"
  obtain cm s where e: "run_triggered (bx_cache ?x) (bx_os ?x) = (cm, s)" by (metis surj_pair)
  let ?x' = "?x\<lparr>bx_cache := cm, bx_os := s\<rparr>"
  have o: "out = Done" "m' = m\<lparr>mt_ctx := ?x'\<rparr>" using assms(2) e by simp_all
  note f = run_triggered_frame [OF ctx_baseD(5) [OF base_okD(1) [OF assms(1)]] e]
  have st: "local_step {} ?x ?x'" using f by (auto simp: local_step_def)
  have "view K ?x' \<subseteq>\<^sub>m view K ?x" by (rule view_le [OF st]) (use f in auto)
  moreover have "objs_abs objs ?x' = objs_abs objs ?x" by (simp add: objs_abs_def)
  ultimately show ?thesis
    using ctx_step [OF assms(1) st] o by (simp add: simulated_def) (simp add: cfs_abs_def fs_abs_def fs.truncate_def)
qed

section \<open>Reading\<close>

text \<open>Only the cached copy of one key may change.\<close>

definition cache_step :: "string \<Rightarrow> ('db, 'w) bucketCtx \<Rightarrow> ('db, 'w) bucketCtx \<Rightarrow> bool" where
  "cache_step k x x' \<longleftrightarrow> local_step {} x x' \<and>
     (\<forall>q. q \<noteq> ds_Path (cm_store (bx_cache x)) (bx_bucket x) k \<longrightarrow> fmlookup (files (bx_os x')) q = fmlookup (files (bx_os x)) q)"

lemma cache_step_trans: "cache_step k x y \<Longrightarrow> cache_step k y z \<Longrightarrow> cache_step k x z"
  using local_step_trans by (fastforce simp: cache_step_def local_step_def)

lemma cache_stepI:
  assumes "bx_s3 x' = bx_s3 x" "bx_bucket x' = bx_bucket x" "bx_writeBack x' = bx_writeBack x"
    "cm_store (bx_cache x') = cm_store (bx_cache x)" "fault (bx_os x') = fault (bx_os x)"
    "temp_name (bx_os x') = temp_name (bx_os x)" "cm_ok (bx_cache x') (bx_os x')"
    and "\<And>q. q \<noteq> ds_Path (cm_store (bx_cache x)) (bx_bucket x) k \<Longrightarrow> fmlookup (files (bx_os x')) q = fmlookup (files (bx_os x)) q"
  shows "cache_step k x x'"
  using assms by (simp add: cache_step_def local_step_def temp_path_ds_Path)

lemma downloadToCache_step:
  assumes "disk_ok (bx_os x)" and "cm_ok (bx_cache x) (bx_os x)" and "downloadToCache h now f x = (err, f', x')"
  shows "cache_step (h_key h) x x'"
proof -
  obtain r w where g: "GetObject (h_s3 h) (h_key h) (bx_world x) = (r, w)" by (metis surj_pair)
  let ?n = "temp_name (bx_os x) [] ''s3gw-cache-*'' (files (bx_os x))"
  have t: "temp_ok (bx_os x)" using assms(2) by (simp add: cm_ok_def)
  have fresh: "fmlookup (files (bx_os x)) ?n = None" using temp_fresh [OF t, of _ "[]" "''s3gw-cache-''"] by simp
  have n: "?n \<noteq> ds_Path ds b k" for ds b k by (rule cache_temp_not_cached [OF t])
  show ?thesis
  proof (cases r)
    case (Inl e)
    then have "x' = x\<lparr>bx_world := w\<rparr>" using assms(3) g by (simp add: downloadToCache_def)
    with assms(2) show ?thesis by (intro cache_stepI) simp_all
  next
    case (Inr out)
    obtain body berr meta where out: "out = (body, berr, meta)" by (metis prod_cases3)
    let ?s2 = "(bx_os x)\<lparr>files := fmupd ?n body (files (bx_os x))\<rparr>"
    have ct: "os_CreateTemp [] ''s3gw-cache-*'' (bx_os x) = (Inr ?n, (bx_os x)\<lparr>files := fmupd ?n [] (files (bx_os x))\<rparr>)"
      using assms(1) by (simp add: os_CreateTemp_def Let_def)
    have cp: "io_Copy ?n body berr ((bx_os x)\<lparr>files := fmupd ?n [] (files (bx_os x))\<rparr>) = (berr, ?s2)"
      using assms(1) by (simp add: io_Copy_def)
    have ok2: "disk_ok ?s2" "cm_ok (bx_cache x) ?s2" using assms(1,2) by (simp_all add: disk_ok_def cm_ok_def)
    show ?thesis
    proof (cases berr)
      case (Some e)
      then have x': "x' = x\<lparr>bx_world := w, bx_os := snd (os_Remove ?n ?s2)\<rparr>"
        using assms(3) g Inr out ct cp by (simp add: downloadToCache_def Let_def)
      have "temp_ok (snd (os_Remove ?n ?s2)) = temp_ok (bx_os x)" by (rule temp_ok_cong) simp
      with assms(1,2) show ?thesis
        unfolding x' by (intro cache_stepI) (simp_all add: os_Remove_files cm_ok_def fresh)
    next
      case None
      let ?x2 = "x\<lparr>bx_world := w, bx_os := ?s2\<rparr>"
      let ?x3 = "ctx_cache_Put (h_key h) (?n, body) meta now ?x2"
      have x': "x' = ?x3\<lparr>bx_os := snd (os_Remove ?n (bx_os ?x3))\<rparr>"
        using assms(3) g Inr out ct cp None by (simp add: downloadToCache_def Let_def)
      note p = ctx_cache_Put_disk [of ?x2, where k = "h_key h" and src = "(?n, body)" and meta = meta and now = now]
      have st: "local_step {} ?x2 ?x3" and fl: "files (bx_os ?x3) = fmupd (ds_Path (cm_store (bx_cache x)) (bx_bucket x) (h_key h)) body (files ?s2)"
        using p ok2 by simp_all
      have "temp_ok (snd (os_Remove ?n (bx_os ?x3))) = temp_ok (bx_os ?x3)" by (rule temp_ok_cong) simp
      with st assms(1) show ?thesis
        unfolding x' by (intro cache_stepI) (simp_all add: local_step_def os_Remove_files cm_ok_def fl fresh)
    qed
  qed
qed

lemma h_Read_step:
  assumes "ctx_base objs K x" and "h_s3 h = bx_s3 x" and "h_bucket h = bx_bucket x" and "\<not> h_dirty h"
    and "h_Read h n off now f x = (r, f', x')"
  shows "cache_step (h_key h) x x'"
proof -
  note ok = ctx_baseD [OF assms(1)]
  have s3: "s3_ok (c_inner (h_s3 h)) objs" using ok(1) assms(2) by simp
  obtain path entry valid err cm where g: "cm_Get (h_bucket h) (h_key h) (h_ttl h) (h_soleWriter h) now (bx_os x) (bx_cache x) =
      ((path, entry, valid, err), cm)"
    by (metis prod_cases4 surj_pair)
  let ?x1 = "x\<lparr>bx_cache := cm\<rparr>"
  have st1: "cache_step (h_key h) x ?x1"
    using cm_Get_store [OF g] cm_ok_Get [OF ok(5) g] by (intro cache_stepI) simp_all
  obtain rv x2 where rv: "revalidate h entry n off now ?x1 = (rv, x2)" by (metis surj_pair)
  have ok1: "cm_ok (bx_cache ?x1) (bx_os ?x1)" using cm_ok_Get [OF ok(5) g] by simp
  note f2 = revalidate_frame [OF s3 rv]
  have same: "bx_s3 x2 = bx_s3 ?x1 \<and> bx_writeBack x2 = bx_writeBack ?x1"
    using rv by (auto simp: revalidate_def remote_etag_def Let_def split: option.splits prod.splits if_splits sum.splits)
  have st2: "cache_step (h_key h) ?x1 x2"
    using f2 same revalidate_ok [OF ok1 rv] by (intro cache_stepI) simp_all
  have "x' = ?x1 \<or> x' = x2 \<or> (\<exists>rr ff. fetchFromS3AndCache h n off now f x2 = (rr, ff, x'))"
    using assms(4,5) g rv by (auto simp: h_Read_def Let_def split: sum.splits if_splits option.splits)
  then show ?thesis
  proof (elim disjE exE)
    fix rr ff assume "fetchFromS3AndCache h n off now f x2 = (rr, ff, x')"
    then obtain e f1 where "downloadToCache h now f x2 = (e, f1, x')"
      by (auto simp: fetchFromS3AndCache_def split: prod.splits option.splits sum.splits)
    from downloadToCache_step [OF _ _ this] st2 f2 ok(4) have "cache_step (h_key h) x2 x'"
      by (simp add: cache_step_def local_step_def)
    then show ?thesis by (rule cache_step_trans [OF cache_step_trans [OF st1 st2]])
  qed (use st1 st2 cache_step_trans in blast)+
qed

lemma cache_step_view:
  assumes "ctx_base objs K x" and "k \<in> K" and "cache_step k x x'"
  shows "view K x' = (view K x)(k := cached_data (bx_cache x') (bx_os x') (bx_bucket x) k)"
proof -
  have st: "local_step {} x x'" using assms(3) by (simp add: cache_step_def)
  have "view K x' = (view K x)(k := fmlookup (files (bx_os x')) (ds_Path (cm_store (bx_cache x)) (bx_bucket x) k))"
    by (rule view_upd [OF ctx_baseD(7) [OF assms(1)] assms(2) st]) (use assms(3) in \<open>simp add: cache_step_def\<close>)
  then show ?thesis using st by (simp add: cached_data_def local_step_def)
qed

text \<open>A clean read, seen from outside.\<close>

lemma clean_read:
  assumes "ctx_base objs K x" and "h_s3 h = bx_s3 x" and "h_bucket h = bx_bucket x" and "h_key h \<in> K" and "\<not> h_dirty h"
    and "h_Read h n off now f x = (r, f', x')"
  shows "local_step {} x x' \<and> objs_abs objs x' = objs_abs objs x \<and>
    (view K x' = view K x \<or> objs_abs objs x (h_key h) \<noteq> None \<and> view K x' = (view K x)(h_key h := objs_abs objs x (h_key h))) \<and>
    (case r of Inr d \<Rightarrow> bytes_of (view K x' (h_key h)) n off d | Inl e \<Rightarrow> e \<noteq> OK)"
proof -
  note ok = ctx_baseD [OF assms(1)]
  have s3: "s3_ok (c_inner (h_s3 h)) objs" using ok(1) assms(2) by simp
  note rf = h_Read_refreshed [OF ok(5) s3 assms(3,5,6)]
  note cs = h_Read_step [OF assms(1-3,5,6)]
  then have st: "local_step {} x x'" by (simp add: cache_step_def)
  have v0: "view K x (h_key h) = cached_of h x" using assms(3,4) by (simp add: view_def cached_of_def)
  have v: "view K x' = (view K x)(h_key h := cached_of h x')"
    using cache_step_view [OF assms(1,4) cs] assms(3) by (simp add: cached_of_def)
  then have "view K x' (h_key h) = cached_of h x'" by simp
  then have "case r of Inr d \<Rightarrow> bytes_of (view K x' (h_key h)) n off d | Inl e \<Rightarrow> e \<noteq> OK" using rf by (simp only:)
  moreover note v
  moreover have "object_of objs h (bx_world x) = objs_abs objs x (h_key h)" using assms(2) by (simp add: object_of_def objs_abs_def)
  moreover have "objs_abs objs x' = objs_abs objs x" using rf st by (simp add: objs_abs_def refreshed_def local_step_def)
  ultimately show ?thesis using rf st v0 by (auto simp: refreshed_def fun_upd_idem)
qed

lemma simulates_read:
  assumes "base_ok objs K m" and "mount_do (now, FsRead i n off f) m = (out, m')"
  shows "simulated objs K (FsRead i n off f) out m m'"
proof -
  let ?x = "mt_ctx m" and ?a = "cfs_abs objs K m"
  note ctx = base_okD(1) [OF assms(1)]
  note ok = ctx_baseD [OF ctx]
  show ?thesis
    using assms(1) assms(2) [unfolded mount_do.simps]
  proof (cases rule: with_handle_cases)
    case closed
    with assms(1) show ?thesis by (simp add: simulated_refl)
  next
    case (opened h p c)
    obtain r f' x' where rd: "h_Read h n off now f ?x = (r, f', x')" by (metis prod_cases3)
    then have o: "out = (case r of Inl e \<Rightarrow> Failed e | Inr d \<Rightarrow> Data d)" "m' = m\<lparr>mt_ctx := x'\<rparr>" using opened(2) by simp_all
    show ?thesis
    proof (cases "h_dirty h")
      case True
      have c: "tmp_contents (OpenFile p) (bx_os ?x) = c" using opened(9) by (simp add: tmp_contents_OpenFile)
      have x: "x' = ?x" "r = (if 0 \<le> off then Inr (take n (drop (nat off) c)) else Inl EIO)"
        using rd True opened(6) ok(4) c by (auto simp: h_Read_def tmp_ReadAt_def read_at_def Let_def split: if_splits)
      have m': "m' = m" using o(2) x(1) by simp
      show ?thesis
        unfolding m' by (rule simulated_refl [OF assms(1)]) (use o(1) x(2) opened(10) True in auto)
    next
      case False
      note res = clean_read [OF ctx opened(3-5) False rd]
      then have st: "local_step {} ?x x'" by simp
      have rr: "reread (h_key h) ?a (?a\<lparr>fs_objs := objs_abs objs x', fs_view := view K x'\<rparr>)"
        using res by (auto simp: reread_def cfs_abs_def)
      show ?thesis
      proof (rule simulatedI [OF ctx_step [OF assms(1) st, folded o(2)]])
        show "cached_step (FsRead i n off f) out ?a (?a\<lparr>fs_objs := objs_abs objs x', fs_view := view K x'\<rparr>)"
          using o(1) opened(10) False rr res by (auto simp: bytes_of_def split: sum.splits)
      qed
    qed
  qed
qed

section \<open>Uploading\<close>

lemma syncUpload_disk:
  assumes "ctx_base objs K x" and "h_s3 h = bx_s3 x" and "h_key h \<in> K" and "h_tmpFile h = OpenFile p"
    and "fmlookup (files (bx_os x)) p = Some c" and "syncUpload h (int (length c)) now f x = (e, h', f', x')"
  obtains
    (stored) "e = OK" "h' = h\<lparr>h_dirty := False\<rparr>" "cache_step (h_key h) x x'"
      "view K x' = (view K x)(h_key h \<mapsto> c)" "objs_abs objs x' = (objs_abs objs x)(h_key h \<mapsto> c)"
  | (failed) w where "e = EIO" "h' = h" "x' = x\<lparr>bx_world := w\<rparr>" "objs w = objs (bx_world x)"
proof -
  note ok = ctx_baseD [OF assms(1)]
  have seek: "tmp_Seek (h_tmpFile h) (bx_os x) = None" using ok(4) assms(4) by (simp add: tmp_Seek_def)
  have cont: "tmp_contents (OpenFile p) (bx_os x) = c" using assms(5) by (simp add: tmp_contents_OpenFile)
  obtain r w where p: "PutObject (h_s3 h) (h_key h) c (int (length c)) (bx_world x) = (r, w)" by (metis surj_pair)
  note p' = p [unfolded assms(2)]
  show thesis
  proof (cases r)
    case (Inl err)
    then show thesis
      by (intro failed [of w]) (use assms(4,6) seek cont p s3_atomicD(1) [OF ok(2) p' [unfolded Inl]] in \<open>simp_all add: syncUpload_def\<close>)
  next
    case (Inr meta)
    let ?x1 = "x\<lparr>bx_world := w\<rparr>"
    let ?x2 = "ctx_cache_Put (h_key h) (p, c) meta now ?x1"
    let ?x3 = "ctx_catalog_Put (file_entry (h_key h) (int (length c)) (om_ETag meta) now) ?x2"
    have op: "os_Open p (bx_os x) = Inr c" using ok(4) assms(5) by (simp add: os_Open_def)
    have u: "e = OK" "h' = h\<lparr>h_dirty := False\<rparr>" "x' = ?x3"
      using assms(4,6) seek cont p Inr op by (simp_all add: syncUpload_def Let_def)
    have st2: "local_step {} ?x1 ?x2" and
      fl: "files (bx_os ?x2) = fmupd (ds_Path (cm_store (bx_cache x)) (bx_bucket x) (h_key h)) c (files (bx_os x))"
      using ctx_cache_Put_disk [of ?x1, where k = "h_key h" and src = "(p, c)" and meta = meta and now = now] ok(4,5) by simp_all
    have cs: "cache_step (h_key h) x x'"
      using st2 fl unfolding u(3) by (intro cache_stepI) (simp_all add: local_step_def)
    moreover have "view K x' = (view K x)(h_key h \<mapsto> c)"
      using cache_step_view [OF assms(1,3) cs] cs fl unfolding u(3) by (simp add: cached_data_def cache_step_def local_step_def)
    moreover have "objs_abs objs ?x1 = (objs_abs objs x)(h_key h \<mapsto> c)"
      by (rule objs_abs_upd(1) [of _ _ _ _ _ "om_ETag meta"]) (use PutObject_content(1) [OF ok(1) p' Inr] in simp_all)
    ultimately show thesis using u by (intro stored) simp_all
  qed
qed

text \<open>A flush of a handle without changes, and one that uploads at once.\<close>

lemma clean_flush_step:
  assumes "base_ok objs K m" and "map_of (mt_handles m) i = Some h" and "fs_open (cfs_abs objs K m) i = Some (h_key h, c, h_dirty h)"
    and "h_tmpFile h = OpenFile p" and "fmlookup (files (bx_os (mt_ctx m))) p = Some c"
    and "unseen objs (mt_ctx m) x'" and "m' = m\<lparr>mt_ctx := x', mt_handles := AList.update i h (mt_handles m)\<rparr>"
  shows "base_ok objs K m' \<and> kernel_step m m' \<and> cfs_abs objs K m' = cfs_abs objs K m"
proof -
  have st: "local_step {} (mt_ctx m) x'" "local_step {p} (mt_ctx m) x'"
    using assms(6) local_step_mono [of "{}" "mt_ctx m" x' "{p}"] by (simp_all add: unseen_def)
  have c: "fmlookup (files (bx_os x')) p = Some c" using assms(5,6) by (simp add: unseen_def)
  have "view K x' = view K (mt_ctx m)" by (rule view_cong [OF st(1)]) (use assms(6) in \<open>simp add: unseen_def\<close>)
  moreover have "objs_abs objs x' = objs_abs objs (mt_ctx m)"
    by (rule objs_abs_cong) (use assms(6) in \<open>simp_all add: unseen_def local_step_def\<close>)
  ultimately show ?thesis
    using update_step [OF assms(1,2,4) st(2) c refl refl refl refl assms(7)] assms(3)
    by (auto intro!: cfs_eqI) (simp_all add: cfs_abs_def)
qed

lemma upload_flush_step:
  assumes "base_ok objs K m" and "map_of (mt_handles m) i = Some h" and "h_s3 h = bx_s3 (mt_ctx m)" and "h_key h \<in> K"
    and "fs_open (cfs_abs objs K m) i = Some (h_key h, c, h_dirty h)" and "h_dirty h"
    and "h_tmpFile h = OpenFile p" and "fmlookup (files (bx_os (mt_ctx m))) p = Some c"
    and "syncUpload h (int (length c)) now f (mt_ctx m) = (e, h', f', x')"
    and "out = answer e" and "m' = m\<lparr>mt_ctx := x', mt_handles := AList.update i h' (mt_handles m)\<rparr>"
  shows "simulated objs K (FsFlush i f) out m m'"
proof -
  let ?x = "mt_ctx m" and ?a = "cfs_abs objs K m"
  note ctx = base_okD(1) [OF assms(1)]
  show ?thesis
    using ctx assms(3,4,7,8,9)
  proof (cases rule: syncUpload_disk)
    case stored
    have "temp_path p" using open_okD(1) [OF base_okD(2) [OF assms(1)] assms(2)] assms(7) by (auto simp: handle_ok_def)
    then have st: "local_step {p} ?x x'" "fmlookup (files (bx_os x')) p = Some c"
      using stored(3) assms(8) temp_path_ds_Path by (simp_all add: cache_step_def local_step_def)
    have u: "base_ok objs K m' \<and> kernel_step m m' \<and> cfs_abs objs K m' =
        \<lparr>fs_objs = objs_abs objs x', fs_open = (fs_open ?a)(i \<mapsto> (h_key h, c, h_dirty h')), fs_view = view K x'\<rparr>"
      by (rule update_step [OF assms(1,2,7) st]) (use stored(2) assms(11) in simp_all)
    show ?thesis
      by (rule simulatedI [OF u]) (use stored assms(5,6,10) in \<open>simp add: answer_def cfs_abs_def\<close>)
  next
    case (failed w)
    have un: "unseen objs ?x x'" unfolding failed(3) by (rule unseen_world [OF ctx_baseD(5) [OF ctx] failed(4)])
    show ?thesis
      by (rule simulatedI [OF clean_flush_step [OF assms(1,2,5,7,8) un]]) (use failed assms(10,11) in \<open>simp_all add: answer_def\<close>)
  qed
qed

section \<open>All requests but flushes\<close>

lemma mount_simulates_cached:
  assumes "base_ok objs K m" and "legal_req K (now, r)" and "mount_do (now, r) m = (out, m')" and "\<forall>i f. r \<noteq> FsFlush i f"
  shows "simulated objs K r out m m'"
proof (cases r)
  case (FsOpen i f)
  with assms show ?thesis using simulates_open by blast
next
  case (FsCreate i d name)
  with assms show ?thesis using simulates_create by blast
next
  case (FsWrite i d off)
  with assms show ?thesis using simulates_write by blast
next
  case (FsRead i n off f)
  with assms show ?thesis using simulates_read by blast
next
  case (FsRelease i)
  with assms show ?thesis using simulates_release by blast
next
  case (FsUnlink d name)
  with assms show ?thesis using simulates_unlink by blast
next
  case (FsRename d name p newName)
  with assms show ?thesis using simulates_rename by blast
next
  case (FsMkdir d name)
  with assms show ?thesis using simulates_mkdir by blast
next
  case (FsRmdir d name)
  with assms show ?thesis using simulates_rmdir by blast
next
  case (FsLookup d name)
  with assms show ?thesis using simulates_lookup by blast
next
  case FsEvict
  with assms show ?thesis using simulates_evict by blast
qed (use assms in blast)

end
