(* ===== verification/Mount_Refines.thy ===== *)
theory Mount_Refines
  imports Mount_Steps
begin

text \<open>
  A write-through mount implements the file system of \<open>File_System\<close>. Its requests are steps of the
  file system with a cache (\<open>Mount_Steps\<close>), the flush included; as long as the copies are the
  objects, which every step keeps, the cache cannot be seen.
\<close>

section \<open>Flushing\<close>

lemma simulates_flush:
  assumes "base_ok objs K m" and "bx_writeBack (mt_ctx m) = None" and "mount_do (now, FsFlush i f) m = (out, m')"
  shows "simulated objs K (FsFlush i f) out m m'"
proof -
  let ?x = "mt_ctx m"
  note ctx = base_okD(1) [OF assms(1)]
  note ok = ctx_baseD [OF ctx]
  show ?thesis
    using assms(1) assms(3) [unfolded mount_do.simps]
  proof (cases rule: with_handle_cases)
    case closed
    with assms(1) show ?thesis by (simp add: simulated_refl)
  next
    case (opened h p c)
    obtain e h' f' x' where fl: "h_Flush h now f ?x = (e, h', f', x')" by (rule prod_cases4)
    then have o: "out = answer e" "m' = m\<lparr>mt_ctx := x', mt_handles := AList.update i h' (mt_handles m)\<rparr>"
      using opened(2) by simp_all
    show ?thesis
    proof (cases "h_dirty h")
      case False
      then have n: "e = OK" "h' = h" "x' = ?x" using fl by (simp_all add: h_Flush_def)
      have un: "unseen objs ?x ?x" using ok(5) by (simp add: unseen_def local_step_refl)
      show ?thesis
        by (rule simulatedI [OF clean_flush_step [OF assms(1) opened(1,10,6,9) un]]) (use o n opened(10) False in \<open>simp_all add: answer_def\<close>)
    next
      case True
      have len: "int (length (tmp_contents (h_tmpFile h) (bx_os ?x))) = int (length c)"
        using opened(6,9) by (simp add: tmp_contents_OpenFile)
      have "h_Flush h now f ?x = syncUpload h (int (length c)) now f ?x"
        using True opened(6) assms(2) ok(4) len by (simp add: h_Flush_def tmp_Seek_def tmp_Stat_def)
      with fl have "syncUpload h (int (length c)) now f ?x = (e, h', f', x')" by simp
      from upload_flush_step [OF assms(1) opened(1,3,5,10) True opened(6,9) this o] show ?thesis .
    qed
  qed
qed

section \<open>When the cache cannot be seen\<close>

lemma map_le_dropped: "f \<subseteq>\<^sub>m g \<Longrightarrow> k \<notin> dom f \<Longrightarrow> f \<subseteq>\<^sub>m g(k := v)"
  by (auto simp: map_le_def)

lemma map_le_same: "f \<subseteq>\<^sub>m g \<Longrightarrow> f(k := g k) \<subseteq>\<^sub>m g"
  using map_le_upd [of f g k "g k"] by simp

lemma map_le_Some: "f \<subseteq>\<^sub>m g \<Longrightarrow> f k = Some c \<Longrightarrow> g k = Some c"
  by (force simp: map_le_def)

lemma reread_true:
  "reread k a a' \<Longrightarrow> fs_view a \<subseteq>\<^sub>m fs_objs a \<Longrightarrow> fs_view a' \<subseteq>\<^sub>m fs_objs a' \<and> fs.truncate a' = fs.truncate a"
  using map_le_same [of "fs_view a" "fs_objs a" k] by (auto simp: reread_def fs.truncate_def)

text \<open>A copy that is there is the object, so reading it is reading the object.\<close>

lemma cached_step_fs:
  assumes "cached_step r out a a'" and "fs_view a \<subseteq>\<^sub>m fs_objs a" and "dom (fs_view a) \<subseteq> K" and "legal_req K (now, r)"
  shows "fs_view a' \<subseteq>\<^sub>m fs_objs a' \<and> fs_step r out (fs.truncate a) (fs.truncate a')"
proof (cases out)
  case (Failed e)
  show ?thesis
  proof (cases "\<exists>i n off f. r = FsRead i n off f")
    case True
    with Failed assms(1,2) reread_true [of _ a a'] show ?thesis by (auto split: option.splits)
  next
    case False
    with Failed assms(1) have "fs_view a' = fs_view a \<and> e \<noteq> OK \<and> fs.truncate a' = fs.truncate a"
      by (cases r) simp_all
    with Failed assms(2) show ?thesis by (simp add: fs.truncate_def)
  qed
next
  case Done
  note st = assms(1) [unfolded Done]
  show ?thesis
  proof (cases r)
    case (FsRename d name p newName)
    let ?v = "(fs_view a)(dn_prefix d @ name := None, dn_prefix p @ newName := None)"
    have le: "?v \<subseteq>\<^sub>m fs_objs a" using assms(2) by (auto simp: map_le_def)
    have v: "fs_view a' = ?v" using st FsRename by simp
    have "fs_step r Done (fs.truncate a) (fs.truncate a')" using st FsRename by simp
    then have "fs_objs a' = (fs_objs a)(dn_prefix p @ newName := fs_objs a (dn_prefix d @ name), dn_prefix d @ name := None) \<or>
        fs_objs a' = (fs_objs a)(dn_prefix p @ newName := fs_objs a (dn_prefix d @ name))"
      using FsRename by (auto simp: fs.truncate_def split: option.splits)
    then have "fs_view a' \<subseteq>\<^sub>m fs_objs a'"
      unfolding v by (elim disjE; simp only:; intro map_le_dropped le) auto
    then show ?thesis using st FsRename Done by simp
  next
    case (FsMkdir d name)
    then have "dn_prefix d @ name @ ''/'' \<notin> dom (fs_view a)" using assms(3,4) by auto
    then show ?thesis using st FsMkdir assms(2) Done by (auto simp: fs.truncate_def intro: map_le_dropped)
  next
    case (FsRmdir d name)
    then have "dn_prefix d @ name @ ''/'' \<notin> dom (fs_view a)" using assms(3,4) by auto
    then show ?thesis using st FsRmdir assms(2) Done by (auto simp: fs.truncate_def intro: map_le_dropped)
  next
    case (FsFlush i f)
    with st obtain k b dirty where o: "fs_open a i = Some (k, b, dirty)" by (auto split: option.splits)
    with st FsFlush assms(2) Done show ?thesis by (cases dirty) (simp_all add: fs.truncate_def map_le_upd)
  next
    case FsEvict
    then show ?thesis using st assms(2) Done map_le_trans [of "fs_view a'" "fs_view a"] by (simp add: fs.truncate_def)
  qed (use st assms(2) Done in \<open>auto simp: fs.truncate_def map_le_upd split: option.splits\<close>)
next
  case (Data d)
  note st = assms(1) [unfolded Data]
  show ?thesis
  proof (cases r)
    case (FsRead i n off f)
    with st obtain k b dirty where o: "fs_open a i = Some (k, b, dirty)" by (auto split: option.splits)
    show ?thesis
    proof (cases dirty)
      case True
      with st o FsRead Data assms(2) show ?thesis by (simp add: fs.truncate_def)
    next
      case False
      then have r: "reread k a a'" and d: "0 \<le> off" "\<exists>c. fs_view a' k = Some c \<and> d = take n (drop (nat off) c)"
        using st o FsRead by (auto split: option.splits)
      note t = reread_true [OF r assms(2)]
      then have ob: "fs_objs a' = fs_objs a" by (simp add: fs.truncate_def)
      with t d obtain c where c: "fs_objs a k = Some c" "d = take n (drop (nat off) c)"
        using map_le_Some [of "fs_view a'" "fs_objs a'" k] by auto
      with t o False d(1) FsRead Data have "fs_step r out (fs.truncate a) (fs.truncate a')" by (simp add: fs.truncate_def)
      with t show ?thesis by blast
    qed
  qed (use st in simp_all)
qed

section \<open>The refinement\<close>

lemma mount_simulated:
  assumes "mount_ok objs K m" and "legal_req K (now, r)" and "mount_do (now, r) m = (out, m')"
  shows "simulated objs K r out m m'"
proof (cases "\<exists>i f. r = FsFlush i f")
  case True
  with simulates_flush [OF mount_okD(2) [OF assms(1)] ctx_okD(2) [OF mount_okD(1) [OF assms(1)]]] assms(3)
  show ?thesis by blast
next
  case False
  with mount_simulates_cached [OF mount_okD(2) [OF assms(1)] assms(2,3)] show ?thesis by blast
qed

lemma mount_simulates:
  assumes "mount_ok objs K m" and "legal_req K tr" and "mount_do tr m = (out, m')"
  shows "mount_ok objs K m' \<and> fs_step (snd tr) out (fs_abs objs m) (fs_abs objs m')"
proof -
  obtain now r where tr: "tr = (now, r)" by (metis surj_pair)
  note c = ctx_okD [OF mount_okD(1) [OF assms(1)]]
  note s = mount_simulated [OF assms [unfolded tr]]
  then have st: "cached_step r out (cfs_abs objs K m) (cfs_abs objs K m')" by (simp add: simulated_def)
  have "fs_view (cfs_abs objs K m) \<subseteq>\<^sub>m fs_objs (cfs_abs objs K m)" "dom (fs_view (cfs_abs objs K m)) \<subseteq> K"
    using c(3) by (auto simp: cfs_abs_def cache_true_def view_def dom_def split: if_splits)
  note v = cached_step_fs [OF st this assms(2) [unfolded tr]]
  have "bx_writeBack (mt_ctx m') = None" using s c(2) by (auto simp: simulated_def kernel_step_def local_step_def)
  then have "mount_ok objs K m'" using s v by (simp add: simulated_def mount_ok_def base_ok_def ctx_ok_def cache_true_def cfs_abs_def)
  with v show ?thesis by (simp add: tr)
qed

interpretation mnt: implementation mount_do "\<lambda>tr. fs_step (snd tr)" "mount_ok objs K" "fs_abs objs" "legal_req K"
  for objs K
  by unfold_locales (rule mount_simulates)



section \<open>Witnesses\<close>

definition demo_mount :: "((string \<times> bytes) list, mem_world) mount" where
  "demo_mount = \<lparr>mt_ctx = demo_ctx None [((''b'', ''d/f''), ''old'', 0)] demo_os, mt_handles = []\<rparr>"

lemma demo_mount_ok: "mount_ok mem_objs {''d/f''} demo_mount"
proof -
  have "view {''d/f''} (mt_ctx demo_mount) = Map.empty"
    by (simp add: view_def cached_data_def demo_mount_def demo_ctx_def demo_os_def fun_eq_iff)
  then show ?thesis
    using demo_empty_ok [of demo_os "[]"]
    by (simp add: mount_ok_def ctx_ok_def ctx_base_def open_ok_def cache_true_def)
      (simp add: demo_mount_def demo_ctx_def demo_s3_def mem_s3_ok mem_s3_atomic disk_ok_def demo_os_def)
qed


end
