(* ===== verification/Mount_Serves.thy ===== *)
theory Mount_Serves
  imports Mount_Refines
begin

text \<open>
  Progress of a write-through mount: the requests that succeed whenever disk and S3 do their part.
\<close>

section \<open>Requests that cannot fail\<close>

text \<open>An S3 that is up: requests about objects that exist, and uploads and deletions, succeed.\<close>

definition s3_up :: "'w aws \<Rightarrow> ('w \<Rightarrow> s3_content) \<Rightarrow> bool" where
  "s3_up a objs \<longleftrightarrow>
     (\<forall>b k body w e w'. aws_Put a b k body (int (length body)) w \<noteq> (Inl e, w')) \<and>
     (\<forall>b k w e w'. aws_Delete a b k w \<noteq> (Some e, w')) \<and>
     (\<forall>b k w. objs w (b, k) \<noteq> None \<longrightarrow> (\<exists>out w'. aws_Get a b k w = (Inr out, w') \<and> go_body_err out = None)) \<and>
     (\<forall>b sk dk w e w'. CHR ''/'' \<notin> set b \<longrightarrow> objs w (b, sk) \<noteq> None \<longrightarrow> aws_Copy a b (b @ ''/'' @ sk) dk w \<noteq> (Some e, w'))"

fun must_succeed :: "fs_req \<Rightarrow> fs \<Rightarrow> bool" where
  "must_succeed (FsOpen i f) a \<longleftrightarrow> True"
| "must_succeed (FsCreate i d name) a \<longleftrightarrow> True"
| "must_succeed (FsWrite i d off) a \<longleftrightarrow> fs_open a i \<noteq> None \<and> 0 \<le> off"
| "must_succeed (FsRead i n off f) a \<longleftrightarrow> 0 \<le> off \<and>
     (case fs_open a i of None \<Rightarrow> False | Some (k, b, dirty) \<Rightarrow> dirty \<or> fs_objs a k \<noteq> None)"
| "must_succeed (FsFlush i f) a \<longleftrightarrow> fs_open a i \<noteq> None"
| "must_succeed (FsRelease i) a \<longleftrightarrow> fs_open a i \<noteq> None"
| "must_succeed (FsUnlink d name) a \<longleftrightarrow> True"
| "must_succeed (FsRename d name p newName) a \<longleftrightarrow> fs_objs a (dn_prefix d @ name) \<noteq> None"
| "must_succeed (FsMkdir d name) a \<longleftrightarrow> True"
| "must_succeed (FsRmdir d name) a \<longleftrightarrow> False"
| "must_succeed (FsLookup d name) a \<longleftrightarrow> False"
| "must_succeed FsEvict a \<longleftrightarrow> True"

lemma s3_upD:
  assumes "s3_up (c_inner c) objs"
  shows "PutObject c k body (int (length body)) w \<noteq> (Inl e, w')" and "DeleteObject c k w \<noteq> (Some e, w')"
    and "objs w (c_bucket c, k) \<noteq> None \<Longrightarrow> \<exists>body meta w'. GetObject c k w = (Inr (body, None, meta), w')"
    and "CHR ''/'' \<notin> set (c_bucket c) \<Longrightarrow> objs w (c_bucket c, sk) \<noteq> None \<Longrightarrow> CopyObject c sk dk w \<noteq> (Some e, w')"
proof -
  note up = assms [unfolded s3_up_def]
  show "PutObject c k body (int (length body)) w \<noteq> (Inl e, w')"
    using up by (auto simp: PutObject_def split: prod.splits sum.splits)
  show "DeleteObject c k w \<noteq> (Some e, w')" using up by (simp add: DeleteObject_def)
  show "\<exists>body meta w'. GetObject c k w = (Inr (body, None, meta), w')" if "objs w (c_bucket c, k) \<noteq> None"
  proof -
    from up [THEN conjunct2, THEN conjunct2, THEN conjunct1, rule_format, OF that] obtain out w' where
      "aws_Get (c_inner c) (c_bucket c) k w = (Inr out, w')" "go_body_err out = None" by (elim exE conjE)
    then show ?thesis by (simp add: GetObject_def)
  qed
  show "CopyObject c sk dk w \<noteq> (Some e, w')" if "CHR ''/'' \<notin> set (c_bucket c)" "objs w (c_bucket c, sk) \<noteq> None"
    using up that by (simp add: CopyObject_def)
qed

lemma fetch_object:
  assumes "disk_ok (bx_os x)" and "cm_ok (bx_cache x) (bx_os x)" and "s3_up (c_inner (h_s3 h)) objs"
    and "s3_ok (c_inner (h_s3 h)) objs"
    and "objs (bx_world x) (c_bucket (h_s3 h), h_key h) = Some (body, t)" and "h_bucket h = bx_bucket x" and "0 \<le> off"
  shows "\<exists>f' x'. fetchFromS3AndCache h n off now f x = (Inr (take n (drop (nat off) body)), f', x')"
proof -
  obtain got meta w where g: "GetObject (h_s3 h) (h_key h) (bx_world x) = (Inr (got, None, meta), w)"
    using s3_upD(3) [OF assms(3)] assms(5) by blast
  have got: "got = body" using GetObject_content(2) [OF assms(4) g refl] assms(5) by simp
  let ?n = "temp_name (bx_os x) [] ''s3gw-cache-*'' (files (bx_os x))"
  have tmp: "temp_ok (bx_os x)" using assms(2) by (simp add: cm_ok_def)
  let ?x2 = "x\<lparr>bx_world := w, bx_os := (bx_os x)\<lparr>files := fmupd ?n body (files (bx_os x))\<rparr>\<rparr>"
  let ?x3 = "ctx_cache_Put (h_key h) (?n, body) meta now ?x2"
  let ?x' = "?x3\<lparr>bx_os := snd (os_Remove ?n (bx_os ?x3))\<rparr>"
  have ok2: "disk_ok (bx_os ?x2)" "cm_ok (bx_cache ?x2) (bx_os ?x2)" using assms(1,2) by (simp_all add: disk_ok_def cm_ok_def)
  note p = ctx_cache_Put_disk [OF ok2, where k = "h_key h" and src = "(?n, body)" and meta = meta and now = now]
  have d: "downloadToCache h now f x = (None, fn_update (om_Size meta) (om_ETag meta) (om_LastModified meta) f, ?x')"
    using g assms(1) by (simp add: got downloadToCache_def os_CreateTemp_def io_Copy_def Let_def)
  have st: "cm_store (bx_cache ?x3) = cm_store (bx_cache x)" "fault (bx_os ?x3) = fault (bx_os x)"
    using p(2) [of "{}"] by (simp_all add: local_step_def)
  have "fmlookup (files (bx_os ?x')) (ds_Path (cm_store (bx_cache x)) (h_bucket h) (h_key h)) = Some body"
    using p(1) cache_temp_not_cached [OF tmp, of "files (bx_os x)", symmetric] assms(6) by (simp add: os_Remove_files)
  then have "ds_Read (cm_store (bx_cache ?x')) (h_bucket h) (h_key h) off n (bx_os ?x') =
      Inr (take n (drop (nat off) body), length (take n (drop (nat off) body)) < n)"
    using st assms(1,7) by (simp add: ds_Read_def os_Open_def read_at_def Let_def)
  with d show ?thesis by (simp add: fetchFromS3AndCache_def)
qed

lemma h_Read_succeeds:
  assumes "ctx_base objs K x" and "h_s3 h = bx_s3 x" and "\<not> h_dirty h" and "h_bucket h = bx_bucket x"
    and "s3_up (c_inner (h_s3 h)) objs" and "objs (bx_world x) (c_bucket (h_s3 h), h_key h) \<noteq> None" and "0 \<le> off"
  shows "\<exists>d f' x'. h_Read h n off now f x = (Inr d, f', x')"
proof -
  note ok = ctx_baseD [OF assms(1)]
  have s3: "s3_ok (c_inner (h_s3 h)) objs" using ok(1) assms(2) by simp
  obtain path entry valid err cm where g: "cm_Get (h_bucket h) (h_key h) (h_ttl h) (h_soleWriter h) now (bx_os x) (bx_cache x) =
      ((path, entry, valid, err), cm)"
    by (metis prod_cases4 surj_pair)
  let ?x1 = "x\<lparr>bx_cache := cm\<rparr>"
  obtain rv x2 where rv: "revalidate h entry n off now ?x1 = (rv, x2)" by (metis surj_pair)
  have ok1: "cm_ok (bx_cache ?x1) (bx_os ?x1)" using cm_ok_Get [OF ok(5) g] by simp
  have f2: "bx_os x2 = bx_os x" "bx_bucket x2 = bx_bucket x" "objs (bx_world x2) = objs (bx_world x)"
    using revalidate_frame [OF s3 rv] by simp_all
  obtain body t where o: "objs (bx_world x) (c_bucket (h_s3 h), h_key h) = Some (body, t)" using assms(6) by auto
  have "\<exists>f' x'. fetchFromS3AndCache h n off now f x2 = (Inr (take n (drop (nat off) body)), f', x')"
    by (rule fetch_object [OF _ _ assms(5) s3]) (use o f2 ok(4) revalidate_ok [OF ok1 rv] assms(4,7) in simp_all)
  moreover have "h_Read h n off now f x =
    (case (if valid then ds_Read (cm_store cm) (h_bucket h) (h_key h) off n (bx_os ?x1) else Inl (errorf [])) of
       Inr (d, eof) \<Rightarrow> (Inr d, f, ?x1)
     | Inl _ \<Rightarrow> (case rv of Some d \<Rightarrow> (Inr d, f, x2) | None \<Rightarrow> fetchFromS3AndCache h n off now f x2))"
    using assms(3) g rv by (auto simp: h_Read_def Let_def split: sum.split option.split)
  ultimately show ?thesis by (auto split: sum.split option.split)
qed

lemma handle_present: "fs_open (fs_abs objs m) i = Some v \<Longrightarrow> \<exists>h. map_of (mt_handles m) i = Some h"
  by (auto simp: fs_abs_def open_abs_def)

lemma base_serves_one:
  assumes "base_ok objs K m" and "s3_up (c_inner (bx_s3 (mt_ctx m))) objs" and "must_succeed r (fs_abs objs m)"
    and "mount_do (now, r) m = (out, m')" and "\<forall>i f. r \<noteq> FsFlush i f"
  shows "out \<noteq> Failed e"
proof -
  let ?x = "mt_ctx m"
  note ctx = base_okD(1) [OF assms(1)]
  note ok = ctx_baseD [OF ctx]
  have hd: "handle_ok K ?x h" if "map_of (mt_handles m) i = Some h" for i h
    by (rule open_okD(1) [OF base_okD(2) [OF assms(1)] that])
  show ?thesis
  proof (cases r)
    case (FsOpen i f)
    with assms(4) newHandle_disk [OF ctx, of f] show ?thesis by (auto simp: fn_Open_def answer_def)
  next
    case (FsCreate i d name)
    with assms(4) newHandle_disk [OF ctx, of "\<lparr>fn_key = dn_prefix d @ name, fn_size = 0, fn_etag = [], fn_mtime = now\<rparr>"] show ?thesis by (auto simp: dn_Create_def Let_def)
  next
    case (FsWrite i d off)
    with assms(3) obtain h where h: "map_of (mt_handles m) i = Some h" and off: "0 \<le> off" by (auto dest!: handle_present)
    obtain p where "h_tmpFile h = OpenFile p" using hd [OF h] by (auto simp: handle_ok_def)
    with h_Write_ok [OF this disk_okD [OF ok(4)] off] FsWrite h assms(4) show ?thesis by (auto simp: with_handle_def answer_def)
  next
    case (FsRead i n off f)
    with assms(3) obtain h where h: "map_of (mt_handles m) i = Some h" and off: "0 \<le> off"
      by (auto dest!: handle_present split: option.splits)
    obtain p where p: "h_tmpFile h = OpenFile p" "h_s3 h = bx_s3 ?x" "h_bucket h = bx_bucket ?x" "h_key h \<in> K"
      using hd [OF h] by (auto simp: handle_ok_def)
    have "\<exists>d f' x'. h_Read h n off now f ?x = (Inr d, f', x')"
    proof (cases "h_dirty h")
      case True
      then show ?thesis using h_Read_dirty [OF True p(1) disk_okD [OF ok(4)] off] by simp
    next
      case False
      have "objs (bx_world ?x) (c_bucket (h_s3 h), h_key h) \<noteq> None"
        using assms(3) FsRead h False p(2) by (auto simp: fs_abs_def open_abs_def objs_abs_def)
      with h_Read_succeeds [OF ctx p(2) False p(3) _ _ off] assms(2) p(2) show ?thesis by simp
    qed
    with FsRead h assms(4) show ?thesis by (auto simp: with_handle_def)
  next
    case (FsRelease i)
    with assms(3) obtain h where h: "map_of (mt_handles m) i = Some h" by (auto dest!: handle_present)
    have "fst (h_Release h ?x) = OK" by (simp add: h_Release_def split: tmp_file.split)
    with FsRelease h assms(4) show ?thesis by (auto simp: with_handle_def answer_def split: prod.splits)
  next
    case (FsUnlink d name)
    obtain w where "DeleteObject (bx_s3 ?x) (dn_prefix d @ name) (bx_world ?x) = (None, w)"
      using s3_upD(2) [OF assms(2)] by (metis not_None_eq surj_pair)
    with FsUnlink assms(4) show ?thesis by (auto simp: dn_Unlink_def answer_def Let_def)
  next
    case (FsRename d name p newName)
    then have "objs (bx_world ?x) (c_bucket (bx_s3 ?x), dn_prefix d @ name) \<noteq> None"
      using assms(3) by (auto simp: fs_abs_def objs_abs_def)
    from s3_upD(4) [OF assms(2) ok(3) this]
    obtain w where "CopyObject (bx_s3 ?x) (dn_prefix d @ name) (dn_prefix p @ newName) (bx_world ?x) = (None, w)"
      by (metis not_None_eq surj_pair)
    with FsRename assms(4) show ?thesis by (auto simp: dn_Rename_def answer_def Let_def)
  next
    case (FsMkdir d name)
    obtain r w where pt: "PutObject (bx_s3 ?x) (dn_prefix d @ name @ ''/'') [] 0 (bx_world ?x) = (r, w)" by (metis surj_pair)
    with s3_upD(1) [OF assms(2), of _ "[]"] obtain meta where "r = Inr meta" by (cases r) auto
    with pt FsMkdir assms(4) show ?thesis by (auto simp: dn_Mkdir_def Let_def)
  qed (use assms(3-5) in \<open>auto split: prod.splits\<close>)
qed

lemma mount_serves_one:
  assumes "mount_ok objs K m" and "s3_up (c_inner (bx_s3 (mt_ctx m))) objs" and "must_succeed r (fs_abs objs m)"
    and "mount_do (now, r) m = (out, m')"
  shows "out \<noteq> Failed e"
proof (cases "\<exists>i f. r = FsFlush i f")
  case False
  with base_serves_one [OF mount_okD(2) [OF assms(1)] assms(2-4)] show ?thesis by blast
next
  case True
  then obtain i f where r: "r = FsFlush i f" by blast
  let ?x = "mt_ctx m"
  note b = mount_okD(2) [OF assms(1)]
  note ok = ctx_baseD [OF base_okD(1) [OF b]]
  note wt = ctx_okD(2) [OF mount_okD(1) [OF assms(1)]]
  obtain h where h: "map_of (mt_handles m) i = Some h" using assms(3) r by (auto dest!: handle_present)
  obtain p c where p: "h_tmpFile h = OpenFile p" "h_s3 h = bx_s3 ?x" "fmlookup (files (bx_os ?x)) p = Some c"
    using open_okD(1) [OF base_okD(2) [OF b] h] by (auto simp: handle_ok_def)
  obtain er h' f' x' where fl: "h_Flush h now f ?x = (er, h', f', x')" by (rule prod_cases4)
  have "er = OK"
  proof (cases "h_dirty h")
    case False
    with fl show ?thesis by (simp add: h_Flush_def)
  next
    case True
    obtain q w where pt: "PutObject (bx_s3 ?x) (h_key h) c (int (length c)) (bx_world ?x) = (q, w)" by (metis surj_pair)
    with s3_upD(1) [OF assms(2)] obtain meta where "q = Inr meta" by (cases q) auto
    with fl True p pt ok(4) wt show ?thesis
      by (simp add: h_Flush_def syncUpload_def tmp_Seek_def tmp_Stat_def tmp_contents_OpenFile Let_def)
  qed
  with r h fl assms(4) show ?thesis by (auto simp: with_handle_def answer_def)
qed

section \<open>Sessions\<close>

fun is_failed :: "fs_reply \<Rightarrow> bool" where
  "is_failed (Failed e) \<longleftrightarrow> True"
| "is_failed Done \<longleftrightarrow> False"
| "is_failed (Data d) \<longleftrightarrow> False"

lemma is_failed_iff: "is_failed out \<longleftrightarrow> (\<exists>e. out = Failed e)"
  by (cases out) auto

lemma mount_healthy:
  assumes "mount_ok objs K m" and "legal_req K tr" and "s3_up (c_inner (bx_s3 (mt_ctx m))) objs" and "mount_do tr m = (out, m')"
  shows "s3_up (c_inner (bx_s3 (mt_ctx m'))) objs"
proof -
  obtain now r where "tr = (now, r)" by (metis surj_pair)
  with mount_simulated [OF assms(1)] assms(2,4) have "simulated objs K r out m m'" by blast
  with assms(3) show ?thesis by (auto simp: simulated_def kernel_step_def local_step_def)
qed

interpretation srv: serving mount_do "\<lambda>tr. fs_step (snd tr)" "mount_ok objs K" "fs_abs objs" "legal_req K"
    "\<lambda>m. s3_up (c_inner (bx_s3 (mt_ctx m))) objs" "\<lambda>tr. must_succeed (snd tr)" is_failed
  for objs K
proof (unfold_locales, goal_cases)
  case (1 s r out s')
  show ?case by (rule mount_healthy [OF 1])
next
  case (2 s r out s')
  obtain now q where r: "r = (now, q)" by (metis surj_pair)
  show ?case
    using mount_serves_one [OF 2(1,2), of q now out s'] 2(3,4) by (auto simp: r is_failed_iff)
qed


section \<open>Witness\<close>

lemma mem_s3_up: "s3_up mem_s3 mem_objs"
proof -
  have cp: "aws_Copy mem_s3 b (b @ ''/'' @ sk) dk w \<noteq> (Some e, w')"
    if h: "CHR ''/'' \<notin> set b" "mem_objs w (b, sk) \<noteq> None" for b sk dk w e w'
  proof -
    let ?P = "\<lambda>((sb, sk'), _ :: bytes \<times> time). CHR ''/'' \<notin> set sb \<and> sb @ ''/'' @ sk' = b @ ''/'' @ sk"
    from h(2) obtain v where "map_of (AList.clearjunk w) (b, sk) = Some v" by (auto simp: mem_objs_def map_of_clearjunk)
    then have "((b, sk), v) \<in> set (AList.clearjunk w)" by (rule map_of_SomeD)
    moreover have "?P ((b, sk), v)" using h(1) by simp
    ultimately have "List.find ?P (AList.clearjunk w) \<noteq> None" unfolding find_None_iff by blast
    then obtain y where "List.find ?P (AList.clearjunk w) = Some y" by blast
    then show ?thesis by (simp add: mem_s3_def split: prod.split)
  qed
  have get: "\<exists>out w'. aws_Get mem_s3 b k w = (Inr out, w') \<and> go_body_err out = None" if "mem_objs w (b, k) \<noteq> None" for b k w
    using that by (auto simp: mem_s3_def mem_objs_def)
  have "aws_Put mem_s3 b k body (int (length body)) w \<noteq> (Inl e, w')" "aws_Delete mem_s3 b k w \<noteq> (Some e', w')"
    for b k body w e e' w'
    by (simp_all add: mem_s3_def)
  with cp get show ?thesis unfolding s3_up_def by blast
qed

lemma all_replies: "(\<forall>out. P out) \<longleftrightarrow> P Done \<and> (\<forall>d. P (Data d)) \<and> (\<forall>e. P (Failed e))"
  by (metis fs_reply.exhaust)

text \<open>The specification of a session without failures determines each reply.\<close>

lemma served_step:
  "fs_step r out a a' \<and> \<not> is_failed out \<longleftrightarrow>
     (case r of
        FsRead i n off f \<Rightarrow> \<exists>d. out = Data d \<and> fs_step r (Data d) a a'
      | _ \<Rightarrow> out = Done \<and> fs_step r Done a a')"
  by (cases out; cases r) auto

lemma served_run:
  "spec_run (\<lambda>tr. fs_step (snd tr)) (tr # rs) outs a a' \<and> list_all (\<lambda>out. \<not> is_failed out) outs \<longleftrightarrow>
     (\<exists>out outs' a1. outs = out # outs' \<and> (fs_step (snd tr) out a a1 \<and> \<not> is_failed out) \<and>
        spec_run (\<lambda>tr. fs_step (snd tr)) rs outs' a1 a' \<and> list_all (\<lambda>out. \<not> is_failed out) outs')"
  by auto


end
