(* ===== verification/Write_Back_Reads.thy ===== *)
theory Write_Back_Reads
  imports Mount_Serves
begin

text \<open>
  Reading back in write-back mode, where a flush returns before the data is in S3: what is read
  depends on how long the cached copy is trusted.
\<close>

section \<open>The state after a flush\<close>

text \<open>The cache entry of the flushed data: it has no ETag yet.\<close>

definition flushed_entry :: "'w Handle \<Rightarrow> bytes \<Rightarrow> time \<Rightarrow> ('db, 'w) bucketCtx \<Rightarrow> CacheEntry" where
  "flushed_entry h c now x =
     cache_entry (bx_cache x) (bx_bucket x) (h_key h)
       \<lparr>om_ETag = [], om_Size = int (length c), om_LastModified = now, om_ContentType = []\<rparr> now"

text \<open>On a healthy disk and metadata database the flushed data is cached, with an entry without ETag.\<close>

lemma flush_writeBack_cached:
  assumes "cm_ok (bx_cache x) (bx_os x)" and "disk_ok (bx_os x)" and "bx_writeBack x = Some wb"
    and "length (wq_jobs wb) < wq_cap wb" and "fmlookup (files (bx_os x)) p = Some c"
    and "fst (ms_Put (cm_meta (bx_cache x)) (flushed_entry h c now x)) = None" and "\<And>db. bolt_View (ms_bolt (cm_meta (bx_cache x))) db = None"
    and "flush_writeBack h p (int (length c)) wb now f x = (OK, h', f', x')"
  shows "\<exists>entry. ms_Get (cm_meta (bx_cache x')) (bx_bucket x) (h_key h) = Inr (Some entry) \<and>
      ce_ETag entry = [] \<and> ce_CachedAt entry = now"
    and "cached_data (bx_cache x') (bx_os x') (bx_bucket x) (h_key h) = Some c"
    and "cm_ok (bx_cache x') (bx_os x')" and "fault (bx_os x') = fault (bx_os x)" and "bx_bucket x' = bx_bucket x"
    and "bx_world x' = bx_world x"
    and "h_key h' = h_key h \<and> h_s3 h' = h_s3 h \<and> h_bucket h' = h_bucket h \<and> h_ttl h' = h_ttl h \<and>
      h_soleWriter h' = h_soleWriter h \<and> \<not> h_dirty h'"
proof -
  have t: "temp_ok (bx_os x)" using assms(1) by (simp add: cm_ok_def)
  let ?F = "fmupd (p @ ''.wb'') c (fmdrop p (files (bx_os x)))"
  let ?s1 = "(bx_os x)\<lparr>files := ?F\<rparr>"
  let ?n = "temp_name (bx_os x) [] ''s3gw-upload-*'' ?F"
  let ?s2 = "(bx_os x)\<lparr>files := fmupd ?n [] ?F\<rparr>"
  let ?x1 = "ctx_catalog_Put (file_entry (h_key h) (int (length c)) [] now) (x\<lparr>bx_os := ?s2\<rparr>)"
  let ?meta = "\<lparr>om_ETag = [], om_Size = int (length c), om_LastModified = now, om_ContentType = []\<rparr>"
  let ?x2 = "ctx_cache_Put (h_key h) (p @ ''.wb'', c) ?meta now ?x1"
  have fresh: "fmlookup ?F ?n = None" by (rule upload_temp_fresh [OF t])
  then have ne: "p @ ''.wb'' \<noteq> ?n" by (auto split: if_splits)
  have rn: "os_Rename p (p @ ''.wb'') (bx_os x) = (None, ?s1)" using assms(2,5) by (simp add: os_Rename_def)
  have ct: "os_CreateTemp [] ''s3gw-upload-*'' ?s1 = (Inr ?n, ?s2)" using assms(2) by (simp add: os_CreateTemp_def Let_def)
  have op: "os_Open (p @ ''.wb'') ?s2 = Inr c" using assms(2) ne by (simp add: os_Open_def)
  obtain wb' where sb: "Submit (staged_job h p c) wb = (None, wb')" using assms(4) by (simp add: Submit_def)
  have fl: "h' = h\<lparr>h_tmpFile := OpenFile ?n, h_dirty := False\<rparr>" "x' = ?x2\<lparr>bx_writeBack := Some wb'\<rparr>"
    using assms(8) sb by (simp_all add: flush_writeBack_def Let_def rn ct op staged_job_def cong: sum.case_cong)
  have ok1: "disk_ok (bx_os ?x1)" "cm_ok (bx_cache ?x1) (bx_os ?x1)" using assms(1,2) by (simp_all add: cm_ok_def disk_ok_def)
  note p = ctx_cache_Put_disk [OF ok1, where k = "h_key h" and src = "(p @ ''.wb'', c)" and meta = ?meta and now = now]
  have st: "local_step {} ?x1 ?x2" by (rule p(2))
  then show "cm_ok (bx_cache x') (bx_os x')" "fault (bx_os x') = fault (bx_os x)" "bx_bucket x' = bx_bucket x" "bx_world x' = bx_world x"
    by (simp_all add: fl local_step_def)
  show "cached_data (bx_cache x') (bx_os x') (bx_bucket x) (h_key h) = Some c"
    using st p(1) by (simp add: fl cached_data_def local_step_def)
  show "h_key h' = h_key h \<and> h_s3 h' = h_s3 h \<and> h_bucket h' = h_bucket h \<and> h_ttl h' = h_ttl h \<and>
      h_soleWriter h' = h_soleWriter h \<and> \<not> h_dirty h'"
    by (simp add: fl)
  obtain r m' s' where put: "cm_Put (bx_bucket x) (h_key h) (p @ ''.wb'', c) ?meta now (bx_cache ?x1) (bx_os ?x1) = (r, m', s')"
    by (metis prod_cases3)
  have "ds_Write (cm_store (bx_cache ?x1)) (bx_bucket x) (h_key h) (p @ ''.wb'', c) (bx_os ?x1) =
      (None, (bx_os ?x1)\<lparr>files := fmupd (ds_Path (cm_store (bx_cache ?x1)) (bx_bucket x) (h_key h)) c (files (bx_os ?x1))\<rparr>)"
    using ds_Write_disk [OF ok1(1)] ok1(2) by (simp add: cm_ok_def)
  with put assms(6) have "r = None"
    by (auto simp: cm_Put_def flushed_entry_def Let_def split: prod.splits option.splits)
  from ok1(2) put have m: "ms_map (cm_meta m') (entryKey (bx_bucket x) (h_key h)) = Some (cache_entry (bx_cache ?x1) (bx_bucket x) (h_key h) ?meta now)"
    by (cases rule: cm_Put_cases) (use \<open>r = None\<close> in simp_all)
  have "bx_cache x' = m'" using put by (simp add: fl ctx_cache_Put_def)
  moreover have "bolt_View (ms_bolt (cm_meta m')) (ms_db (cm_meta m')) = None"
    using cm_Put_bolt [OF put] assms(7) by simp
  ultimately have "ms_Get (cm_meta (bx_cache x')) (bx_bucket x) (h_key h) = Inr (Some (cache_entry (bx_cache ?x1) (bx_bucket x) (h_key h) ?meta now))"
    using ms_Get_view [OF _ m] by simp
  then show "\<exists>entry. ms_Get (cm_meta (bx_cache x')) (bx_bucket x) (h_key h) = Inr (Some entry) \<and>
      ce_ETag entry = [] \<and> ce_CachedAt entry = now"
    by (simp add: cache_entry_def)
qed


section \<open>Reading back\<close>

text \<open>C19: what a writer reads back in write-back mode, while the upload is pending and everything else is
  healthy. As long as the cached copy is trusted (for a sole writer, or within the TTL of the flush),
  a read returns the flushed bytes. From then on it returns the \<^emph>\<open>old\<close> object: the entry has no ETag,
  so revalidation fails, and the copy of the acknowledged data is replaced by what S3 still has.\<close>

theorem writeback_read_back:
  assumes "cm_ok (bx_cache x) (bx_os x)" and "disk_ok (bx_os x)" and "bx_writeBack x = Some wb"
    and "length (wq_jobs wb) < wq_cap wb"
    and "fst (ms_Put (cm_meta (bx_cache x)) (flushed_entry h c now x)) = None" and "\<And>db. bolt_View (ms_bolt (cm_meta (bx_cache x))) db = None"
    and "h_dirty h" and "h_tmpFile h = OpenFile p" and "fmlookup (files (bx_os x)) p = Some c" and "h_bucket h = bx_bucket x"
    and "s3_ok (c_inner (h_s3 h)) objs" and "s3_up (c_inner (h_s3 h)) objs"
    and "objs (bx_world x) (c_bucket (h_s3 h), h_key h) = Some (old, t)"
    and "h_Flush h now f x = (OK, h', f', x')" and "0 \<le> off"
  shows "fst (h_Read h' n off later f' x') =
    Inr (take n (drop (nat off) (if h_soleWriter h \<or> later \<le> now + h_ttl h then c else old)))"
proof -
  have "tmp_contents (OpenFile p) (bx_os x) = c" using assms(9) by (simp add: tmp_contents_OpenFile)
  with h_Flush_write_back [OF assms(3,7,8,14)] assms(14)
  have fl: "flush_writeBack h p (int (length c)) wb now f x = (OK, h', f', x')" by simp
  note st = flush_writeBack_cached [OF assms(1-4,9,5,6) fl]
  obtain entry where e: "ms_Get (cm_meta (bx_cache x')) (bx_bucket x) (h_key h) = Inr (Some entry)"
    "ce_ETag entry = []" "ce_CachedAt entry = now" using st(1) by blast
  have disk: "disk_ok (bx_os x')" using assms(2) st(4) by (simp add: disk_ok_def)
  have cf: "fmlookup (files (bx_os x')) (ds_Path (cm_store (bx_cache x')) (bx_bucket x) (h_key h)) = Some c"
    using st(2) by (simp add: cached_data_def)
  have ex: "ds_Exists (cm_store (bx_cache x')) (bx_bucket x) (h_key h) (bx_os x')"
    using cf disk by (simp add: ds_Exists_iff)
  have rd: "ds_Read (cm_store (bx_cache x')) (bx_bucket x) (h_key h) off n (bx_os x') =
      Inr (take n (drop (nat off) c), length (take n (drop (nat off) c)) < n)"
    using cf disk assms(15) by (simp add: ds_Read_def os_Open_def read_at_def Let_def)
  show ?thesis
  proof (cases "h_soleWriter h \<or> later \<le> now + h_ttl h")
    case True
    then show ?thesis
      using st(7) e ex rd assms(10) by (auto simp: h_Read_def cm_Get_def Let_def)
  next
    case False
    obtain tag x1 where tg: "remote_etag h' later x' = (tag, x1)" by (metis surj_pair)
    have s3: "s3_ok (c_inner (h_s3 h')) objs" "s3_up (c_inner (h_s3 h')) objs" using assms(11,12) st(7) by simp_all
    note f1 = remote_etag_frame [OF s3(1) tg]
    have rv: "revalidate h' (Some entry) n off later x' = (None, x1)"
      using False st(7) tg e(2) by (simp add: revalidate_def)
    have g: "cm_Get (h_bucket h') (h_key h') (h_ttl h') (h_soleWriter h') later (bx_os x') (bx_cache x') =
        ((ce_LocalPath entry, Some entry, False, None), bx_cache x')"
      using False e ex st(7) assms(10) by (simp add: cm_Get_def)
    have "h_Read h' n off later f' x' = fetchFromS3AndCache h' n off later f' x1"
      using st(7) g rv by (simp add: h_Read_def Let_def)
    moreover have "\<exists>ff xx. fetchFromS3AndCache h' n off later f' x1 = (Inr (take n (drop (nat off) old)), ff, xx)"
      by (rule fetch_object [OF _ _ s3(2,1)]) (use f1 st disk assms(10,13,15) in simp_all)
    ultimately show ?thesis using False by auto
  qed
qed


section \<open>Witness\<close>

text \<open>An hour after the flush the object's old content is read, although the upload is still queued.\<close>

theorem writeback_read_back_witness:
  "\<exists>(x :: ((string \<times> bytes) list, mem_world) bucketCtx) h h' f' x'. h_Flush h 9 demo_file x = (OK, h', f', x') \<and>
     tmp_contents (h_tmpFile h) (bx_os x) = ''xyz'' \<and>
     fst (h_Read h' 3 0 (3600 * second) f' x') = Inr ''old'' \<and> fst (h_Read h' 3 0 10 f' x') = Inr ''xyz''"
proof -
  let ?e = "\<lparr>ce_Bucket = ''b'', ce_Key = ''d/f'', ce_LocalPath = ds_Path demo_store ''b'' ''d/f'', ce_ETag = [], ce_Size = 3,
    ce_LastModified = 9, ce_LastAccessed = 9, ce_CachedAt = 9\<rparr>"
  let ?x = "demo_ctx (Some demo_queue) [((''b'', ''d/f''), ''old'', 0)] staged_os\<lparr>bx_cache := demo_manager [?e] []\<rparr>"
  have "fst (h_Flush demo_handle 9 demo_file ?x) = OK"
    by (simp add: h_Flush_def tmp_Seek_def tmp_Stat_def tmp_contents_def flush_writeBack_def os_Rename_def
        os_CreateTemp_def Submit_def demo_queue_def NewWriteBackQueue_def demo_handle_simps Let_def)
  then obtain h' f' x' where fl: "h_Flush demo_handle 9 demo_file ?x = (OK, h', f', x')" by (metis prod.collapse)
  have "flushed_entry demo_handle ''xyz'' 9 ?x = ?e"
    by (simp add: flushed_entry_def cache_entry_def demo_handle_def demo_ctx_def demo_manager_def)
  then have put: "fst (ms_Put (cm_meta (bx_cache ?x)) (flushed_entry demo_handle ''xyz'' 9 ?x)) = None"
    by (simp add: demo_manager_def ms_Put_def ms_update_def demo_meta_def alist_bolt_def table_codec_def Let_def)
  have a: "cm_ok (bx_cache ?x) (bx_os ?x)" "disk_ok (bx_os ?x)" "bx_writeBack ?x = Some demo_queue"
    "length (wq_jobs demo_queue) < wq_cap demo_queue"
    using demo_empty_ok [of staged_os "[?e]"]
    by (simp_all add: demo_handle_simps disk_ok_def demo_queue_def NewWriteBackQueue_def)
  have b: "bolt_View (ms_bolt (cm_meta (bx_cache ?x))) db = None" for db
    by (simp add: demo_manager_def demo_meta_def alist_bolt_def)
  have c: "h_dirty demo_handle" "h_tmpFile demo_handle = OpenFile ''/tmp/t''" "fmlookup (files (bx_os ?x)) ''/tmp/t'' = Some ''xyz''"
    "h_bucket demo_handle = bx_bucket ?x" "s3_ok (c_inner (h_s3 demo_handle)) mem_objs" "s3_up (c_inner (h_s3 demo_handle)) mem_objs"
    "mem_objs (bx_world ?x) (c_bucket (h_s3 demo_handle), h_key demo_handle) = Some (''old'', ''old'')"
    by (simp_all add: demo_handle_simps demo_s3_def mem_s3_ok mem_s3_up mem_objs_def)
  note r = writeback_read_back [OF a put b c fl, of 0 3]
  have sl: "take 3 ''old'' = ''old''" "take 3 ''xyz'' = ''xyz''" by (simp_all add: numeral_eq_Suc)
  have "fst (h_Read h' 3 0 (3600 * second) f' x') = Inr ''old''" "fst (h_Read h' 3 0 10 f' x') = Inr ''xyz''"
    using r [of "3600 * second"] r [of 10] sl by (simp_all add: demo_handle_def second_def)
  moreover have "tmp_contents (h_tmpFile demo_handle) (bx_os ?x) = ''xyz''"
    by (simp add: demo_handle_simps tmp_contents_def)
  ultimately show ?thesis using fl by (intro exI conjI)
qed

end
