(* ===== verification/Upload_Order.thy ===== *)
theory Upload_Order
  imports Lifecycle
begin

text \<open>
  The order of write-back uploads. The queue hands its jobs out in the order they were submitted; with
  one worker they also end in that order, with several the uploads of one object may overtake
  each other.
\<close>

section \<open>One worker\<close>

text \<open>The jobs in order: ended, held by a worker, waiting; newest last.\<close>

definition in_order :: "'w WriteBackQueue \<Rightarrow> bool" where
  "in_order q \<longleftrightarrow>
     rev (map fst (wq_done q)) @ concat (map held_job (wq_workers q)) @ wq_jobs q = rev (wq_accepted q)"

lemma single_worker: "length ws = 1 \<Longrightarrow> i < length ws \<Longrightarrow> ws = [ws ! i] \<and> ws[i := x] = [x]"
  by (cases ws) auto

lemma wb_step_order:
  assumes "wb_step st st'" and "length (wq_workers (fst st)) = 1" and "in_order (fst st)"
  shows "length (wq_workers (fst st')) = 1 \<and> in_order (fst st')"
  using assms
proof (induction rule: wb_step.induct)
  case (wb_submit q s w job)
  then show ?case by (simp add: in_order_def Submit_def)
next
  case (wb_take i q job jobs s w)
  then show ?case using single_worker [of "wq_workers q" i "Working job"] by (auto simp: in_order_def set_worker_def)
next
  case (wb_finish i q job stop s w result job' s' w')
  then show ?case using single_worker [of "wq_workers q" i Idle] by (auto simp: in_order_def set_worker_def)
next
  case (wb_notice i q s w)
  then show ?case using single_worker [of "wq_workers q" i Draining] by (auto simp: in_order_def set_worker_def)
next
  case (wb_drain i q job jobs s w)
  then show ?case using single_worker [of "wq_workers q" i "DrainWorking job"] by (auto simp: in_order_def set_worker_def)
next
  case (wb_drained i q job s w result job' s' w')
  then show ?case using single_worker [of "wq_workers q" i Draining] by (auto simp: in_order_def set_worker_def)
next
  case (wb_exit i q s w)
  then show ?case using single_worker [of "wq_workers q" i Exited] by (auto simp: in_order_def set_worker_def)
qed (simp_all add: in_order_def)


text \<open>
  The queue on its own: its workers move, jobs are submitted with their contents staged under a name no
  pending job has, and the rest of the program and other users of S3 leave the staged files
  and the objects alone. \<open>C\<close> is what each job has staged.
\<close>

definition pending :: "'w WriteBackQueue \<Rightarrow> UploadJob list" where
  "pending q = concat (map held_job (wq_workers q)) @ wq_jobs q"

inductive wb_alone :: "(UploadJob \<Rightarrow> bytes) \<Rightarrow> ('w \<Rightarrow> s3_content) \<Rightarrow> 'w wb_state \<Rightarrow> 'w wb_state \<Rightarrow> bool"
  for C objs where
  alone_work: "wb_work st st' \<Longrightarrow> wb_alone C objs st st'"
| alone_submit: "fmlookup (files s) (uj_FilePath job) = Some (C job) \<Longrightarrow> uj_FilePath job \<notin> uj_FilePath ` set (pending q) \<Longrightarrow>
    wb_alone C objs (q, s, w) (snd (Submit job q), s, w)"
| alone_stop: "wb_alone C objs (q, s, w) (q\<lparr>wq_stopped := True\<rparr>, s, w)"
| alone_env: "(\<forall>job \<in> set (pending q). fmlookup (files s') (uj_FilePath job) = fmlookup (files s) (uj_FilePath job)) \<Longrightarrow>
    objs w' = objs w \<Longrightarrow> wb_alone C objs (q, s, w) (q, s', w')"

text \<open>What the ended jobs, newest first, have made of the objects.\<close>

fun replay ::
  "(string \<Rightarrow> 'w client option) \<Rightarrow> (UploadJob \<Rightarrow> bytes) \<Rightarrow> (UploadJob \<times> UploadResult) list \<Rightarrow> s3_content \<Rightarrow> s3_content" where
  "replay gc C [] o0 = o0"
| "replay gc C ((job, r) # js) o0 =
     (case (gc (uj_Bucket job), ur_Meta r) of
        (Some c, Some meta) \<Rightarrow> (replay gc C js o0)((c_bucket c, uj_Key job) \<mapsto> (C job, om_ETag meta))
      | _ \<Rightarrow> replay gc C js o0)"

lemma upload_atomic:
  assumes "s3_ok (c_inner c) objs" and "s3_atomic (c_inner c) objs" and "upload c job s w = (Inl e, w')"
  shows "objs w' = objs w"
  using assms(3) s3_atomicD(1) [OF assms(2)]
  by (auto simp: upload_def split: sum.splits prod.splits)

lemma upload_attempts_atomic:
  assumes "s3_ok (c_inner c) objs" and "s3_atomic (c_inner c) objs"
  shows "upload_attempts n a stop c job le s w = (r, s', w') \<Longrightarrow> fmlookup (files s) (uj_FilePath job) = Some d \<Longrightarrow>
    (case ur_Meta r of
       None \<Rightarrow> s' = s \<and> objs w' = objs w
     | Some meta \<Rightarrow> s' = snd (os_Remove (uj_FilePath job) s) \<and>
         objs w' = (objs w)((c_bucket c, uj_Key job) \<mapsto> (d, om_ETag meta)))"
proof (induction n arbitrary: a le w)
  case (Suc n)
  obtain x w1 where u: "upload c job s w = (x, w1)" by (metis surj_pair)
  show ?case
  proof (cases "a > 0 \<and> stop a")
    case True
    with Suc.prems show ?thesis by auto
  next
    case False
    show ?thesis
    proof (cases x)
      case (Inr meta)
      with Suc.prems False u upload_ok [OF assms(1), of job s w meta w1] show ?thesis by auto
    next
      case (Inl e)
      with Suc.prems(1) False u have "upload_attempts n (Suc a) stop c job (Some e) s w1 = (r, s', w')" by auto
      from Suc.IH [OF this Suc.prems(2)] upload_atomic [OF assms, of job s w e w1] u Inl show ?thesis
        by (simp split: option.splits)
    qed
  qed
qed auto

lemma process_atomic:
  assumes "\<And>b c. gc b = Some c \<Longrightarrow> s3_ok (c_inner c) objs \<and> s3_atomic (c_inner c) objs"
    and "process gc n stop job s w = (r, job', s', w')" and "fmlookup (files s) (uj_FilePath job) = Some d"
  shows "(\<forall>q. q \<noteq> uj_FilePath job \<longrightarrow> fmlookup (files s') q = fmlookup (files s) q) \<and>
    objs w' = (case (gc (uj_Bucket job), ur_Meta r) of
        (Some c, Some meta) \<Rightarrow> (objs w)((c_bucket c, uj_Key job) \<mapsto> (d, om_ETag meta))
      | _ \<Rightarrow> objs w)"
proof (cases "gc (uj_Bucket job)")
  case None
  with assms(2) show ?thesis by (auto simp: process_def Let_def)
next
  case (Some c)
  then have "upload_attempts (nat (n + 1)) 0 stop c job None s w = (r, s', w')"
    using assms(2) by (auto simp: process_def split: prod.splits)
  from upload_attempts_atomic [OF _ _ this assms(3), of objs] assms(1) [OF Some] Some show ?thesis
    by (auto simp: os_Remove_files split: option.splits)
qed

definition alone_inv ::
  "(string \<Rightarrow> 'w client option) \<Rightarrow> (UploadJob \<Rightarrow> bytes) \<Rightarrow> ('w \<Rightarrow> s3_content) \<Rightarrow> s3_content \<Rightarrow> 'w wb_state \<Rightarrow> bool" where
  "alone_inv gc C objs o0 st \<longleftrightarrow>
     (case st of (q, s, w) \<Rightarrow>
        length (wq_workers q) = 1 \<and> in_order q \<and> wq_getClient q = gc \<and>
        distinct (map uj_FilePath (pending q)) \<and>
        (\<forall>job \<in> set (pending q). fmlookup (files s) (uj_FilePath job) = Some (C job)) \<and>
        objs w = replay gc C (wq_done q) o0)"

text \<open>A worker's move keeps the pending jobs, or ends the first of them.\<close>

lemma wb_work_pending:
  assumes "wb_work (q, s, w) (q', s', w')" and "length (wq_workers q) = 1"
  shows "wq_getClient q' = wq_getClient q \<and>
    (pending q' = pending q \<and> wq_done q' = wq_done q \<and> s' = s \<and> w' = w \<or>
     (\<exists>job r job' stop. pending q = job # pending q' \<and> wq_done q' = (job, r) # wq_done q \<and>
        process (wq_getClient q) (wq_maxRetries q) stop job s w = (r, job', s', w')))"
  using assms
proof (cases rule: wb_work.cases)
  case (work_take i job jobs)
  then show ?thesis
    using single_worker [of "wq_workers q" i "Working job"] assms(2) by (auto simp: pending_def set_worker_def)
next
  case (work_finish i job stop result job')
  then have "pending q = job # wq_jobs q" "pending q' = wq_jobs q"
    using single_worker [of "wq_workers q" i Idle] assms(2) by (auto simp: pending_def set_worker_def)
  with work_finish show ?thesis by (auto simp: set_worker_def)
next
  case (work_notice i)
  then show ?thesis
    using single_worker [of "wq_workers q" i Draining] assms(2) by (auto simp: pending_def set_worker_def)
next
  case (work_drain i job jobs)
  then show ?thesis
    using single_worker [of "wq_workers q" i "DrainWorking job"] assms(2) by (auto simp: pending_def set_worker_def)
next
  case (work_drained i job result job')
  then have "pending q = job # wq_jobs q" "pending q' = wq_jobs q"
    using single_worker [of "wq_workers q" i Draining] assms(2) by (auto simp: pending_def set_worker_def)
  with work_drained show ?thesis by (auto simp: set_worker_def)
next
  case (work_exit i)
  then show ?thesis
    using single_worker [of "wq_workers q" i Exited] assms(2) by (auto simp: pending_def set_worker_def)
qed


lemma alone_inv_step:
  assumes "\<And>b c. gc b = Some c \<Longrightarrow> s3_ok (c_inner c) objs \<and> s3_atomic (c_inner c) objs"
    and "wb_alone C objs st st'" and "alone_inv gc C objs o0 st"
  shows "alone_inv gc C objs o0 st'"
  using assms(2,3)
proof (induction rule: wb_alone.induct)
  case (alone_work st st')
  obtain q s w q' s' w' where st: "st = (q, s, w)" "st' = (q', s', w')" by (metis prod_cases3)
  note inv = alone_work(2) [unfolded st alone_inv_def prod.case]
  note wk = alone_work(1) [unfolded st]
  have o: "length (wq_workers q') = 1" "in_order q'"
    using wb_step_order [OF wb_work_step [OF wk]] inv by simp_all
  from wb_work_pending [OF wk] inv have gc': "wq_getClient q' = gc" by simp
  consider (kept) "pending q' = pending q" "wq_done q' = wq_done q" "s' = s" "w' = w"
    | (ended) job r job' stop where "pending q = job # pending q'" "wq_done q' = (job, r) # wq_done q"
        "process gc (wq_maxRetries q) stop job s w = (r, job', s', w')"
    using wb_work_pending [OF wk] inv by auto
  then show ?case
  proof cases
    case kept
    with o gc' inv show ?thesis by (simp add: st alone_inv_def)
  next
    case ended
    have f: "fmlookup (files s) (uj_FilePath job) = Some (C job)" using inv ended(1) by simp
    from process_atomic [OF assms(1) ended(3) f]
    have p: "\<And>q. q \<noteq> uj_FilePath job \<Longrightarrow> fmlookup (files s') q = fmlookup (files s) q"
      "objs w' = replay gc C (wq_done q') o0"
      using inv ended(2) by (auto split: option.splits)
    have "fmlookup (files s') (uj_FilePath j) = Some (C j)" if "j \<in> set (pending q')" for j
    proof -
      have "uj_FilePath j \<in> uj_FilePath ` set (pending q')" using that by (rule imageI)
      then have "uj_FilePath j \<noteq> uj_FilePath job" using inv ended(1) by auto
      with p(1) inv ended(1) that show ?thesis by simp
    qed
    with o gc' inv p(2) ended(1) show ?thesis by (simp add: st alone_inv_def)
  qed
next
  case (alone_submit s job q w)
  have "in_order (snd (Submit job q)) \<and> length (wq_workers (snd (Submit job q))) = 1"
    using wb_step_order [OF wb_submit [of q s w job]] alone_submit(3) by (simp add: alone_inv_def)
  moreover have "pending (snd (Submit job q)) = pending q @ (if length (wq_jobs q) < wq_cap q then [job] else [])"
    by (simp add: pending_def Submit_def)
  ultimately show ?case using alone_submit by (auto simp: alone_inv_def) (auto simp: Submit_def)
qed (auto simp: alone_inv_def in_order_def pending_def)


section \<open>Several workers\<close>

text \<open>C37: with several workers an older write may win. If the first two waiting jobs are uploads of the
  same object and two workers are idle, there is a run in which both uploads succeed and the object
  ends as what the \<^emph>\<open>earlier\<close> flush wrote: the later one is overtaken, and nothing uploads it again.\<close>

theorem uploads_overtake:
  assumes "s3_ok (c_inner c) objs" and "wq_getClient q (uj_Bucket j1) = Some c" and "uj_Key j2 = uj_Key j1"
    and "wq_jobs q = j1 # j2 # js" and "i \<noteq> k" and "i < length (wq_workers q)" and "k < length (wq_workers q)"
    and "wq_workers q ! i = Idle" and "wq_workers q ! k = Idle"
    and "fmlookup (files s2) (uj_FilePath j1) = Some d1"
    and "process (wq_getClient q) (wq_maxRetries q) (\<lambda>_. False) j2 s w = (r2, j2', s2, w2)"
    and "process (wq_getClient q) (wq_maxRetries q) (\<lambda>_. False) j1 s2 w2 = (r1, j1', s1, w1)"
    and "ur_Meta r2 = Some m2" and "ur_Meta r1 = Some m1"
  shows "\<exists>q'. wb_step\<^sup>*\<^sup>* (q, s, w) (q', s1, w1) \<and> wq_jobs q' = js \<and> wq_done q' = (j1, r1) # (j2, r2) # wq_done q \<and>
    objs w1 (c_bucket c, uj_Key j2) = Some (d1, om_ETag m1)"
proof -
  let ?qa = "set_worker i (Working j1) (q\<lparr>wq_jobs := j2 # js\<rparr>)"
  let ?qb = "set_worker k (Working j2) (?qa\<lparr>wq_jobs := js\<rparr>)"
  let ?qc = "set_worker k Idle (?qb\<lparr>wq_done := (j2, r2) # wq_done ?qb\<rparr>)"
  let ?qd = "set_worker i Idle (?qc\<lparr>wq_done := (j1, r1) # wq_done ?qc\<rparr>)"
  have "wb_step (q, s, w) (?qa, s, w)" by (rule wb_take [OF assms(6,8,4)])
  moreover have "wb_step (?qa, s, w) (?qb, s, w)"
    by (rule wb_take) (use assms(5,7,9) in \<open>simp_all add: set_worker_def\<close>)
  moreover have "wb_step (?qb, s, w) (?qc, s2, w2)"
    by (rule wb_finish [where stop = "\<lambda>_. False"]) (use assms(7,11) in \<open>simp_all add: set_worker_def\<close>)
  moreover have "wb_step (?qc, s2, w2) (?qd, s1, w1)"
    by (rule wb_finish [where stop = "\<lambda>_. False"]) (use assms(5,6,12) in \<open>simp_all add: set_worker_def\<close>)
  ultimately have "wb_step\<^sup>*\<^sup>* (q, s, w) (?qd, s1, w1)" by (meson rtranclp.rtrancl_refl rtranclp.rtrancl_into_rtrancl)
  moreover have "wq_jobs ?qd = js \<and> wq_done ?qd = (j1, r1) # (j2, r2) # wq_done q" by (simp add: set_worker_def)
  moreover have "objs w1 (c_bucket c, uj_Key j2) = Some (d1, om_ETag m1)"
  proof -
    have "upload_attempts (nat (wq_maxRetries q + 1)) 0 (\<lambda>_. False) c j1 None s2 w2 = (r1, s1, w1)"
      using assms(2,12) by (auto simp: process_def split: prod.splits)
    from upload_attempts_spec [OF assms(1) this] assms(3,10,14) show ?thesis by auto
  qed
  ultimately show ?thesis by blast
qed


section \<open>Witnesses\<close>


lemma mem_process:
  assumes "fmlookup (files s) (uj_FilePath j) = Some d" and "fault s = (\<lambda>_ _. None)" and "uj_DoneCh j = None"
  shows "process (\<lambda>_. Some demo_s3) 3 (\<lambda>_. False) j s w =
    (\<lparr>ur_Meta = Some \<lparr>om_ETag = d, om_Size = int (length d), om_LastModified = zero_time, om_ContentType = []\<rparr>, ur_Err = None\<rparr>,
     j, snd (os_Remove (uj_FilePath j) s), AList.update (''b'', uj_Key j) (d, 0) w)"
proof -
  have "upload demo_s3 j s w =
      (Inr \<lparr>om_ETag = d, om_Size = int (length d), om_LastModified = zero_time, om_ContentType = []\<rparr>,
       AList.update (''b'', uj_Key j) (d, 0) w)"
    using assms by (simp add: upload_def os_Open_def os_Stat_def demo_s3_def PutObject_def mem_s3_def)
  moreover have "nat (3 + 1) = Suc 3" by simp
  ultimately show ?thesis using assms(3) by (simp only: process_def upload_attempts.simps) (simp add: sendResult_def)
qed

text \<open>The object is written twice, \<open>xyz\<close> first and then \<open>new\<close>; two workers leave \<open>xyz\<close>.\<close>

theorem uploads_overtake_witness:
  "\<exists>q s w t. wb_step\<^sup>*\<^sup>* (snd (Submit (demo_job\<lparr>uj_FilePath := ''/tmp/u''\<rparr>) (snd (Submit demo_job (NewWriteBackQueue 2 8 3 (\<lambda>_. Some demo_s3))))),
      staged_os\<lparr>files := fmupd ''/tmp/u'' ''new'' (files staged_os)\<rparr>, []) (q, s, w) \<and>
     wq_jobs q = [] \<and> mem_objs w (''b'', ''d/f'') = Some (''xyz'', t)"
proof -
  let ?gc = "\<lambda>_ :: string. Some demo_s3"
  let ?j2 = "demo_job\<lparr>uj_FilePath := ''/tmp/u''\<rparr>"
  let ?q = "snd (Submit ?j2 (snd (Submit demo_job (NewWriteBackQueue 2 8 3 ?gc))))"
  let ?s = "staged_os\<lparr>files := fmupd ''/tmp/u'' ''new'' (files staged_os)\<rparr>"
  let ?s2 = "snd (os_Remove (uj_FilePath ?j2) ?s)" and ?w2 = "AList.update (''b'', uj_Key ?j2) (''new'', 0) [] :: mem_world"
  have q: "wq_getClient ?q = ?gc" "wq_maxRetries ?q = 3" "wq_jobs ?q = demo_job # ?j2 # []" "wq_workers ?q = [Idle, Idle]"
    by (simp_all add: NewWriteBackQueue_def Submit_def numeral_2_eq_2)
  have f: "fmlookup (files ?s) (uj_FilePath ?j2) = Some ''new''" "fault ?s = (\<lambda>_ _. None)" "uj_DoneCh ?j2 = None"
    "fmlookup (files ?s2) (uj_FilePath demo_job) = Some ''xyz''" "fault ?s2 = (\<lambda>_ _. None)" "uj_DoneCh demo_job = None"
    by (simp_all add: os_Remove_files staged_os_def demo_os_def demo_job_def)
  let ?r = "\<lambda>d :: bytes. \<lparr>ur_Meta = Some \<lparr>om_ETag = d, om_Size = int (length d), om_LastModified = zero_time, om_ContentType = []\<rparr>,
    ur_Err = None\<rparr>"
  have p2: "process (wq_getClient ?q) (wq_maxRetries ?q) (\<lambda>_. False) ?j2 ?s [] = (?r ''new'', ?j2, ?s2, ?w2)"
    unfolding q(1,2) by (rule mem_process [OF f(1-3)])
  have p1: "process (wq_getClient ?q) (wq_maxRetries ?q) (\<lambda>_. False) demo_job ?s2 ?w2 =
      (?r ''xyz'', demo_job, snd (os_Remove (uj_FilePath demo_job) ?s2), AList.update (''b'', uj_Key demo_job) (''xyz'', 0) ?w2)"
    unfolding q(1,2) by (rule mem_process [OF f(4-6)])
  have a: "s3_ok (c_inner demo_s3) mem_objs" "wq_getClient ?q (uj_Bucket demo_job) = Some demo_s3"
    "uj_Key ?j2 = uj_Key demo_job" "(0::nat) \<noteq> 1" "0 < length (wq_workers ?q)" "1 < length (wq_workers ?q)"
    "wq_workers ?q ! 0 = Idle" "wq_workers ?q ! 1 = Idle"
    unfolding q by (simp_all add: demo_s3_def mem_s3_ok)
  have r: "ur_Meta (?r ''new'') = Some \<lparr>om_ETag = ''new'', om_Size = int (length ''new''), om_LastModified = zero_time, om_ContentType = []\<rparr>"
    "ur_Meta (?r ''xyz'') = Some \<lparr>om_ETag = ''xyz'', om_Size = int (length ''xyz''), om_LastModified = zero_time, om_ContentType = []\<rparr>"
    by (simp_all only: UploadResult.select_convs)
  from uploads_overtake [OF a(1-3) q(3) a(4-8) f(4) p2 p1 r] obtain q' s w t where
    "wb_step\<^sup>*\<^sup>* (?q, ?s, []) (q', s, w)" "wq_jobs q' = []" "mem_objs w (c_bucket demo_s3, uj_Key ?j2) = Some (''xyz'', t)"
    by blast
  then show ?thesis by (intro exI conjI) (simp_all add: demo_s3_def demo_job_def)
qed

end
