(* ===== verification/Write_Back_Mount.thy ===== *)
theory Write_Back_Mount
  imports Mount_Steps Upload_Order
begin

text \<open>
  A mount in write-back mode as a whole: its requests and the moves of the queue's workers, in any
  order, and the file system with pending uploads it stands for. \<open>Write_Back_Refines\<close> proves
  that the one implements the other.
\<close>

section \<open>The workers' moves as a function\<close>

text \<open>
  A worker takes the first waiting job, ends the one it holds, or leaves; \<open>stop\<close> tells at which
  retries it sees the stop channel closed. A move that is not possible does nothing.
\<close>

datatype wb_move =
    Take nat
  | Finish nat "nat \<Rightarrow> bool"
  | Leave nat
  | StopQueue

fun take_job :: "worker \<Rightarrow> UploadJob \<Rightarrow> worker" where
  "take_job Idle job = Working job"
| "take_job Draining job = DrainWorking job"
| "take_job w job = w"

fun end_job :: "worker \<Rightarrow> worker" where
  "end_job (Working job) = Idle"
| "end_job (DrainWorking job) = Draining"
| "end_job w = w"

fun worker_move :: "wb_move \<Rightarrow> 'w wb_state \<Rightarrow> 'w wb_state" where
  "worker_move (Take i) (q, s, w) =
     (if i < length (wq_workers q) \<and> wq_workers q ! i \<in> {Idle, Draining}
      then (case wq_jobs q of
              [] \<Rightarrow> (q, s, w)
            | job # jobs \<Rightarrow> (set_worker i (take_job (wq_workers q ! i) job) (q\<lparr>wq_jobs := jobs\<rparr>), s, w))
      else (q, s, w))"
| "worker_move (Finish i stop) (q, s, w) =
     (if i < length (wq_workers q)
      then (case held_job (wq_workers q ! i) of
              [] \<Rightarrow> (q, s, w)
            | job # _ \<Rightarrow>
                (case process (wq_getClient q) (wq_maxRetries q)
                        (\<lambda>k. wq_workers q ! i = DrainWorking job \<or> stop k \<and> wq_stopped q) job s w of
                   (result, _, s', w') \<Rightarrow>
                     (set_worker i (end_job (wq_workers q ! i)) (q\<lparr>wq_done := (job, result) # wq_done q\<rparr>), s', w')))
      else (q, s, w))"
| "worker_move (Leave i) (q, s, w) =
     (if i < length (wq_workers q) \<and> wq_workers q ! i = Idle \<and> wq_stopped q then (set_worker i Draining q, s, w)
      else if i < length (wq_workers q) \<and> wq_workers q ! i = Draining \<and> wq_jobs q = [] then (set_worker i Exited q, s, w)
      else (q, s, w))"
| "worker_move StopQueue (q, s, w) = (q\<lparr>wq_stopped := True\<rparr>, s, w)"

text \<open>These are the moves of \<open>writeback.go\<close>'s transition system, and all of its workers' moves.\<close>

lemma worker_move_step: "wb_step st (worker_move mv st)"
proof -
  obtain q s w where st: "st = (q, s, w)" by (rule prod_cases3)
  have stay: "wb_step (q, s, w) (q, s, w)" by (rule wb_env)
  show ?thesis
  proof (cases mv)
    case (Take i)
    with stay wb_take [of i q] wb_drain [of i q] show ?thesis by (auto simp: st split: list.split)
  next
    case (Finish i stop)
    show ?thesis
    proof (cases "i < length (wq_workers q)")
      case True
      show ?thesis
      proof (cases "wq_workers q ! i")
        case (Working job)
        with Finish True wb_finish [OF True Working, of "\<lambda>k. stop k \<and> wq_stopped q"] show ?thesis
          by (auto simp: st split: prod.split)
      next
        case (DrainWorking job)
        with Finish True wb_drained [OF True DrainWorking] show ?thesis by (auto simp: st split: prod.split)
      qed (use stay Finish in \<open>simp_all add: st\<close>)
    qed (use stay Finish in \<open>simp add: st\<close>)
  next
    case (Leave i)
    with stay wb_notice [of i q] wb_exit [of i q] show ?thesis by (auto simp: st)
  next
    case StopQueue
    then show ?thesis by (simp add: st wb_stop)
  qed
qed

lemma wb_work_move: "wb_work st st' \<Longrightarrow> \<exists>mv. st' = worker_move mv st"
proof (induction rule: wb_work.induct)
  case (work_take i q job jobs s w)
  then show ?case by (intro exI [of _ "Take i"]) simp
next
  case (work_finish i q job stop s w result job' s' w')
  then have "stop = (\<lambda>k. stop k \<and> wq_stopped q)" by auto
  with work_finish show ?case by (intro exI [of _ "Finish i stop"]) simp
next
  case (work_notice i q s w)
  then show ?case by (intro exI [of _ "Leave i"]) simp
next
  case (work_drain i q job jobs s w)
  then show ?case by (intro exI [of _ "Take i"]) simp
next
  case (work_drained i q job s w result job' s' w')
  then show ?case by (intro exI [of _ "Finish i (\<lambda>_. True)"]) simp
next
  case (work_exit i q s w)
  then show ?case by (intro exI [of _ "Leave i"]) simp
qed

section \<open>The mount with its queue\<close>

datatype wb_req = Kernel "time \<times> fs_req" | Worker wb_move

fun wb_mount_do :: "wb_req \<Rightarrow> ('db, 'w) mount \<Rightarrow> fs_reply \<times> ('db, 'w) mount" where
  "wb_mount_do (Kernel tr) m = mount_do tr m"
| "wb_mount_do (Worker mv) m =
     (case bx_writeBack (mt_ctx m) of
        None \<Rightarrow> (Done, m)
      | Some q \<Rightarrow>
          (case worker_move mv (q, bx_os (mt_ctx m), bx_world (mt_ctx m)) of (q, s, w) \<Rightarrow>
             (Done, m\<lparr>mt_ctx := (mt_ctx m)\<lparr>bx_writeBack := Some q, bx_os := s, bx_world := w\<rparr>\<rparr>)))"

section \<open>The specification\<close>

text \<open>
  The file system with a cache, and what has been flushed but is not an object yet: waiting uploads, oldest first,
  those the workers hold, and those given up, whose data stays on disk. \<open>fs_cap\<close> is the length of the queue.
\<close>

record wfs = cfs +
  fs_queue :: "(string \<times> bytes) list"
  fs_busy :: "nat \<rightharpoonup> string \<times> bytes"
  fs_left :: "(string \<times> bytes) list"
  fs_cap :: nat

text \<open>A flush empties the buffer. With room in the queue it cannot fail; without, the data goes to S3 at once, or is lost.\<close>

fun wfs_step :: "wb_req \<Rightarrow> fs_reply \<Rightarrow> wfs \<Rightarrow> wfs \<Rightarrow> bool" where
  "wfs_step (Kernel (t, FsFlush i f)) out a a' \<longleftrightarrow>
     (case fs_open a i of
        None \<Rightarrow> out = Failed EINVAL \<and> a' = a
      | Some (k, b, dirty) \<Rightarrow>
          if \<not> dirty then out = Done \<and> a' = a
          else let a1 = a\<lparr>fs_open := (fs_open a)(i \<mapsto> (k, [], False)), fs_view := (fs_view a)(k \<mapsto> b)\<rparr>
               in if length (fs_queue a) < fs_cap a then out = Done \<and> a' = a1\<lparr>fs_queue := fs_queue a @ [(k, b)]\<rparr>
                  else out = Done \<and> a' = a1\<lparr>fs_objs := (fs_objs a)(k \<mapsto> b)\<rparr> \<or> out = Failed EIO \<and> a' = a1)"
| "wfs_step (Kernel (t, r)) out a a' \<longleftrightarrow>
     cached_step r out (cfs.truncate a) (cfs.truncate a') \<and>
     fs_queue a' = fs_queue a \<and> fs_busy a' = fs_busy a \<and> fs_left a' = fs_left a \<and> fs_cap a' = fs_cap a"
| "wfs_step (Worker (Take i)) out a a' \<longleftrightarrow> out = Done \<and>
     (a' = a \<or>
      (\<exists>j js. fs_queue a = j # js \<and> fs_busy a i = None \<and> a' = a\<lparr>fs_queue := js, fs_busy := (fs_busy a)(i \<mapsto> j)\<rparr>))"
| "wfs_step (Worker (Finish i stop)) out a a' \<longleftrightarrow> out = Done \<and>
     (case fs_busy a i of
        None \<Rightarrow> a' = a
      | Some (k, c) \<Rightarrow>
          a' = a\<lparr>fs_busy := (fs_busy a)(i := None), fs_objs := (fs_objs a)(k \<mapsto> c)\<rparr> \<or>
          a' = a\<lparr>fs_busy := (fs_busy a)(i := None), fs_left := (k, c) # fs_left a\<rparr>)"
| "wfs_step (Worker mv) out a a' \<longleftrightarrow> out = Done \<and> a' = a"

section \<open>The invariant\<close>

lemma open_simps [simp]:
  "open_ok K (x\<lparr>bx_writeBack := wb\<rparr>) hs = open_ok K x hs" "open_abs (x\<lparr>bx_writeBack := wb\<rparr>) hs = open_abs x hs"
  "open_ok K (x\<lparr>bx_world := w\<rparr>) hs = open_ok K x hs" "open_abs (x\<lparr>bx_world := w\<rparr>) hs = open_abs x hs"
  by (simp_all add: open_ok_def handle_ok_def open_abs_def)

lemma ctx_base_simps [simp]:
  "ctx_base objs K (x\<lparr>bx_writeBack := wb\<rparr>) = ctx_base objs K x" "ctx_base objs K (x\<lparr>bx_world := w\<rparr>) = ctx_base objs K x"
  by (simp_all add: ctx_base_def)

text \<open>The jobs whose staged file is still needed.\<close>

definition left_jobs :: "'w WriteBackQueue \<Rightarrow> UploadJob list" where
  "left_jobs q = map fst (filter (\<lambda>(job, r). ur_Meta r = None) (wq_done q))"

definition staged :: "'w WriteBackQueue \<Rightarrow> UploadJob multiset" where
  "staged q = mset (wq_jobs q) + in_flight (wq_workers q) + mset (left_jobs q)"

definition staged_ok :: "('db, 'w) bucketCtx \<Rightarrow> 'w WriteBackQueue \<Rightarrow> bool" where
  "staged_ok x q \<longleftrightarrow>
     (\<forall>p. count (image_mset uj_FilePath (staged q)) p \<le> 1) \<and>
     (\<forall>job \<in># staged q. staged_name (uj_FilePath job) \<and> uj_Bucket job = bx_bucket x \<and>
        fmlookup (files (bx_os x)) (uj_FilePath job) \<noteq> None)"

text \<open>
  A name of a temporary file is not drawn while an upload staged under it is pending: \<open>os.CreateTemp\<close> does
  not promise this, its names are random.
\<close>

definition temp_unstaged :: "os \<Rightarrow> bool" where
  "temp_unstaged s \<longleftrightarrow> (\<forall>fs. fmlookup fs (temp_name s [] ''s3gw-upload-*'' fs @ ''.wb'') = None)"

definition wb_mount_ok :: "('w \<Rightarrow> s3_content) \<Rightarrow> string set \<Rightarrow> ('db, 'w) mount \<Rightarrow> bool" where
  "wb_mount_ok objs K m \<longleftrightarrow> base_ok objs K m \<and> temp_unstaged (bx_os (mt_ctx m)) \<and>
     (\<forall>i h p. map_of (mt_handles m) i = Some h \<longrightarrow> h_tmpFile h = OpenFile p \<longrightarrow>
        fmlookup (files (bx_os (mt_ctx m))) (p @ ''.wb'') = None) \<and>
     (\<exists>q. bx_writeBack (mt_ctx m) = Some q \<and> staged_ok (mt_ctx m) q \<and>
        wq_getClient q (bx_bucket (mt_ctx m)) = Some (bx_s3 (mt_ctx m)))"

text \<open>The contents of a job's staged file, and what a mount with its queue stands for.\<close>

definition job_data :: "os \<Rightarrow> UploadJob \<Rightarrow> string \<times> bytes" where
  "job_data s job = (uj_Key job, case fmlookup (files s) (uj_FilePath job) of Some c \<Rightarrow> c | None \<Rightarrow> [])"

definition busy_data :: "os \<Rightarrow> worker list \<Rightarrow> nat \<rightharpoonup> string \<times> bytes" where
  "busy_data s ws i =
     (if i < length ws then (case held_job (ws ! i) of [] \<Rightarrow> None | job # _ \<Rightarrow> Some (job_data s job)) else None)"

definition wfs_of :: "os \<Rightarrow> 'w WriteBackQueue \<Rightarrow> cfs \<Rightarrow> wfs" where
  "wfs_of s q a =
     \<lparr>fs_objs = fs_objs a, fs_open = fs_open a, fs_view = fs_view a,
      fs_queue = map (job_data s) (wq_jobs q), fs_busy = busy_data s (wq_workers q),
      fs_left = map (job_data s) (left_jobs q), fs_cap = wq_cap q\<rparr>"

lemma wfs_of_simps [simp]:
  "cfs.truncate (wfs_of s q a) = a" "fs_objs (wfs_of s q a) = fs_objs a" "fs_open (wfs_of s q a) = fs_open a"
  "fs_view (wfs_of s q a) = fs_view a" "fs_queue (wfs_of s q a) = map (job_data s) (wq_jobs q)"
  "fs_busy (wfs_of s q a) = busy_data s (wq_workers q)" "fs_left (wfs_of s q a) = map (job_data s) (left_jobs q)"
  "fs_cap (wfs_of s q a) = wq_cap q"
  by (simp_all add: wfs_of_def cfs.truncate_def)

definition wfs_abs :: "('w \<Rightarrow> s3_content) \<Rightarrow> string set \<Rightarrow> ('db, 'w) mount \<Rightarrow> wfs" where
  "wfs_abs objs K m =
     wfs_of (bx_os (mt_ctx m))
       (case bx_writeBack (mt_ctx m) of Some q \<Rightarrow> q | None \<Rightarrow> NewWriteBackQueue 0 0 0 (\<lambda>_. None)) (cfs_abs objs K m)"

fun wb_legal :: "string set \<Rightarrow> wb_req \<Rightarrow> bool" where
  "wb_legal K (Kernel tr) \<longleftrightarrow> legal_req K tr"
| "wb_legal K (Worker mv) \<longleftrightarrow> True"

end
