(* ===== verification/Write_Back_Refines.thy ===== *)
theory Write_Back_Refines
  imports Write_Back_Mount Mount_Serves
begin

text \<open>
  A mount in write-back mode with its queue implements the file system with pending uploads: no
  acknowledged flush is forgotten, whatever the workers and the users do and in whatever order.
\<close>

section \<open>The staged files\<close>

lemma staged_Submit:
  assumes "length (wq_jobs q) < wq_cap q"
  shows "staged (snd (Submit job q)) = add_mset job (staged q)"
  using assms by (simp add: staged_def Submit_def left_jobs_def)

lemma staged_worker:
  assumes "i < length (wq_workers q)"
    and "mset jobs + held x + mset (left_jobs (q\<lparr>wq_done := dn\<rparr>)) + M =
      mset (wq_jobs q) + held (wq_workers q ! i) + mset (left_jobs q)"
  shows "staged (set_worker i x (q\<lparr>wq_jobs := jobs, wq_done := dn\<rparr>)) + M = staged q"
proof -
  let ?ws = "(wq_workers q)[i := x]"
  have "staged (set_worker i x (q\<lparr>wq_jobs := jobs, wq_done := dn\<rparr>)) + M + held (wq_workers q ! i) =
      (in_flight ?ws + held (wq_workers q ! i)) + (mset jobs + mset (left_jobs (q\<lparr>wq_done := dn\<rparr>)) + M)"
    by (simp add: staged_def set_worker_def left_jobs_def ac_simps)
  also have "\<dots> = (mset jobs + held x + mset (left_jobs (q\<lparr>wq_done := dn\<rparr>)) + M) + in_flight (wq_workers q)"
    unfolding in_flight_update [OF assms(1)] by (simp add: ac_simps)
  also have "\<dots> = staged q + held (wq_workers q ! i)" unfolding assms(2) by (simp add: staged_def ac_simps)
  finally show ?thesis by simp
qed

lemma held_in_flight: "i < length ws \<Longrightarrow> job \<in># held (ws ! i) \<Longrightarrow> job \<in># in_flight ws"
  by (induction ws arbitrary: i) (auto simp: in_flight_def less_Suc_eq_0_disj)

lemma mset_held_job: "mset (held_job w) = held w"
  by (cases w) simp_all

lemma staged_members:
  "job \<in> set (wq_jobs q) \<Longrightarrow> job \<in># staged q"
  "job \<in> set (left_jobs q) \<Longrightarrow> job \<in># staged q"
  "i < length (wq_workers q) \<Longrightarrow> held_job (wq_workers q ! i) = job # js \<Longrightarrow> job \<in># staged q"
proof -
  show "job \<in># staged q" if "job \<in> set (wq_jobs q)" using that by (simp add: staged_def)
  show "job \<in># staged q" if "job \<in> set (left_jobs q)" using that by (simp add: staged_def)
  show "job \<in># staged q" if "i < length (wq_workers q)" "held_job (wq_workers q ! i) = job # js"
  proof -
    have "job \<in># held (wq_workers q ! i)" unfolding mset_held_job [symmetric] by (simp add: that(2))
    with held_in_flight [OF that(1)] show ?thesis by (simp add: staged_def)
  qed
qed

text \<open>Only the staged files matter to what is pending.\<close>

lemma wfs_of_cong:
  assumes "\<And>job. job \<in># staged q \<Longrightarrow> fmlookup (files s') (uj_FilePath job) = fmlookup (files s) (uj_FilePath job)"
  shows "wfs_of s' q a = wfs_of s q a"
proof -
  have d: "job_data s' job = job_data s job" if "job \<in># staged q" for job
    using assms [OF that] by (simp add: job_data_def)
  have "busy_data s' (wq_workers q) = busy_data s (wq_workers q)"
    by (auto simp: busy_data_def fun_eq_iff split: list.split intro!: d staged_members(3))
  then show ?thesis by (simp add: wfs_of_def) (use d staged_members(1,2) [of _ q] in blast)
qed

lemma staged_ok_cong:
  assumes "staged_ok x q" and "bx_bucket x' = bx_bucket x"
    and "\<And>job. job \<in># staged q \<Longrightarrow> fmlookup (files (bx_os x')) (uj_FilePath job) = fmlookup (files (bx_os x)) (uj_FilePath job)"
  shows "staged_ok x' q"
  using assms by (simp add: staged_ok_def)

lemma staged_temp_path: "staged_name p \<Longrightarrow> temp_path p"
  using staged_not_cached by (auto simp: staged_name_def temp_path_def)

text \<open>A step that touches no staged file but names that have no file yet.\<close>

lemma staged_keep:
  assumes "staged_ok x q" and "local_step A x x'" and "\<And>p. p \<in> A \<Longrightarrow> staged_name p \<Longrightarrow> fmlookup (files (bx_os x)) p = None"
    and "job \<in># staged q"
  shows "fmlookup (files (bx_os x')) (uj_FilePath job) = fmlookup (files (bx_os x)) (uj_FilePath job)"
proof -
  have j: "staged_name (uj_FilePath job)" "fmlookup (files (bx_os x)) (uj_FilePath job) \<noteq> None"
    using assms(1,4) by (simp_all add: staged_ok_def)
  have "uj_FilePath job \<notin> A" using assms(3) [of "uj_FilePath job"] j by auto
  with assms(2) staged_temp_path [OF j(1)] show ?thesis unfolding local_step_def by blast
qed

lemma wb_mount_okD:
  assumes "wb_mount_ok objs K m"
  obtains q where "base_ok objs K m" "temp_unstaged (bx_os (mt_ctx m))" "bx_writeBack (mt_ctx m) = Some q"
    "staged_ok (mt_ctx m) q" "wq_getClient q (bx_bucket (mt_ctx m)) = Some (bx_s3 (mt_ctx m))"
    "wfs_abs objs K m = wfs_of (bx_os (mt_ctx m)) q (cfs_abs objs K m)"
proof -
  from assms obtain q where q: "bx_writeBack (mt_ctx m) = Some q" "staged_ok (mt_ctx m) q"
    "wq_getClient q (bx_bucket (mt_ctx m)) = Some (bx_s3 (mt_ctx m))"
    unfolding wb_mount_ok_def by blast
  have b: "base_ok objs K m" "temp_unstaged (bx_os (mt_ctx m))" using assms unfolding wb_mount_ok_def by blast+
  have "wfs_abs objs K m = wfs_of (bx_os (mt_ctx m)) q (cfs_abs objs K m)" by (simp add: wfs_abs_def q(1))
  from that [OF b q this] show thesis .
qed

lemma wb_mount_ok_unstaged:
  "wb_mount_ok objs K m \<Longrightarrow> map_of (mt_handles m) i = Some h \<Longrightarrow> h_tmpFile h = OpenFile p \<Longrightarrow>
     fmlookup (files (bx_os (mt_ctx m))) (p @ ''.wb'') = None"
  unfolding wb_mount_ok_def by blast

section \<open>Requests that flush nothing\<close>

text \<open>Such a request touches no staged file, so nothing pending changes.\<close>

lemma kernel_step_wb:
  assumes "wb_mount_ok objs K m" and "base_ok objs K m'" and "kernel_step m m'" and "bx_writeBack (mt_ctx m) = Some q"
  shows "wb_mount_ok objs K m' \<and> wfs_abs objs K m' = wfs_of (bx_os (mt_ctx m)) q (cfs_abs objs K m')"
proof -
  let ?x = "mt_ctx m" and ?x' = "mt_ctx m'"
  from assms(1) obtain q' where w: "base_ok objs K m" "temp_unstaged (bx_os ?x)" "bx_writeBack ?x = Some q'" "staged_ok ?x q'"
    "wq_getClient q' (bx_bucket ?x) = Some (bx_s3 ?x)"
    by (rule wb_mount_okD)
  have q: "q' = q" using w(3) assms(4) by simp
  obtain A where st: "local_step A ?x ?x'" and A: "\<forall>p \<in> A. \<not> staged_name p"
    using assms(3) by (auto simp: kernel_step_def)
  have keep: "fmlookup (files (bx_os ?x')) p = fmlookup (files (bx_os ?x)) p" if "staged_name p" for p
    using st A that staged_temp_path [OF that] by (auto simp: local_step_def)
  have sk: "fmlookup (files (bx_os ?x')) (uj_FilePath job) = fmlookup (files (bx_os ?x)) (uj_FilePath job)" if "job \<in># staged q" for job
    by (rule staged_keep [OF w(4) [unfolded q] st _ that]) (use A in blast)
  have env: "bx_s3 ?x' = bx_s3 ?x" "bx_bucket ?x' = bx_bucket ?x" "bx_writeBack ?x' = Some q" "temp_name (bx_os ?x') = temp_name (bx_os ?x)"
    using st assms(4) by (simp_all add: local_step_def)
  have so: "staged_ok ?x' q" by (rule staged_ok_cong [OF w(4) [unfolded q] env(2) sk])
  have "fmlookup (files (bx_os ?x')) (p @ ''.wb'') = None" if h: "map_of (mt_handles m') i = Some h'" "h_tmpFile h' = OpenFile p" for i h' p
  proof -
    have "h_tmpFile h' = OpenFile (upload_temp (bx_os ?x)) \<or> (\<exists>h0. map_of (mt_handles m) i = Some h0 \<and> h_tmpFile h' = h_tmpFile h0)"
      using assms(3) h(1) unfolding kernel_step_def by blast
    then have "fmlookup (files (bx_os ?x)) (p @ ''.wb'') = None"
    proof
      assume "h_tmpFile h' = OpenFile (upload_temp (bx_os ?x))"
      then have "p = upload_temp (bx_os ?x)" using h(2) by simp
      with w(2) show ?thesis by (simp add: temp_unstaged_def upload_temp_def)
    qed (use wb_mount_ok_unstaged [OF assms(1)] h(2) in auto)
    then show ?thesis using keep [of "p @ ''.wb''"] by (simp add: staged_name_def)
  qed
  then have "wb_mount_ok objs K m'"
    using assms(2) w(2,5) env so q by (simp add: wb_mount_ok_def temp_unstaged_def)
  moreover have "wfs_abs objs K m' = wfs_of (bx_os ?x) q (cfs_abs objs K m')"
    using wfs_of_cong [OF sk, where a = "cfs_abs objs K m'"] env(3) by (simp add: wfs_abs_def)
  ultimately show ?thesis ..
qed

lemma wfs_step_kernel:
  "cached_step r out a a' \<Longrightarrow> \<forall>i f. r \<noteq> FsFlush i f \<Longrightarrow> wfs_step (Kernel (t, r)) out (wfs_of s q a) (wfs_of s q a')"
  by (cases r) simp_all

lemma wb_simulates_kernel:
  assumes "wb_mount_ok objs K m" and "legal_req K (now, r)" and "mount_do (now, r) m = (out, m')" and "\<forall>i f. r \<noteq> FsFlush i f"
  shows "wb_mount_ok objs K m' \<and> wfs_step (Kernel (now, r)) out (wfs_abs objs K m) (wfs_abs objs K m')"
proof -
  from assms(1) obtain q where w: "base_ok objs K m" "bx_writeBack (mt_ctx m) = Some q"
    "wfs_abs objs K m = wfs_of (bx_os (mt_ctx m)) q (cfs_abs objs K m)"
    by (rule wb_mount_okD)
  have s: "simulated objs K r out m m'" by (rule mount_simulates_cached [OF w(1) assms(2-4)])
  with kernel_step_wb [OF assms(1) _ _ w(2), of m']
  have "wb_mount_ok objs K m' \<and> wfs_abs objs K m' = wfs_of (bx_os (mt_ctx m)) q (cfs_abs objs K m')"
    by (simp add: simulated_def)
  moreover have "cached_step r out (cfs_abs objs K m) (cfs_abs objs K m')" using s by (simp add: simulated_def)
  ultimately show ?thesis using w(3) wfs_step_kernel [OF _ assms(4)] by simp
qed


section \<open>Flushing\<close>

lemma wfs_eqI:
  "fs_objs a = fs_objs b \<Longrightarrow> fs_open a = fs_open b \<Longrightarrow> fs_view a = fs_view b \<Longrightarrow> fs_queue a = fs_queue b \<Longrightarrow>
     fs_busy a = fs_busy b \<Longrightarrow> fs_left a = fs_left b \<Longrightarrow> fs_cap a = fs_cap b \<Longrightarrow> (a :: wfs) = b"
  by simp

text \<open>
  The first half of a write-back flush on a disk that does not fail: the temporary file has become the staged
  one, a new one has taken its place, and the cache has the data.
\<close>

definition staged_files :: "string \<Rightarrow> bytes \<Rightarrow> ('db, 'w) bucketCtx \<Rightarrow> (string, bytes) fmap" where
  "staged_files p c x = fmupd (p @ ''.wb'') c (fmdrop p (files (bx_os x)))"

definition next_temp :: "string \<Rightarrow> bytes \<Rightarrow> ('db, 'w) bucketCtx \<Rightarrow> string" where
  "next_temp p c x = temp_name (bx_os x) [] ''s3gw-upload-*'' (staged_files p c x)"

definition staged_ctx :: "string \<Rightarrow> string \<Rightarrow> bytes \<Rightarrow> time \<Rightarrow> ('db, 'w) bucketCtx \<Rightarrow> ('db, 'w) bucketCtx" where
  "staged_ctx k p c now x =
     ctx_cache_Put k (p @ ''.wb'', c)
       \<lparr>om_ETag = [], om_Size = int (length c), om_LastModified = now, om_ContentType = []\<rparr> now
       (ctx_catalog_Put (file_entry k (int (length c)) [] now)
         (x\<lparr>bx_os := (bx_os x)\<lparr>files := fmupd (next_temp p c x) [] (staged_files p c x)\<rparr>\<rparr>))"

lemma flush_writeBack_disk:
  assumes "ctx_base objs K x" and "bx_writeBack x = Some q" and "fmlookup (files (bx_os x)) p = Some c"
  shows "flush_writeBack h p (int (length c)) q now f x =
    (let h' = h\<lparr>h_tmpFile := OpenFile (next_temp p c x), h_dirty := False\<rparr>;
         x' = staged_ctx (h_key h) p c now x;
         f' = fn_update (int (length c)) (fn_etagSnapshot f) now f
     in case Submit (staged_job h p c) q of
          (Some err, q') \<Rightarrow> syncUploadFromPath h' (p @ ''.wb'') (int (length c)) now f' (x'\<lparr>bx_writeBack := Some q'\<rparr>)
        | (None, q') \<Rightarrow> (OK, h', f', x'\<lparr>bx_writeBack := Some q'\<rparr>))"
proof -
  note ok = ctx_baseD [OF assms(1)]
  let ?F = "staged_files p c x"
  have rn: "os_Rename p (p @ ''.wb'') (bx_os x) = (None, (bx_os x)\<lparr>files := ?F\<rparr>)"
    using ok(4) assms(3) by (simp add: os_Rename_def staged_files_def)
  have ct: "os_CreateTemp [] ''s3gw-upload-*'' ((bx_os x)\<lparr>files := ?F\<rparr>) =
      (Inr (next_temp p c x), (bx_os x)\<lparr>files := fmupd (next_temp p c x) [] ?F\<rparr>)"
    using ok(4) by (simp add: os_CreateTemp_def next_temp_def Let_def)
  have "fmlookup ?F (next_temp p c x) = None" unfolding next_temp_def by (rule upload_temp_fresh [OF ok(6)])
  then have "next_temp p c x \<noteq> p @ ''.wb''" by (auto simp: staged_files_def)
  then have op: "os_Open (p @ ''.wb'') ((bx_os x)\<lparr>files := fmupd (next_temp p c x) [] ?F\<rparr>) = Inr c"
    using ok(4) by (simp add: os_Open_def) (simp add: staged_files_def)
  obtain r q' where "Submit (staged_job h p c) q = (r, q')" by (metis surj_pair)
  then show ?thesis
    by (cases r) (simp_all add: flush_writeBack_def Let_def rn ct op staged_ctx_def staged_job_def cong: sum.case_cong)
qed

lemma staged_ctx_facts:
  fixes x :: "('db, 'w) bucketCtx" and now :: time
  assumes "ctx_base objs K x" and "k \<in> K" and "temp_path p" and "\<not> staged_name p"
    and "fmlookup (files (bx_os x)) p = Some c" and "temp_unstaged (bx_os x)" and "fmlookup (files (bx_os x)) (p @ ''.wb'') = None"
  defines "n \<equiv> next_temp p c x" and "x' \<equiv> staged_ctx k p c now x"
  shows "temp_path n" "\<not> staged_name n" "n \<noteq> p" "fmlookup (files (bx_os x)) n = None"
    "local_step {p, p @ ''.wb'', n} x x'" "view K x' = (view K x)(k \<mapsto> c)" "objs_abs objs x' = objs_abs objs x"
    "fmlookup (files (bx_os x')) n = Some []" "fmlookup (files (bx_os x')) (p @ ''.wb'') = Some c"
    "fmlookup (files (bx_os x')) (n @ ''.wb'') = None"
proof -
  note ok = ctx_baseD [OF assms(1)]
  let ?F = "staged_files p c x" and ?wb = "p @ ''.wb''"
  let ?y = "x\<lparr>bx_os := (bx_os x)\<lparr>files := fmupd n [] ?F\<rparr>\<rparr>"
  let ?y1 = "ctx_catalog_Put (file_entry k (int (length c)) [] now) ?y"
  have wb: "temp_path ?wb" by (rule staged_temp_path) (simp add: staged_name_def)
  show n: "temp_path n" "\<not> staged_name n"
    unfolding n_def next_temp_def by (rule temp_path_upload [OF ok(6)], rule upload_temp_not_staged [OF ok(6)])
  have fresh: "fmlookup ?F n = None" unfolding n_def next_temp_def by (rule upload_temp_fresh [OF ok(6)])
  have nwb: "fmlookup ?F (n @ ''.wb'') = None" using assms(6) by (simp add: temp_unstaged_def n_def next_temp_def)
  show np: "n \<noteq> p" using nwb by (auto simp: staged_files_def)
  have nw: "n \<noteq> ?wb" using n(2) by (auto simp: staged_name_def)
  show "fmlookup (files (bx_os x)) n = None" using fresh np nw by (simp add: staged_files_def)
  have st1: "local_step {p, ?wb, n} x ?y1"
    using ok(5) by (auto simp: local_step_def cm_ok_def staged_files_def)
  have d: "disk_ok (bx_os ?y1)" "cm_ok (bx_cache ?y1) (bx_os ?y1)"
    using ok(4,5) by (simp_all add: disk_ok_def cm_ok_def)
  note put = ctx_cache_Put_disk [OF d, where k = k and src = "(?wb, c)" and now = now and
      meta = "\<lparr>om_ETag = [], om_Size = int (length c), om_LastModified = now, om_ContentType = []\<rparr>"]
  have x': "files (bx_os x') = fmupd (ds_Path (cm_store (bx_cache x)) (bx_bucket x) k) c (fmupd n [] ?F)"
    and st2: "local_step {p, ?wb, n} ?y1 x'"
    using put by (simp_all add: x'_def staged_ctx_def n_def)
  show st: "local_step {p, ?wb, n} x x'" by (rule local_step_trans [OF st1 st2])
  have "view K x' = (view K x)(k := fmlookup (files (bx_os x')) (ds_Path (cm_store (bx_cache x)) (bx_bucket x) k))"
  proof (rule view_upd [OF ok(7) assms(2) st])
    fix q assume q: "q \<noteq> ds_Path (cm_store (bx_cache x)) (bx_bucket x) k" "\<not> temp_path q"
    then have "q \<noteq> n" "q \<noteq> p" "q \<noteq> ?wb" using n(1) assms(3) wb by blast+
    with q(1) show "fmlookup (files (bx_os x')) q = fmlookup (files (bx_os x)) q" by (simp add: x' staged_files_def)
  qed
  then show "view K x' = (view K x)(k \<mapsto> c)" by (simp add: x')
  show "objs_abs objs x' = objs_abs objs x" by (simp add: x'_def staged_ctx_def) (simp add: objs_abs_def)
  have ne: "q \<noteq> ds_Path (cm_store (bx_cache x)) (bx_bucket x) k" if "temp_path q" for q using temp_path_ds_Path [OF that] .
  show "fmlookup (files (bx_os x')) n = Some []" using ne [OF n(1)] by (simp add: x')
  show "fmlookup (files (bx_os x')) ?wb = Some c" using ne [OF wb] nw by (simp add: x' staged_files_def)
  have "temp_path (n @ ''.wb'')" by (rule staged_temp_path) (simp add: staged_name_def)
  then show "fmlookup (files (bx_os x')) (n @ ''.wb'') = None" using ne [of "n @ ''.wb''"] nwb by (auto simp: x')
qed


text \<open>The mount after it, whatever else has happened to the staged file and the queue.\<close>

lemma flush_mount:
  assumes "wb_mount_ok objs K m" and "bx_writeBack (mt_ctx m) = Some q"
    and "map_of (mt_handles m) i = Some h" and "h_tmpFile h = OpenFile p"
    and "fmlookup (files (bx_os (mt_ctx m))) p = Some c" and "n = next_temp p c (mt_ctx m)"
    and "local_step {p, p @ ''.wb'', n} (mt_ctx m) x1" and "fmlookup (files (bx_os x1)) n = Some []"
    and "fmlookup (files (bx_os x1)) (n @ ''.wb'') = None" and "temp_path n" and "\<not> staged_name n"
    and "fmlookup (files (bx_os (mt_ctx m))) n = None"
    and "staged_ok x1 q'" and "wq_getClient q' = wq_getClient q"
    and "m' = m\<lparr>mt_ctx := x1\<lparr>bx_writeBack := Some q'\<rparr>,
      mt_handles := AList.update i (h\<lparr>h_tmpFile := OpenFile n, h_dirty := False\<rparr>) (mt_handles m)\<rparr>"
  shows "wb_mount_ok objs K m' \<and> wfs_abs objs K m' = wfs_of (bx_os x1) q'
    \<lparr>fs_objs = objs_abs objs x1, fs_open = (fs_open (cfs_abs objs K m))(i \<mapsto> (h_key h, [], False)), fs_view = view K x1\<rparr>"
proof -
  let ?x = "mt_ctx m" and ?x' = "x1\<lparr>bx_writeBack := Some q'\<rparr>" and ?wb = "p @ ''.wb''"
  let ?h' = "h\<lparr>h_tmpFile := OpenFile n, h_dirty := False\<rparr>"
  let ?hs = "AList.update i ?h' (mt_handles m)"
  from assms(1) obtain q0 where w: "base_ok objs K m" "temp_unstaged (bx_os ?x)" "bx_writeBack ?x = Some q0"
    "wq_getClient q0 (bx_bucket ?x) = Some (bx_s3 ?x)"
    by (rule wb_mount_okD)
  have gc: "wq_getClient q (bx_bucket ?x) = Some (bx_s3 ?x)" using w(3,4) assms(2) by simp
  note op = base_okD(2) [OF w(1)]
  note h0 = open_okD(1) [OF op assms(3)]
  have ns: "\<not> staged_name p" using h0 assms(4) by (simp add: handle_ok_def)
  have other: "h_tmpFile h' \<noteq> OpenFile p" "h_tmpFile h' \<noteq> OpenFile ?wb" "h_tmpFile h' \<noteq> OpenFile n"
    if "j \<noteq> i" "map_of (mt_handles m) j = Some h'" for j h'
  proof -
    show "h_tmpFile h' \<noteq> OpenFile p" using open_okD(2) [OF op assms(3) that(2)] that(1) assms(4) by auto
    show "h_tmpFile h' \<noteq> OpenFile ?wb" using open_okD(1) [OF op that(2)] by (auto simp: handle_ok_def staged_name_def)
    show "h_tmpFile h' \<noteq> OpenFile n" by (rule fresh_not_open [OF op assms(12) that(2)])
  qed
  have hk: "handle_ok K x1 ?h'" using h0 assms(7,8,10,11) by (simp add: handle_ok_def local_step_def)
  have mp: "map_of ?hs = (map_of (mt_handles m))(i := Some ?h')" by (simp add: update_conv')
  have o: "open_ok K x1 (map_of ?hs) \<and> open_abs x1 (map_of ?hs) = (open_abs ?x (map_of (mt_handles m)))
      (i := map_option (\<lambda>h. (h_key h, tmp_contents (h_tmpFile h) (bx_os x1), h_dirty h)) (Some ?h'))"
    by (rule open_step [OF op assms(7) mp]) (use other hk in auto)
  have b: "base_ok objs K m'"
    using o ctx_base_step [OF base_okD(1) [OF w(1)] assms(7)]
    by (simp add: base_ok_def assms(15))
  have env: "bx_s3 x1 = bx_s3 ?x" "bx_bucket x1 = bx_bucket ?x" "temp_name (bx_os x1) = temp_name (bx_os ?x)"
    using assms(7) by (simp_all add: local_step_def)
  have pwb: "fmlookup (files (bx_os x1)) (r @ ''.wb'') = None"
    if h1: "map_of ?hs j = Some h1" "h_tmpFile h1 = OpenFile r" for j h1 r
  proof (cases "j = i")
    case True
    with h1 have "r = n" by (auto simp: mp)
    with assms(9) show ?thesis by simp
  next
    case False
    with h1(1) have h1': "map_of (mt_handles m) j = Some h1" by (simp add: mp)
    have "staged_name (r @ ''.wb'')" by (simp add: staged_name_def)
    moreover have "r \<noteq> p" using other(1) [OF False h1'] h1(2) by auto
    ultimately have "r @ ''.wb'' \<notin> {p, ?wb, n}" using ns assms(11) by auto
    then have "fmlookup (files (bx_os x1)) (r @ ''.wb'') = fmlookup (files (bx_os ?x)) (r @ ''.wb'')"
      using assms(7) staged_temp_path [OF \<open>staged_name (r @ ''.wb'')\<close>] by (simp add: local_step_def)
    with wb_mount_ok_unstaged [OF assms(1) h1' h1(2)] show ?thesis by simp
  qed
  have "wb_mount_ok objs K m'"
    using b w(2) gc env assms(13,14) pwb
    by (simp add: wb_mount_ok_def assms(15) temp_unstaged_def staged_ok_def)
  moreover have "cfs_abs objs K m' =
      \<lparr>fs_objs = objs_abs objs x1, fs_open = (fs_open (cfs_abs objs K m))(i \<mapsto> (h_key h, [], False)), fs_view = view K x1\<rparr>"
    using o assms(8) by (simp add: cfs_abs_def assms(15) objs_abs_def tmp_contents_OpenFile)
  ultimately show ?thesis by (simp add: wfs_abs_def assms(15))
qed


lemma Submit_frame [simp]:
  "left_jobs (snd (Submit job q)) = left_jobs q" "wq_workers (snd (Submit job q)) = wq_workers q"
  "wq_cap (snd (Submit job q)) = wq_cap q" "wq_getClient (snd (Submit job q)) = wq_getClient q"
  by (simp_all add: Submit_def left_jobs_def)

text \<open>What both endings of a flush start from.\<close>

lemma flush_staged:
  fixes m :: "('db, 'w) mount" and now :: time
  assumes "wb_mount_ok objs K m" and "bx_writeBack (mt_ctx m) = Some q" and "map_of (mt_handles m) i = Some h"
    and "h_tmpFile h = OpenFile p" and "fmlookup (files (bx_os (mt_ctx m))) p = Some c"
  defines "x \<equiv> mt_ctx m"
  defines "n \<equiv> next_temp p c x" and "x1 \<equiv> staged_ctx (h_key h) p c now x"
  shows "temp_path n" "\<not> staged_name n" "fmlookup (files (bx_os x)) n = None" "local_step {p, p @ ''.wb'', n} x x1"
    "view K x1 = (view K x)(h_key h \<mapsto> c)" "objs_abs objs x1 = objs_abs objs x" "fmlookup (files (bx_os x1)) n = Some []"
    "fmlookup (files (bx_os x1)) (p @ ''.wb'') = Some c" "fmlookup (files (bx_os x1)) (n @ ''.wb'') = None"
    "staged_ok x1 q" "bx_bucket x1 = bx_bucket x" "bx_s3 x1 = bx_s3 x"
    "\<And>job. job \<in># staged q \<Longrightarrow> fmlookup (files (bx_os x1)) (uj_FilePath job) = fmlookup (files (bx_os x)) (uj_FilePath job)"
    "\<And>job. job \<in># staged q \<Longrightarrow> uj_FilePath job \<noteq> p @ ''.wb''"
proof -
  from assms(1,2) have w: "base_ok objs K m" "temp_unstaged (bx_os x)" "staged_ok x q"
    by (auto simp: x_def elim!: wb_mount_okD)
  note ctx = base_okD(1) [OF w(1), folded x_def]
  have h: "h_key h \<in> K" "temp_path p" "\<not> staged_name p"
    using open_okD(1) [OF base_okD(2) [OF w(1)] assms(3)] assms(4) by (auto simp: handle_ok_def)
  have pwb: "fmlookup (files (bx_os x)) (p @ ''.wb'') = None"
    unfolding x_def by (rule wb_mount_ok_unstaged [OF assms(1,3,4)])
  note f = assms(5) [folded x_def]
  note sc = staged_ctx_facts(1,2,4) [OF ctx h f w(2) pwb, folded n_def]
    staged_ctx_facts(5-10) [OF ctx h f w(2) pwb, where now = now, folded n_def x1_def]
  show "temp_path n" "\<not> staged_name n" "fmlookup (files (bx_os x)) n = None" "local_step {p, p @ ''.wb'', n} x x1"
    "view K x1 = (view K x)(h_key h \<mapsto> c)" "objs_abs objs x1 = objs_abs objs x" "fmlookup (files (bx_os x1)) n = Some []"
    "fmlookup (files (bx_os x1)) (p @ ''.wb'') = Some c" "fmlookup (files (bx_os x1)) (n @ ''.wb'') = None"
    by (rule sc)+
  show keep: "fmlookup (files (bx_os x1)) (uj_FilePath job) = fmlookup (files (bx_os x)) (uj_FilePath job)"
    if "job \<in># staged q" for job
    by (rule staged_keep [OF w(3) sc(4) _ that]) (use h(3) sc(2) pwb in auto)
  show env: "bx_bucket x1 = bx_bucket x" "bx_s3 x1 = bx_s3 x" using sc(4) by (simp_all add: local_step_def)
  show "staged_ok x1 q" by (rule staged_ok_cong [OF w(3) env(1) keep])
  show "uj_FilePath job \<noteq> p @ ''.wb''" if "job \<in># staged q" for job using w(3) pwb that by (auto simp: staged_ok_def)
qed

text \<open>With room in the queue the data waits there.\<close>

lemma flush_room:
  fixes m :: "('db, 'w) mount" and now :: time
  assumes "wb_mount_ok objs K m" and "bx_writeBack (mt_ctx m) = Some q" and "map_of (mt_handles m) i = Some h"
    and "h_tmpFile h = OpenFile p" and "fmlookup (files (bx_os (mt_ctx m))) p = Some c" and "length (wq_jobs q) < wq_cap q"
  defines "a \<equiv> wfs_abs objs K m"
  assumes "m' = m\<lparr>mt_ctx := (staged_ctx (h_key h) p c now (mt_ctx m))\<lparr>bx_writeBack := Some (snd (Submit (staged_job h p c) q))\<rparr>,
      mt_handles := AList.update i (h\<lparr>h_tmpFile := OpenFile (next_temp p c (mt_ctx m)), h_dirty := False\<rparr>) (mt_handles m)\<rparr>"
  shows "wb_mount_ok objs K m' \<and> wfs_abs objs K m' = a\<lparr>fs_open := (fs_open a)(i \<mapsto> (h_key h, [], False)),
    fs_view := (fs_view a)(h_key h \<mapsto> c), fs_queue := fs_queue a @ [(h_key h, c)]\<rparr>"
proof -
  let ?x = "mt_ctx m" and ?wb = "p @ ''.wb''" and ?x1 = "staged_ctx (h_key h) p c now (mt_ctx m)"
  let ?job = "staged_job h p c" let ?q' = "snd (Submit ?job q)"
  note sf = flush_staged(1-3) [OF assms(1-5)] flush_staged(4-13) [OF assms(1-5), where now = now] flush_staged(14) [OF assms(1-5)]
  have a: "a = wfs_of (bx_os ?x) q (cfs_abs objs K m)" by (simp add: a_def wfs_abs_def assms(2))
  have hb: "h_bucket h = bx_bucket ?x"
    using assms(1,3) by (auto simp: wb_mount_ok_def base_ok_def open_ok_def handle_ok_def)
  have "count (image_mset uj_FilePath (staged q)) ?wb = 0"
    unfolding count_eq_zero_iff using sf(14) by force
  then have so: "staged_ok ?x1 ?q'"
    using sf(8,10,11) hb
    by (simp add: staged_ok_def staged_Submit [OF assms(6)]) (simp add: staged_job_def staged_name_def)
  have gc: "wq_getClient ?q' = wq_getClient q" by simp
  note r = flush_mount [OF assms(1-5) refl sf(4,7,9,1-3) so gc assms(8)]
  note same = wfs_of_cong [OF sf(13), where a = "cfs_abs objs K m"]
  have rest: "busy_data (bx_os ?x1) (wq_workers q) = busy_data (bx_os ?x) (wq_workers q)"
    "map (job_data (bx_os ?x1)) (left_jobs q) = map (job_data (bx_os ?x)) (left_jobs q)"
    "map (job_data (bx_os ?x1)) (wq_jobs q) = map (job_data (bx_os ?x)) (wq_jobs q)"
    using arg_cong [where f = fs_busy, OF same] arg_cong [where f = fs_left, OF same] arg_cong [where f = fs_queue, OF same]
    by simp_all
  have "job_data (bx_os ?x1) ?job = (h_key h, c)" using sf(8) by (simp add: job_data_def staged_job_def)
  then have q: "map (job_data (bx_os ?x1)) (wq_jobs ?q') = map (job_data (bx_os ?x)) (wq_jobs q) @ [(h_key h, c)]"
    using assms(6) rest(3) by (simp add: Submit_def)
  have "wfs_abs objs K m' = a\<lparr>fs_open := (fs_open a)(i \<mapsto> (h_key h, [], False)), fs_view := (fs_view a)(h_key h \<mapsto> c),
      fs_queue := fs_queue a @ [(h_key h, c)]\<rparr>"
    by (rule wfs_eqI) (use r q rest sf(5,6) in \<open>simp_all add: a cfs_abs_def\<close>)
  with r show ?thesis by blast
qed

text \<open>Without, it goes to S3 at once, and the staged file is removed in either case.\<close>

lemma flush_full:
  fixes m :: "('db, 'w) mount" and now :: time
  assumes "wb_mount_ok objs K m" and "bx_writeBack (mt_ctx m) = Some q" and "map_of (mt_handles m) i = Some h"
    and "h_tmpFile h = OpenFile p" and "fmlookup (files (bx_os (mt_ctx m))) p = Some c"
  defines "x1 \<equiv> staged_ctx (h_key h) p c now (mt_ctx m)" and "a \<equiv> wfs_abs objs K m"
  assumes "PutObject (bx_s3 (mt_ctx m)) (h_key h) c (int (length c)) (bx_world x1) = (res, w1)"
    and "m' = m\<lparr>mt_ctx := x1\<lparr>bx_world := w1, bx_os := snd (os_Remove (p @ ''.wb'') (bx_os x1)), bx_writeBack := Some q\<rparr>,
      mt_handles := AList.update i (h\<lparr>h_tmpFile := OpenFile (next_temp p c (mt_ctx m)), h_dirty := False\<rparr>) (mt_handles m)\<rparr>"
  shows "wb_mount_ok objs K m' \<and> wfs_abs objs K m' = a\<lparr>fs_open := (fs_open a)(i \<mapsto> (h_key h, [], False)),
    fs_view := (fs_view a)(h_key h \<mapsto> c), fs_objs := if isl res then fs_objs a else (fs_objs a)(h_key h \<mapsto> c)\<rparr>"
proof -
  let ?x = "mt_ctx m" and ?wb = "p @ ''.wb''" and ?n = "next_temp p c (mt_ctx m)"
  let ?x2 = "x1\<lparr>bx_world := w1, bx_os := snd (os_Remove ?wb (bx_os x1))\<rparr>"
  note sf = flush_staged(1-3) [OF assms(1-5)] flush_staged(4-13) [OF assms(1-5), where now = now, folded x1_def]
    flush_staged(14) [OF assms(1-5)]
  have "base_ok objs K m" using assms(1) by (simp add: wb_mount_ok_def)
  note ok = ctx_baseD [OF base_okD(1) [OF this]]
  have a: "a = wfs_of (bx_os ?x) q (cfs_abs objs K m)" by (simp add: a_def wfs_abs_def assms(2))
  have fo: "fault (bx_os x1) OpRemove ?wb = None" using sf(4) ok(4) by (simp add: local_step_def)
  have rm: "fmlookup (files (bx_os ?x2)) r = (if r = ?wb then None else fmlookup (files (bx_os x1)) r)" for r
    using fo by (simp add: os_Remove_files)
  have st2: "local_step {p, ?wb, ?n} x1 ?x2"
  proof -
    have "temp_ok (bx_os ?x2) = temp_ok (bx_os x1)" by (rule temp_ok_cong) simp
    moreover have "cm_ok (bx_cache x1) (bx_os x1)" using sf(4) by (simp add: local_step_def)
    ultimately show ?thesis using rm by (simp add: local_step_def cm_ok_def)
  qed
  note st = local_step_trans [OF sf(4) st2]
  have so: "staged_ok ?x2 q" by (rule staged_ok_cong [OF sf(10)]) (use rm sf(14) in auto)
  have nn: "fmlookup (files (bx_os ?x2)) ?n = Some []" "fmlookup (files (bx_os ?x2)) (?n @ ''.wb'') = None"
    using rm sf(2,7,9) by (auto simp: staged_name_def)
  have m': "m' = m\<lparr>mt_ctx := ?x2\<lparr>bx_writeBack := Some q\<rparr>,
      mt_handles := AList.update i (h\<lparr>h_tmpFile := OpenFile ?n, h_dirty := False\<rparr>) (mt_handles m)\<rparr>"
    by (simp add: assms(9))
  note r = flush_mount [OF assms(1-5) refl st nn sf(1-3) so refl m']
  have vw: "view K ?x2 = (view K ?x)(h_key h \<mapsto> c)"
    unfolding sf(5) [symmetric] by (rule view_cong [OF st2]) (use rm staged_not_cached [symmetric] in auto)
  have sk: "wfs_of (bx_os ?x2) q a' = wfs_of (bx_os ?x) q a'" for a'
    by (rule wfs_of_cong) (use rm sf(13,14) in auto)
  have ob: "objs_abs objs ?x2 = (if isl res then objs_abs objs ?x else (objs_abs objs ?x)(h_key h \<mapsto> c))"
  proof (cases res)
    case (Inl e)
    then have "objs w1 = objs (bx_world x1)" using s3_atomicD(1) [OF ok(2) assms(8) [unfolded Inl]] by simp
    then show ?thesis using Inl sf(6) by (simp add: objs_abs_def)
  next
    case (Inr meta)
    from PutObject_content(1) [OF ok(1) assms(8) [unfolded Inr]]
    have "objs_abs objs ?x2 = (objs_abs objs x1)(h_key h \<mapsto> c)" by (auto simp: objs_abs_def sf(12) fun_eq_iff)
    then show ?thesis using Inr sf(6) by simp
  qed
  have "wfs_abs objs K m' = wfs_of (bx_os ?x) q
      \<lparr>fs_objs = objs_abs objs ?x2, fs_open = (fs_open (cfs_abs objs K m))(i \<mapsto> (h_key h, [], False)), fs_view = view K ?x2\<rparr>"
    using r by (simp only: sk)
  then have "wfs_abs objs K m' = a\<lparr>fs_open := (fs_open a)(i \<mapsto> (h_key h, [], False)),
      fs_view := (fs_view a)(h_key h \<mapsto> c), fs_objs := if isl res then fs_objs a else (fs_objs a)(h_key h \<mapsto> c)\<rparr>"
    by (intro wfs_eqI) (use vw ob in \<open>simp_all add: a cfs_abs_def\<close>)
  with r show ?thesis by blast
qed

lemma wb_simulates_dirty_flush:
  assumes "wb_mount_ok objs K m" and "bx_writeBack (mt_ctx m) = Some q" and "map_of (mt_handles m) i = Some h"
    and "h_tmpFile h = OpenFile p" and "fmlookup (files (bx_os (mt_ctx m))) p = Some c"
    and "h_s3 h = bx_s3 (mt_ctx m)" and "h_dirty h" and "fs_open (wfs_abs objs K m) i = Some (h_key h, c, True)"
    and "h_Flush h now f (mt_ctx m) = (e, h', f', x')"
    and "m' = m\<lparr>mt_ctx := x', mt_handles := AList.update i h' (mt_handles m)\<rparr>"
  shows "wb_mount_ok objs K m' \<and> wfs_step (Kernel (now, FsFlush i f)) (answer e) (wfs_abs objs K m) (wfs_abs objs K m')"
proof -
  let ?x = "mt_ctx m" and ?x1 = "staged_ctx (h_key h) p c now (mt_ctx m)" and ?job = "staged_job h p c"
  let ?h' = "h\<lparr>h_tmpFile := OpenFile (next_temp p c ?x), h_dirty := False\<rparr>"
  have ctx: "ctx_base objs K ?x" using assms(1) by (simp add: wb_mount_ok_def base_ok_def)
  note ok = ctx_baseD [OF ctx]
  have a: "wfs_abs objs K m = wfs_of (bx_os ?x) q (cfs_abs objs K m)" by (simp add: wfs_abs_def assms(2))
  have "int (length (tmp_contents (h_tmpFile h) (bx_os ?x))) = int (length c)"
    using assms(4,5) by (simp add: tmp_contents_OpenFile)
  then have "h_Flush h now f ?x = flush_writeBack h p (int (length c)) q now f ?x"
    using assms(2,4,7) ok(4) by (simp add: h_Flush_def tmp_Seek_def tmp_Stat_def)
  with assms(9) flush_writeBack_disk [OF ctx assms(2,5), of h now f]
  have fw: "(e, h', f', x') = (case Submit ?job q of
      (Some err, q') \<Rightarrow> syncUploadFromPath ?h' (p @ ''.wb'') (int (length c)) now
        (fn_update (int (length c)) (fn_etagSnapshot f) now f) (?x1\<lparr>bx_writeBack := Some q'\<rparr>)
    | (None, q') \<Rightarrow> (OK, ?h', fn_update (int (length c)) (fn_etagSnapshot f) now f, ?x1\<lparr>bx_writeBack := Some q'\<rparr>))"
    by (simp add: Let_def)
  show ?thesis
  proof (cases "length (wq_jobs q) < wq_cap q")
    case room: True
    then have "e = OK" "h' = ?h'" "x' = ?x1\<lparr>bx_writeBack := Some (snd (Submit ?job q))\<rparr>"
      using fw by (simp_all add: Submit_def)
    with flush_room [OF assms(1-5) room] assms(8,10) room show ?thesis by (simp add: answer_def a)
  next
    case full: False
    obtain res w1 where pt: "PutObject (bx_s3 ?x) (h_key h) c (int (length c)) (bx_world ?x1) = (res, w1)" by (metis surj_pair)
    let ?a1 = "(wfs_abs objs K m)\<lparr>fs_open := (fs_open (wfs_abs objs K m))(i \<mapsto> (h_key h, [], False)),
        fs_view := (fs_view (wfs_abs objs K m))(h_key h \<mapsto> c)\<rparr>"
    note sf = flush_staged(4,8) [OF assms(1-5), where now = now]
    have "fault (bx_os ?x1) OpOpen (p @ ''.wb'') = None" using sf(1) ok(4) by (simp add: local_step_def)
    then have "os_Open (p @ ''.wb'') (bx_os ?x1) = Inr c" using sf(2) by (simp add: os_Open_def)
    then have "h' = ?h'" "x' = ?x1\<lparr>bx_world := w1, bx_os := snd (os_Remove (p @ ''.wb'') (bx_os ?x1)), bx_writeBack := Some q\<rparr>"
      and e: "e = (if isl res then EIO else OK)"
      using fw full pt assms(6) by (cases res; simp add: syncUploadFromPath_def Submit_def)+
    with flush_full [OF assms(1-5) pt, of m'] assms(10)
    have r: "wb_mount_ok objs K m' \<and> wfs_abs objs K m' = ?a1\<lparr>fs_objs := if isl res then fs_objs (wfs_abs objs K m)
        else (fs_objs (wfs_abs objs K m))(h_key h \<mapsto> c)\<rparr>" by simp
    moreover have "?a1\<lparr>fs_objs := fs_objs (wfs_abs objs K m)\<rparr> = ?a1" by (intro wfs_eqI) simp_all
    ultimately show ?thesis using full e assms(8) by (auto simp: answer_def a)
  qed
qed

lemma wb_simulates_flush:
  assumes "wb_mount_ok objs K m" and "mount_do (now, FsFlush i f) m = (out, m')"
  shows "wb_mount_ok objs K m' \<and> wfs_step (Kernel (now, FsFlush i f)) out (wfs_abs objs K m) (wfs_abs objs K m')"
proof -
  let ?x = "mt_ctx m"
  from assms(1) obtain q where w: "base_ok objs K m" "bx_writeBack ?x = Some q"
    "wfs_abs objs K m = wfs_of (bx_os ?x) q (cfs_abs objs K m)"
    by (rule wb_mount_okD)
  note ok = ctx_baseD [OF base_okD(1) [OF w(1)]]
  show ?thesis
    using w(1) assms(2) [unfolded mount_do.simps]
  proof (cases rule: with_handle_cases)
    case closed
    with assms(1) closed w(3) show ?thesis by simp
  next
    case (opened h p c)
    obtain e h' f' x' where fl: "h_Flush h now f ?x = (e, h', f', x')" by (rule prod_cases4)
    then have o: "out = answer e" "m' = m\<lparr>mt_ctx := x', mt_handles := AList.update i h' (mt_handles m)\<rparr>"
      using opened(2) by simp_all
    show ?thesis
    proof (cases "h_dirty h")
      case False
      then have n: "e = OK" "h' = h" "x' = ?x" using fl by (simp_all add: h_Flush_def)
      have un: "unseen objs ?x ?x" using ok(5) by (simp add: unseen_def local_step_refl)
      have "base_ok objs K m' \<and> kernel_step m m' \<and> cfs_abs objs K m' = cfs_abs objs K m"
        by (rule clean_flush_step [OF w(1) opened(1,10,6,9) un]) (use o n in simp)
      with kernel_step_wb [OF assms(1) _ _ w(2), of m'] have "wb_mount_ok objs K m' \<and> wfs_abs objs K m' = wfs_abs objs K m"
        by (simp add: w(3))
      with o(1) n(1) opened(10) False show ?thesis by (simp add: answer_def w(3))
    next
      case True
      then have "fs_open (wfs_abs objs K m) i = Some (h_key h, c, True)" using opened(10) by (simp add: w(3))
      from wb_simulates_dirty_flush [OF assms(1) w(2) opened(1,6,9,3) True this fl o(2)] o(1) show ?thesis by simp
    qed
  qed
qed

section \<open>The workers' moves\<close>

text \<open>A move changes the mount at most at the staged file of a job it ends.\<close>

lemma worker_mount:
  assumes "wb_mount_ok objs K m" and "wq_getClient q' (bx_bucket (mt_ctx m)) = Some (bx_s3 (mt_ctx m))"
    and "s = bx_os (mt_ctx m) \<or> (\<exists>p. staged_name p \<and> s = snd (os_Remove p (bx_os (mt_ctx m))))"
    and "staged_ok (mt_ctx m\<lparr>bx_os := s\<rparr>) q'"
    and "m' = m\<lparr>mt_ctx := (mt_ctx m)\<lparr>bx_writeBack := Some q', bx_os := s, bx_world := w\<rparr>\<rparr>"
  shows "wb_mount_ok objs K m' \<and>
    wfs_abs objs K m' = wfs_of s q' ((cfs_abs objs K m)\<lparr>fs_objs := objs_abs objs ((mt_ctx m)\<lparr>bx_world := w\<rparr>)\<rparr>)"
proof -
  let ?x = "mt_ctx m" and ?y = "(mt_ctx m)\<lparr>bx_os := s\<rparr>"
  let ?x' = "(mt_ctx m)\<lparr>bx_writeBack := Some q', bx_os := s, bx_world := w\<rparr>"
  from assms(1) obtain q where w: "base_ok objs K m" "temp_unstaged (bx_os ?x)"
    by (rule wb_mount_okD)
  note ok = ctx_baseD [OF base_okD(1) [OF w(1)]]
  obtain p where p: "staged_name p"
    "\<And>r. fmlookup (files s) r = fmlookup (files (bx_os ?x)) r \<or> r = p \<and> fmlookup (files s) r = None"
    "fault s = fault (bx_os ?x)" "temp_name s = temp_name (bx_os ?x)"
    using assms(3)
  proof (elim disjE exE conjE)
    assume "s = bx_os ?x"
    then show thesis by (intro that [of "''.wb''"]) (auto simp: staged_name_def)
  next
    fix p assume "staged_name p" "s = snd (os_Remove p (bx_os ?x))"
    then show thesis by (intro that [of p]) (simp_all add: os_Remove_files)
  qed
  have "temp_ok s" using ok(6) temp_ok_cong [of s "bx_os ?x"] p(4) by simp
  then have st: "local_step {p} ?x ?y" using p ok(5) unfolding local_step_def cm_ok_def by auto
  have open_same: "open_ok K ?y (map_of (mt_handles m)) \<and> open_abs ?y (map_of (mt_handles m)) = open_abs ?x (map_of (mt_handles m))"
  proof (rule open_same [OF base_okD(2) [OF w(1)] st])
    fix j h assume "map_of (mt_handles m) j = Some h"
    from open_okD(1) [OF base_okD(2) [OF w(1)] this] p(1) show "h_tmpFile h \<notin> OpenFile ` {p}" by (auto simp: handle_ok_def)
  qed
  have vw: "view K ?y = view K ?x"
  proof (rule view_cong [OF st])
    fix k
    have "ds_Path (cm_store (bx_cache ?x)) (bx_bucket ?x) k \<noteq> p" using staged_temp_path [OF p(1)] by (auto simp: temp_path_def)
    with p(2) show "fmlookup (files (bx_os ?y)) (ds_Path (cm_store (bx_cache ?x)) (bx_bucket ?x) k) =
        fmlookup (files (bx_os ?x)) (ds_Path (cm_store (bx_cache ?x)) (bx_bucket ?x) k)" by auto
  qed
  have x': "?x' = ?y\<lparr>bx_writeBack := Some q', bx_world := w\<rparr>" by simp
  have b: "base_ok objs K m'"
    using open_same ctx_base_step [OF base_okD(1) [OF w(1)] st]
    by (simp add: base_ok_def assms(5) x')
  have "fmlookup (files s) (r @ ''.wb'') = None" if h: "map_of (mt_handles m) i = Some h" "h_tmpFile h = OpenFile r" for i h r
    using wb_mount_ok_unstaged [OF assms(1) h] p(2) [of "r @ ''.wb''"] by auto
  then have "wb_mount_ok objs K m'"
    using b w(2) p(4) assms(2,4) by (auto simp: wb_mount_ok_def assms(5) temp_unstaged_def staged_ok_def)
  moreover have "cfs_abs objs K m' = (cfs_abs objs K m)\<lparr>fs_objs := objs_abs objs (?x\<lparr>bx_world := w\<rparr>)\<rparr>"
    using open_same vw by (intro cfs_eqI) (simp_all add: cfs_abs_def assms(5) x' objs_abs_def)
  ultimately show ?thesis by (simp add: wfs_abs_def assms(5))
qed


lemma busy_data_upd:
  "i < length ws \<Longrightarrow> busy_data s (ws[i := x]) =
     (busy_data s ws)(i := (case held_job x of [] \<Rightarrow> None | job # _ \<Rightarrow> Some (job_data s job)))"
  by (auto simp: busy_data_def fun_eq_iff)

lemma busy_data_at:
  "i < length ws \<Longrightarrow> busy_data s ws i = (case held_job (ws ! i) of [] \<Rightarrow> None | job # _ \<Rightarrow> Some (job_data s job))"
  by (simp add: busy_data_def)

lemma process_cases:
  assumes "s3_ok (c_inner c) objs" and "s3_atomic (c_inner c) objs" and "gc (uj_Bucket job) = Some c"
    and "process gc n stop job s w = (r, job', s', w')" and "fmlookup (files s) (uj_FilePath job) = Some d"
  obtains (uploaded) meta where "ur_Meta r = Some meta" "s' = snd (os_Remove (uj_FilePath job) s)"
      "objs w' = (objs w)((c_bucket c, uj_Key job) \<mapsto> (d, om_ETag meta))"
  | (failed) "ur_Meta r = None" "s' = s" "objs w' = objs w"
proof -
  have "upload_attempts (nat (n + 1)) 0 stop c job None s w = (r, s', w')"
    using assms(3,4) by (auto simp: process_def split: prod.splits)
  from upload_attempts_atomic [OF assms(1,2) this assms(5)] that show thesis by (cases "ur_Meta r") auto
qed

text \<open>A worker's state and the two lists change; what they hold together is \<open>staged\<close>.\<close>

lemma staged_ok_le:
  assumes "staged_ok x q" and "staged q' + M = staged q"
  shows "staged_ok x q'"
proof -
  have "staged q = staged q' + M" using assms(2) by simp
  then have "count (image_mset uj_FilePath (staged q')) p \<le> count (image_mset uj_FilePath (staged q)) p" for p by simp
  with assms show ?thesis unfolding staged_ok_def by (metis le_trans union_iff)
qed

lemma staged_once:
  assumes "staged_ok x q" and "staged q = add_mset job M" and "j \<in># M"
  shows "uj_FilePath j \<noteq> uj_FilePath job"
proof
  assume e: "uj_FilePath j = uj_FilePath job"
  obtain N where "M = add_mset j N" using multi_member_split [OF assms(3)] by blast
  then have "2 \<le> count (image_mset uj_FilePath (staged q)) (uj_FilePath job)" by (simp add: assms(2) e)
  moreover have "count (image_mset uj_FilePath (staged q)) (uj_FilePath job) \<le> 1" using assms(1) by (simp add: staged_ok_def)
  ultimately show False by simp
qed

text \<open>The mount after a move.\<close>

definition moved :: "('db, 'w) mount \<Rightarrow> 'w WriteBackQueue \<Rightarrow> os \<Rightarrow> 'w \<Rightarrow> ('db, 'w) mount" where
  "moved m q s w = m\<lparr>mt_ctx := (mt_ctx m)\<lparr>bx_writeBack := Some q, bx_os := s, bx_world := w\<rparr>\<rparr>"

lemma moved_worker:
  "bx_writeBack (mt_ctx m) = Some q \<Longrightarrow>
     wb_mount_do (Worker mv) m =
       (case worker_move mv (q, bx_os (mt_ctx m), bx_world (mt_ctx m)) of (q', s, w) \<Rightarrow> (Done, moved m q' s w))"
  by (simp add: moved_def)

lemma moved_same: "bx_writeBack (mt_ctx m) = Some q \<Longrightarrow> moved m q (bx_os (mt_ctx m)) (bx_world (mt_ctx m)) = m"
  by (simp add: moved_def)

text \<open>A move that only concerns the queue.\<close>

lemma queue_move:
  assumes "wb_mount_ok objs K m" and "bx_writeBack (mt_ctx m) = Some q" and "staged q' = staged q" and "wq_getClient q' = wq_getClient q"
  defines "m' \<equiv> moved m q' (bx_os (mt_ctx m)) (bx_world (mt_ctx m))"
  shows "wb_mount_ok objs K m' \<and> wfs_abs objs K m' = wfs_of (bx_os (mt_ctx m)) q' (cfs_abs objs K m)"
proof -
  let ?x = "mt_ctx m"
  from assms(1,2) have w: "staged_ok ?x q" "wq_getClient q (bx_bucket ?x) = Some (bx_s3 ?x)"
    by (auto elim!: wb_mount_okD)
  have "staged_ok (?x\<lparr>bx_os := bx_os ?x\<rparr>) q'" using w(1) assms(3) by (simp add: staged_ok_def)
  from worker_mount [OF assms(1) _ _ this, of m' "bx_world ?x"] w(2) assms(4) show ?thesis
    by (simp add: cfs_abs_def m'_def moved_def)
qed

lemma take_move:
  fixes m :: "('db, 'w) mount"
  assumes "wb_mount_ok objs K m" and "bx_writeBack (mt_ctx m) = Some q" and "i < length (wq_workers q)"
    and "wq_workers q ! i \<in> {Idle, Draining}" and "wq_jobs q = job # jobs"
  defines "a \<equiv> wfs_abs objs K m" and "q' \<equiv> set_worker i (take_job (wq_workers q ! i) job) (q\<lparr>wq_jobs := jobs\<rparr>)"
    and "s \<equiv> bx_os (mt_ctx m)"
  defines "m' \<equiv> moved m q' s (bx_world (mt_ctx m))"
  shows "wb_mount_do (Worker (Take i)) m = (Done, m')" "wb_mount_ok objs K m'" "fs_queue a = job_data s job # map (job_data s) jobs"
    "fs_busy a i = None" "wfs_abs objs K m' = a\<lparr>fs_queue := map (job_data s) jobs, fs_busy := (fs_busy a)(i \<mapsto> job_data s job)\<rparr>"
proof -
  have a: "a = wfs_of s q (cfs_abs objs K m)" by (simp add: a_def s_def wfs_abs_def assms(2))
  show "wb_mount_do (Worker (Take i)) m = (Done, m')"
    unfolding moved_worker [OF assms(2)] using assms(3-5) by (simp add: m'_def q'_def s_def)
  let ?q = "set_worker i (take_job (wq_workers q ! i) job) (q\<lparr>wq_jobs := jobs, wq_done := wq_done q\<rparr>)"
  have q': "q' = ?q" by (simp add: q'_def)
  have "staged ?q + {#} = staged q"
    by (rule staged_worker) (use assms(3-5) in \<open>auto simp: left_jobs_def\<close>)
  then have st: "staged q' = staged q" by (simp add: q')
  have gc: "wq_getClient q' = wq_getClient q" by (simp add: q'_def set_worker_def)
  have "wfs_of s q' (cfs_abs objs K m) = a\<lparr>fs_queue := map (job_data s) jobs, fs_busy := (fs_busy a)(i \<mapsto> job_data s job)\<rparr>"
    by (rule wfs_eqI) (use assms(3-5) in \<open>auto simp: a q'_def set_worker_def busy_data_upd left_jobs_def\<close>)
  with queue_move [OF assms(1,2) st gc]
  show "wb_mount_ok objs K m'" "wfs_abs objs K m' = a\<lparr>fs_queue := map (job_data s) jobs, fs_busy := (fs_busy a)(i \<mapsto> job_data s job)\<rparr>"
    by (simp_all add: m'_def s_def)
  show "fs_queue a = job_data s job # map (job_data s) jobs" "fs_busy a i = None"
    using assms(3-5) by (auto simp: a busy_data_at)
qed

lemma wb_simulates_take:
  assumes "wb_mount_ok objs K m" and "wb_mount_do (Worker (Take i)) m = (out, m')"
  shows "wb_mount_ok objs K m' \<and> wfs_step (Worker (Take i)) out (wfs_abs objs K m) (wfs_abs objs K m')"
proof -
  from assms(1) obtain q where w: "bx_writeBack (mt_ctx m) = Some q" by (rule wb_mount_okD)
  show ?thesis
  proof (cases "i < length (wq_workers q) \<and> wq_workers q ! i \<in> {Idle, Draining} \<and> wq_jobs q \<noteq> []")
    case True
    then obtain job jobs where j: "wq_jobs q = job # jobs" by (cases "wq_jobs q") auto
    have i: "i < length (wq_workers q)" "wq_workers q ! i \<in> {Idle, Draining}" using True by blast+
    note t = take_move [OF assms(1) w i j]
    have "out = Done" "m' = moved m (set_worker i (take_job (wq_workers q ! i) job) (q\<lparr>wq_jobs := jobs\<rparr>))
        (bx_os (mt_ctx m)) (bx_world (mt_ctx m))"
      using t(1) assms(2) by simp_all
    with t(2-5) show ?thesis by simp
  next
    case False
    then have "out = Done" "m' = m"
      using assms(2) [unfolded moved_worker [OF w]] by (auto simp: moved_same [OF w] split: list.splits)
    with assms(1) show ?thesis by simp
  qed
qed

lemma wb_simulates_leave:
  assumes "wb_mount_ok objs K m" and "wb_mount_do (Worker (Leave i)) m = (out, m')"
  shows "wb_mount_ok objs K m' \<and> wfs_step (Worker (Leave i)) out (wfs_abs objs K m) (wfs_abs objs K m')"
proof -
  let ?x = "mt_ctx m" let ?s = "bx_os ?x" and ?w = "bx_world ?x"
  from assms(1) obtain q where w: "bx_writeBack ?x = Some q" "wfs_abs objs K m = wfs_of ?s q (cfs_abs objs K m)"
    by (rule wb_mount_okD)
  note do = assms(2) [unfolded moved_worker [OF w(1)]]
  show ?thesis
  proof (cases "\<exists>x \<in> {Draining, Exited}. worker_move (Leave i) (q, ?s, ?w) = (set_worker i x q, ?s, ?w) \<and>
      i < length (wq_workers q) \<and> held_job (wq_workers q ! i) = []")
    case True
    then obtain x where x: "x \<in> {Draining, Exited}" "worker_move (Leave i) (q, ?s, ?w) = (set_worker i x q, ?s, ?w)"
      "i < length (wq_workers q)" "held_job (wq_workers q ! i) = []" by blast
    let ?q = "set_worker i x (q\<lparr>wq_jobs := wq_jobs q, wq_done := wq_done q\<rparr>)"
    have q: "?q = set_worker i x q" by simp
    have "held (wq_workers q ! i) = {#}" using x(4) mset_held_job [of "wq_workers q ! i"] by simp
    then have "staged ?q + {#} = staged q"
      by (intro staged_worker) (use x in \<open>auto simp: left_jobs_def\<close>)
    then have s: "staged (set_worker i x q) = staged q" by (simp add: q)
    have m': "out = Done" "m' = moved m (set_worker i x q) ?s ?w" using do x(2) by simp_all
    have "busy_data ?s (wq_workers (set_worker i x q)) = busy_data ?s (wq_workers q)"
      using x(1,3,4) busy_data_at [OF x(3), of ?s] by (auto simp: set_worker_def busy_data_upd fun_upd_idem)
    then have "wfs_of ?s (set_worker i x q) (cfs_abs objs K m) = wfs_abs objs K m"
      by (intro wfs_eqI) (simp_all add: w(2) set_worker_def left_jobs_def)
    with queue_move [OF assms(1) w(1) s] m' show ?thesis by (simp add: set_worker_def)
  next
    case False
    then have "out = Done" "m' = m" using do by (auto simp: moved_same [OF w(1)] split: if_splits)
    with assms(1) show ?thesis by simp
  qed
qed

text \<open>The end of an upload: by then the object has the staged bytes and the file is gone, or the job is given up.\<close>

lemma upload_ends:
  fixes m :: "('db, 'w) mount"
  assumes "wb_mount_ok objs K m" and "bx_writeBack (mt_ctx m) = Some q"
    and "i < length (wq_workers q)" and "held_job (wq_workers q ! i) = job # js"
    and "process (wq_getClient q) (wq_maxRetries q) stop job (bx_os (mt_ctx m)) (bx_world (mt_ctx m)) = (r, job', s', w')"
  defines "q' \<equiv> set_worker i (end_job (wq_workers q ! i)) (q\<lparr>wq_done := (job, r) # wq_done q\<rparr>)" and "a \<equiv> wfs_abs objs K m"
  obtains k d where "fs_busy a i = Some (k, d)" "wb_mount_ok objs K (moved m q' s' w')"
    "wfs_abs objs K (moved m q' s' w') = (if ur_Meta r = None
       then a\<lparr>fs_busy := (fs_busy a)(i := None), fs_left := (k, d) # fs_left a\<rparr>
       else a\<lparr>fs_busy := (fs_busy a)(i := None), fs_objs := (fs_objs a)(k \<mapsto> d)\<rparr>)"
proof -
  let ?x = "mt_ctx m" let ?s = "bx_os ?x" and ?q = "set_worker i (end_job (wq_workers q ! i)) (q\<lparr>wq_jobs := wq_jobs q, wq_done := (job, r) # wq_done q\<rparr>)"
  from assms(1,2) have w: "base_ok objs K m" "staged_ok ?x q" "wq_getClient q (bx_bucket ?x) = Some (bx_s3 ?x)"
    and a: "a = wfs_of ?s q (cfs_abs objs K m)"
    by (auto simp: a_def elim!: wb_mount_okD)
  note ok = ctx_baseD [OF base_okD(1) [OF w(1)]]
  have q': "q' = ?q" by (simp add: q'_def)
  have hj: "held (wq_workers q ! i) = {#job#}" "held (end_job (wq_workers q ! i)) = {#}" "held_job (end_job (wq_workers q ! i)) = []"
    using assms(4) by (cases "wq_workers q ! i"; simp)+
  have js: "job \<in># staged q" by (rule staged_members(3) [OF assms(3,4)])
  then obtain d where d: "fmlookup (files ?s) (uj_FilePath job) = Some d" and sn: "staged_name (uj_FilePath job)"
    and bk: "uj_Bucket job = bx_bucket ?x"
    using w(2) by (auto simp: staged_ok_def)
  have jd: "job_data ?s job = (uj_Key job, d)" by (simp add: job_data_def d)
  have gc: "wq_getClient ?q (bx_bucket ?x) = Some (bx_s3 ?x)" using w(3) by (simp add: set_worker_def)
  have gj: "wq_getClient q (uj_Bucket job) = Some (bx_s3 ?x)" using w(3) bk by simp
  have busy: "fs_busy a i = Some (uj_Key job, d)" using assms(3,4) jd by (simp add: a busy_data_at)
  have m': "moved m q' s' w' = m\<lparr>mt_ctx := ?x\<lparr>bx_writeBack := Some ?q, bx_os := s', bx_world := w'\<rparr>\<rparr>"
    by (simp add: moved_def q')
  from ok(1,2) gj assms(5) d show thesis
  proof (cases rule: process_cases)
    case (uploaded meta)
    have st: "staged ?q + {#job#} = staged q"
      by (rule staged_worker) (use assms(3) hj uploaded(1) in \<open>simp_all add: left_jobs_def\<close>)
    then have sq: "staged q = add_mset job (staged ?q)" by simp
    have keep: "fmlookup (files s') (uj_FilePath j) = fmlookup (files ?s) (uj_FilePath j)" if "j \<in># staged ?q" for j
      using staged_once [OF w(2) sq that] by (simp add: uploaded(2) os_Remove_files)
    have so: "staged_ok (?x\<lparr>bx_os := s'\<rparr>) ?q"
      by (rule staged_ok_cong [OF staged_ok_le [OF w(2) st]]) (use keep in simp_all)
    have sm: "s' = ?s \<or> (\<exists>p. staged_name p \<and> s' = snd (os_Remove p ?s))" using sn uploaded(2) by blast
    note wm = worker_mount [OF assms(1) gc sm so m']
    have ob: "objs_abs objs (?x\<lparr>bx_world := w'\<rparr>) = (objs_abs objs ?x)(uj_Key job \<mapsto> d)"
      by (rule objs_abs_upd(1) [of _ _ _ _ _ "om_ETag meta"]) (use uploaded(3) in simp_all)
    have "wfs_abs objs K (moved m q' s' w') = wfs_of ?s ?q ((cfs_abs objs K m)\<lparr>fs_objs := (objs_abs objs ?x)(uj_Key job \<mapsto> d)\<rparr>)"
      using wm ob wfs_of_cong [OF keep] by simp
    also have "\<dots> = a\<lparr>fs_busy := (fs_busy a)(i := None), fs_objs := (fs_objs a)(uj_Key job \<mapsto> d)\<rparr>"
      by (rule wfs_eqI) (use assms(3) hj(3) uploaded(1) in \<open>simp_all add: a set_worker_def busy_data_upd left_jobs_def cfs_abs_def\<close>)
    finally show thesis using that [OF busy] wm uploaded(1) by simp
  next
    case failed
    have "staged ?q + {#} = staged q"
      by (rule staged_worker) (use assms(3) hj failed(1) in \<open>simp_all add: left_jobs_def\<close>)
    then have so: "staged_ok (?x\<lparr>bx_os := s'\<rparr>) ?q" using w(2) failed(2) by (simp add: staged_ok_def)
    note wm = worker_mount [OF assms(1) gc _ so m']
    have "objs_abs objs (?x\<lparr>bx_world := w'\<rparr>) = objs_abs objs ?x" by (rule objs_abs_cong) (use failed(3) in simp_all)
    then have "wfs_abs objs K (moved m q' s' w') = wfs_of ?s ?q (cfs_abs objs K m)"
      using wm failed(2) by (simp add: cfs_abs_def)
    also have "\<dots> = a\<lparr>fs_busy := (fs_busy a)(i := None), fs_left := (uj_Key job, d) # fs_left a\<rparr>"
      by (rule wfs_eqI) (use assms(3) hj(3) failed(1) jd in \<open>simp_all add: a set_worker_def busy_data_upd left_jobs_def\<close>)
    finally show thesis using that [OF busy] wm failed(1,2) by simp
  qed
qed

lemma wb_simulates_finish:
  assumes "wb_mount_ok objs K m" and "wb_mount_do (Worker (Finish i stop)) m = (out, m')"
  shows "wb_mount_ok objs K m' \<and> wfs_step (Worker (Finish i stop)) out (wfs_abs objs K m) (wfs_abs objs K m')"
proof -
  let ?x = "mt_ctx m"
  from assms(1) obtain q where w: "bx_writeBack ?x = Some q" "wfs_abs objs K m = wfs_of (bx_os ?x) q (cfs_abs objs K m)"
    by (rule wb_mount_okD)
  note do = assms(2) [unfolded moved_worker [OF w(1)]]
  show ?thesis
  proof (cases "i < length (wq_workers q) \<and> held_job (wq_workers q ! i) \<noteq> []")
    case True
    then obtain job js where j: "held_job (wq_workers q ! i) = job # js" by (cases "held_job (wq_workers q ! i)") auto
    obtain r job' s' w' where p: "process (wq_getClient q) (wq_maxRetries q)
        (\<lambda>k. wq_workers q ! i = DrainWorking job \<or> stop k \<and> wq_stopped q) job (bx_os ?x) (bx_world ?x) = (r, job', s', w')"
      by (rule prod_cases4)
    from do True j p have m': "out = Done"
      "m' = moved m (set_worker i (end_job (wq_workers q ! i)) (q\<lparr>wq_done := (job, r) # wq_done q\<rparr>)) s' w'"
      by simp_all
    show ?thesis
      by (rule upload_ends [OF assms(1) w(1) conjunct1 [OF True] j p]) (simp add: m' split: if_splits)
  next
    case False
    then have m': "out = Done" "m' = m" using do by (auto simp: moved_same [OF w(1)] split: list.splits)
    have "fs_busy (wfs_abs objs K m) i = None" using False by (auto simp: w(2) busy_data_def split: list.split)
    with assms(1) m' show ?thesis by simp
  qed
qed

lemma wb_simulates_worker:
  assumes "wb_mount_ok objs K m" and "wb_mount_do (Worker mv) m = (out, m')"
  shows "wb_mount_ok objs K m' \<and> wfs_step (Worker mv) out (wfs_abs objs K m) (wfs_abs objs K m')"
proof (cases mv)
  case (Take i)
  with wb_simulates_take assms show ?thesis by blast
next
  case (Finish i stop)
  with wb_simulates_finish assms show ?thesis by blast
next
  case (Leave i)
  with wb_simulates_leave assms show ?thesis by blast
next
  case StopQueue
  from assms(1) obtain q where w: "bx_writeBack (mt_ctx m) = Some q" "wfs_abs objs K m = wfs_of (bx_os (mt_ctx m)) q (cfs_abs objs K m)"
    by (rule wb_mount_okD)
  let ?q = "q\<lparr>wq_stopped := True\<rparr>"
  have m': "out = Done" "m' = moved m ?q (bx_os (mt_ctx m)) (bx_world (mt_ctx m))"
    using assms(2) w(1) StopQueue by (auto simp: moved_worker moved_def)
  have "wfs_of (bx_os (mt_ctx m)) ?q (cfs_abs objs K m) = wfs_abs objs K m"
    by (rule wfs_eqI) (simp_all add: w(2) left_jobs_def)
  with queue_move [OF assms(1) w(1), of ?q] m' StopQueue show ?thesis by (simp add: staged_def left_jobs_def)
qed


section \<open>The refinement\<close>

lemma wb_mount_simulates:
  assumes "wb_mount_ok objs K m" and "wb_legal K r" and "wb_mount_do r m = (out, m')"
  shows "wb_mount_ok objs K m' \<and> wfs_step r out (wfs_abs objs K m) (wfs_abs objs K m')"
proof (cases r)
  case (Worker mv)
  with wb_simulates_worker [OF assms(1)] assms(3) show ?thesis by simp
next
  case (Kernel tr)
  obtain now req where tr: "tr = (now, req)" by (metis surj_pair)
  have a: "legal_req K (now, req)" "mount_do (now, req) m = (out, m')" using assms(2,3) Kernel tr by simp_all
  show ?thesis
  proof (cases "\<exists>i f. req = FsFlush i f")
    case True
    with wb_simulates_flush [OF assms(1)] a(2) Kernel tr show ?thesis by blast
  next
    case False
    with wb_simulates_kernel [OF assms(1) a] Kernel tr show ?thesis by blast
  qed
qed

interpretation wbm: implementation wb_mount_do wfs_step "wb_mount_ok objs K" "wfs_abs objs K" "wb_legal K"
  for objs K
  by unfold_locales (rule wb_mount_simulates)

end
