(* ===== verification/Write_Back_Lands.thy ===== *)
theory Write_Back_Lands
  imports Write_Back_Durable
begin

text \<open>
  Progress of the uploads: with S3 up, a worker that goes through the queue makes every pending flush
  the contents of its object, in the order of the flushes.
\<close>

section \<open>One job\<close>

lemma process_up:
  assumes "s3_up (c_inner c) objs" and "gc (uj_Bucket job) = Some c" and "disk_ok s" and "fmlookup (files s) (uj_FilePath job) = Some d"
    and "0 \<le> n"
  obtains meta job' s' w' where "process gc n stop job s w = (\<lparr>ur_Meta = Some meta, ur_Err = None\<rparr>, job', s', w')"
proof -
  obtain meta w' where "PutObject c (uj_Key job) d (int (length d)) w = (Inr meta, w')"
    using s3_upD(1) [OF assms(1)] by (metis obj_sumE surj_pair)
  then have "upload c job s w = (Inr meta, w')"
    using assms(3,4) by (simp add: upload_def os_Open_def os_Stat_def)
  moreover have "nat (n + 1) = Suc (nat n)" using assms(5) by simp
  ultimately have "process gc n stop job s w = (\<lparr>ur_Meta = Some meta, ur_Err = None\<rparr>,
      sendResult job \<lparr>ur_Meta = Some meta, ur_Err = None\<rparr>, snd (os_Remove (uj_FilePath job) s), w')"
    using assms(2) by (simp add: process_def)
  then show thesis by (rule that)
qed

text \<open>An idle worker takes the first job and ends it; a draining one does the same.\<close>

lemma land_one:
  fixes m :: "('db, 'w) mount"
  assumes "wb_mount_ok objs K m" and "bx_writeBack (mt_ctx m) = Some q" and "i < length (wq_workers q)"
    and "wq_workers q ! i \<in> {Idle, Draining}" and "wq_jobs q = job # jobs" and "0 \<le> wq_maxRetries q"
    and "s3_up (c_inner (bx_s3 (mt_ctx m))) objs"
  defines "a \<equiv> wfs_abs objs K m"
  obtains m' q' k d es where "run wb_mount_do [Worker (Take i), Worker (Finish i stop)] m = ([Done, Done], m')"
    "wb_mount_ok objs K m'" "bx_writeBack (mt_ctx m') = Some q'" "wq_jobs q' = jobs" "wq_workers q' = wq_workers q"
    "wq_maxRetries q' = wq_maxRetries q" "bx_s3 (mt_ctx m') = bx_s3 (mt_ctx m)" "fs_queue a = (k, d) # es"
    "wfs_abs objs K m' = a\<lparr>fs_queue := es, fs_objs := (fs_objs a)(k \<mapsto> d)\<rparr>"
proof -
  let ?s = "bx_os (mt_ctx m)" and ?w = "bx_world (mt_ctx m)"
  note t = take_move [OF assms(1-5), folded a_def]
  obtain m1 q1 where take: "wb_mount_do (Worker (Take i)) m = (Done, m1)" "wb_mount_ok objs K m1"
      "wfs_abs objs K m1 = a\<lparr>fs_queue := map (job_data ?s) jobs, fs_busy := (fs_busy a)(i \<mapsto> job_data ?s job)\<rparr>"
    and m1: "bx_writeBack (mt_ctx m1) = Some q1" "bx_os (mt_ctx m1) = ?s" "bx_world (mt_ctx m1) = ?w" "bx_s3 (mt_ctx m1) = bx_s3 (mt_ctx m)"
    and q1: "wq_workers q1 = (wq_workers q)[i := take_job (wq_workers q ! i) job]" "wq_jobs q1 = jobs"
      "wq_maxRetries q1 = wq_maxRetries q" "wq_getClient q1 = wq_getClient q"
    by (rule that [OF t(1,2,5), of "set_worker i (take_job (wq_workers q ! i) job) (q\<lparr>wq_jobs := jobs\<rparr>)"]) (simp_all add: moved_def set_worker_def)
  have held: "i < length (wq_workers q1)" "held_job (wq_workers q1 ! i) = [job]" "end_job (wq_workers q1 ! i) = wq_workers q ! i"
    using assms(3,4) by (auto simp: q1(1))
  from assms(1,2) have so: "staged_ok (mt_ctx m) q" "wq_getClient q (bx_bucket (mt_ctx m)) = Some (bx_s3 (mt_ctx m))"
    and "base_ok objs K m"
    by (auto elim!: wb_mount_okD)
  then have dk: "disk_ok ?s" using ctx_baseD(4) base_okD(1) by blast
  have "job \<in># staged q" using assms(5) by (intro staged_members(1)) simp
  then obtain d' where d': "fmlookup (files ?s) (uj_FilePath job) = Some d'" "uj_Bucket job = bx_bucket (mt_ctx m)"
    using so(1) by (auto simp: staged_ok_def)
  have gc: "wq_getClient q1 (uj_Bucket job) = Some (bx_s3 (mt_ctx m))" using so(2) d'(2) by (simp add: q1(4))
  have n: "0 \<le> wq_maxRetries q1" using assms(6) by (simp add: q1(3))
  obtain meta job' s' w' where p: "process (wq_getClient q1) (wq_maxRetries q1)
      (\<lambda>k. wq_workers q1 ! i = DrainWorking job \<or> stop k \<and> wq_stopped q1) job (bx_os (mt_ctx m1)) (bx_world (mt_ctx m1)) =
        (\<lparr>ur_Meta = Some meta, ur_Err = None\<rparr>, job', s', w')"
    unfolding m1(2,3)
    by (rule process_up [where c = "bx_s3 (mt_ctx m)" and gc = "wq_getClient q1" and n = "wq_maxRetries q1", OF assms(7) gc dk d'(1) n])
  let ?r = "\<lparr>ur_Meta = Some meta, ur_Err = None\<rparr> :: UploadResult"
  let ?q2 = "set_worker i (end_job (wq_workers q1 ! i)) (q1\<lparr>wq_done := (job, ?r) # wq_done q1\<rparr>)"
  let ?m2 = "moved m1 ?q2 s' w'"
  obtain k d where u: "fs_busy (wfs_abs objs K m1) i = Some (k, d)" "wb_mount_ok objs K ?m2"
    "wfs_abs objs K ?m2 = (wfs_abs objs K m1)\<lparr>fs_busy := (fs_busy (wfs_abs objs K m1))(i := None),
       fs_objs := (fs_objs (wfs_abs objs K m1))(k \<mapsto> d)\<rparr>"
    by (rule upload_ends [OF take(2) m1(1) held(1,2) p]) simp
  have "wb_mount_do (Worker (Finish i stop)) m1 = (Done, ?m2)"
    unfolding moved_worker [OF m1(1)] using held(1,2) p by simp
  with take(1) have r: "run wb_mount_do [Worker (Take i), Worker (Finish i stop)] m = ([Done, Done], ?m2)"
    by (simp del: wb_mount_do.simps)
  have kd: "job_data ?s job = (k, d)" using u(1) by (simp add: take(3))
  have "wfs_abs objs K ?m2 = a\<lparr>fs_queue := map (job_data ?s) jobs, fs_objs := (fs_objs a)(k \<mapsto> d)\<rparr>"
    unfolding u(3) take(3) by (rule wfs_eqI) (use t(4) in \<open>simp_all add: fun_upd_idem\<close>)
  then show thesis
    by (intro that [OF r u(2), of ?q2 k d "map (job_data ?s) jobs"])
      (use q1 held(3) kd t(3) m1(4) in \<open>simp_all add: moved_def set_worker_def\<close>)
qed

section \<open>All of them\<close>

lemma run_app: "run step (rs @ rs') s = (case run step rs s of (outs, s1) \<Rightarrow> case run step rs' s1 of (outs', s2) \<Rightarrow> (outs @ outs', s2))"
  by (induction rs arbitrary: s) (simp_all split: prod.split)


section \<open>Witness\<close>


end
