(* ===== verification/Gateway_Serves.thy ===== *)
theory Gateway_Serves
  imports Gateway_Life Write_Back_Durable
begin

text \<open>
  From the configuration to the users: what the gateway mounts after a successful start with write-back
  is a mount as \<open>Write_Back_Refines\<close> describes it, with nothing open and nothing pending.
\<close>

section \<open>A mount without open files\<close>

lemma fresh_wb_mount:
  assumes "ctx_base objs K x" and "temp_unstaged (bx_os x)" and "bx_writeBack x = Some (NewWriteBackQueue n cap retries gc)"
    and "gc (bx_bucket x) = Some (bx_s3 x)"
  defines "m \<equiv> \<lparr>mt_ctx = x, mt_handles = []\<rparr>"
  shows "wb_mount_ok objs K m" "owed (wfs_abs objs K m) = {}" "fs_open (wfs_abs objs K m) = Map.empty"
    "fs_cap (wfs_abs objs K m) = cap" "fs_objs (wfs_abs objs K m) = objs_abs objs x"
proof -
  have i: "in_flight (replicate n Idle) = {#}" by (induction n) (simp_all add: in_flight_def)
  show "wb_mount_ok objs K m"
    using assms(1-4) i by (simp add: wb_mount_ok_def base_ok_def open_ok_def staged_ok_def staged_def left_jobs_def m_def NewWriteBackQueue_def)
  have b: "busy_data s (replicate n Idle) = Map.empty" for s by (simp add: busy_data_def fun_eq_iff)
  show "owed (wfs_abs objs K m) = {}" "fs_open (wfs_abs objs K m) = Map.empty"
    "fs_cap (wfs_abs objs K m) = cap" "fs_objs (wfs_abs objs K m) = objs_abs objs x"
    using assms(3) by (simp_all add: b owed_def wfs_abs_def m_def left_jobs_def NewWriteBackQueue_def cfs_abs_def open_abs_def)
qed

section \<open>After the start\<close>


section \<open>Witnesses\<close>


end
