(* ===== verification/Cache_Race.thy ===== *)
theory Cache_Race
  imports Cache_Manager
begin

text \<open>
  The cache under concurrency. \<open>Put\<close> and \<open>Invalidate\<close> hold the manager's lock over their two halves,
  the file and its metadata; the evictor takes no lock (\<open>evictor.go\<close>), so its own two halves can
  fall between them. The steps are those of the sequential operations, cut where they change
  shared state; the evictor by itself is proved to be \<open>evictOnce\<close>.
\<close>

section \<open>States and steps\<close>

text \<open>Where the evictor's pass is: not running, before a candidate, or between a candidate's two deletions.\<close>

datatype ev_pc =
    EvIdle
  | EvLoop int "CacheEntry list"
  | EvMeta CacheEntry int "CacheEntry list"

text \<open>Who holds the lock, and what it has left to do.\<close>

datatype lock_holder = Unlocked | PutMeta CacheEntry | InvalidateMeta string string

record 'db race =
  ra_cm :: "'db Manager"
  ra_os :: os
  ra_pc :: ev_pc
  ra_lock :: lock_holder
  ra_puts :: "(string \<times> bytes) list"    \<comment> \<open>history: the files put, newest first\<close>

inductive race_step :: "'db race \<Rightarrow> 'db race \<Rightarrow> bool" where
  put_file: "ra_lock r = Unlocked \<Longrightarrow> ds_Write (cm_store (ra_cm r)) b k src (ra_os r) = (None, s) \<Longrightarrow>
    race_step r (r\<lparr>ra_os := s, ra_lock := PutMeta (cache_entry (ra_cm r) b k meta now),
      ra_puts := (ds_Path (cm_store (ra_cm r)) b k, snd src) # ra_puts r\<rparr>)"
| put_fails: "ra_lock r = Unlocked \<Longrightarrow> ds_Write (cm_store (ra_cm r)) b k src (ra_os r) = (Some e, s) \<Longrightarrow>
    race_step r (r\<lparr>ra_os := s\<rparr>)"
| put_meta: "ra_lock r = PutMeta entry \<Longrightarrow> ms_Put (cm_meta (ra_cm r)) entry = (res, ms) \<Longrightarrow>
    race_step r (r\<lparr>ra_cm := (ra_cm r)\<lparr>cm_meta := ms\<rparr>, ra_lock := Unlocked\<rparr>)"
| inv_file: "ra_lock r = Unlocked \<Longrightarrow> ds_Delete (cm_store (ra_cm r)) b k (ra_os r) = (res, s) \<Longrightarrow>
    race_step r (r\<lparr>ra_os := s, ra_lock := InvalidateMeta b k\<rparr>)"
| inv_meta: "ra_lock r = InvalidateMeta b k \<Longrightarrow> ms_Delete (cm_meta (ra_cm r)) b k = (res, ms) \<Longrightarrow>
    race_step r (r\<lparr>ra_cm := (ra_cm r)\<lparr>cm_meta := ms\<rparr>, ra_lock := Unlocked\<rparr>)"
| get: "ra_lock r = Unlocked \<Longrightarrow> cm_Get b k ttl sw now (ra_os r) (ra_cm r) = (res, cm) \<Longrightarrow>
    race_step r (r\<lparr>ra_cm := cm\<rparr>)"
| ev_begin: "ra_pc r = EvIdle \<Longrightarrow> ms_TotalSize (cm_meta (ra_cm r)) = Inr tot \<Longrightarrow>
    highWater (ev_maxSize (cm_evictor (ra_cm r))) < tot \<Longrightarrow> ms_ListByLastAccessed (cm_meta (ra_cm r)) 100 = Inr es \<Longrightarrow>
    race_step r (r\<lparr>ra_pc := EvLoop tot es\<rparr>)"
| ev_file: "ra_pc r = EvLoop tot (e # es) \<Longrightarrow> targetMark (ev_maxSize (cm_evictor (ra_cm r))) < tot \<Longrightarrow>
    ds_Delete (cm_store (ra_cm r)) (ce_Bucket e) (ce_Key e) (ra_os r) = (res, s) \<Longrightarrow>
    race_step r (r\<lparr>ra_os := s, ra_pc := (case res of Some err \<Rightarrow> EvLoop tot es | None \<Rightarrow> EvMeta e tot es)\<rparr>)"
| ev_meta: "ra_pc r = EvMeta e tot es \<Longrightarrow> ms_Delete (cm_meta (ra_cm r)) (ce_Bucket e) (ce_Key e) = (res, ms) \<Longrightarrow>
    race_step r (r\<lparr>ra_cm := (ra_cm r)\<lparr>cm_meta := ms\<rparr>,
      ra_pc := EvLoop (case res of Some err \<Rightarrow> tot | None \<Rightarrow> i64 (tot - ce_Size e)) es\<rparr>)"
| ev_end: "ra_pc r = EvLoop tot es \<Longrightarrow> es = [] \<or> tot \<le> targetMark (ev_maxSize (cm_evictor (ra_cm r))) \<Longrightarrow>
    race_step r (r\<lparr>ra_pc := EvIdle\<rparr>)"

inductive_cases race_stepE: "race_step r r'"

section \<open>The evictor alone\<close>

lemma evictor_loop_steps:
  "evict_loop (cm_store (ra_cm r)) (targetMark (ev_maxSize (cm_evictor (ra_cm r)))) es tot n (cm_meta (ra_cm r)) (ra_os r) =
     (res, ms, s) \<Longrightarrow> ra_pc r = EvLoop tot es \<Longrightarrow>
   race_step\<^sup>*\<^sup>* r (r\<lparr>ra_cm := (ra_cm r)\<lparr>cm_meta := ms\<rparr>, ra_os := s, ra_pc := EvIdle\<rparr>)"
proof (induction es arbitrary: r tot n)
  case Nil
  then show ?case using ev_end [of r tot "[]"] by auto
next
  case (Cons e es)
  let ?target = "targetMark (ev_maxSize (cm_evictor (ra_cm r)))"
  show ?case
  proof (cases "tot \<le> ?target")
    case True
    with Cons.prems have "ms = cm_meta (ra_cm r)" "s = ra_os r" by auto
    with ev_end [OF Cons.prems(2)] True show ?thesis by auto
  next
    case False
    obtain r1 s1 where d: "ds_Delete (cm_store (ra_cm r)) (ce_Bucket e) (ce_Key e) (ra_os r) = (r1, s1)" by (metis surj_pair)
    let ?ra = "r\<lparr>ra_os := s1, ra_pc := (case r1 of Some err \<Rightarrow> EvLoop tot es | None \<Rightarrow> EvMeta e tot es)\<rparr>"
    have st: "race_step r ?ra" by (rule ev_file [OF Cons.prems(2) _ d]) (use False in simp)
    show ?thesis
    proof (cases r1)
      case (Some err)
      from Cons.prems(1) False d Some have "evict_loop (cm_store (ra_cm ?ra)) (targetMark (ev_maxSize (cm_evictor (ra_cm ?ra)))) es tot n
          (cm_meta (ra_cm ?ra)) (ra_os ?ra) = (res, ms, s)" by simp
      from Cons.IH [OF this] Some have "race_step\<^sup>*\<^sup>* ?ra (r\<lparr>ra_cm := (ra_cm r)\<lparr>cm_meta := ms\<rparr>, ra_os := s, ra_pc := EvIdle\<rparr>)"
        by simp
      with st show ?thesis by (rule converse_rtranclp_into_rtranclp)
    next
      case None
      obtain r2 ms2 where m: "ms_Delete (cm_meta (ra_cm ?ra)) (ce_Bucket e) (ce_Key e) = (r2, ms2)" by (metis surj_pair)
      let ?tot = "case r2 of Some err \<Rightarrow> tot | None \<Rightarrow> i64 (tot - ce_Size e)"
      let ?rb = "?ra\<lparr>ra_cm := (ra_cm ?ra)\<lparr>cm_meta := ms2\<rparr>, ra_pc := EvLoop ?tot es\<rparr>"
      have st2: "race_step ?ra ?rb" by (rule ev_meta [OF _ m]) (simp add: None)
      from Cons.prems(1) False d None m have "\<exists>n. evict_loop (cm_store (ra_cm ?rb)) (targetMark (ev_maxSize (cm_evictor (ra_cm ?rb)))) es ?tot n
          (cm_meta (ra_cm ?rb)) (ra_os ?rb) = (res, ms, s)" by (auto split: option.splits)
      then obtain n' where "evict_loop (cm_store (ra_cm ?rb)) (targetMark (ev_maxSize (cm_evictor (ra_cm ?rb)))) es ?tot n'
          (cm_meta (ra_cm ?rb)) (ra_os ?rb) = (res, ms, s)" by blast
      from Cons.IH [OF this] have "race_step\<^sup>*\<^sup>* ?rb (r\<lparr>ra_cm := (ra_cm r)\<lparr>cm_meta := ms\<rparr>, ra_os := s, ra_pc := EvIdle\<rparr>)"
        by simp
      with st st2 show ?thesis by (meson converse_rtranclp_into_rtranclp)
    qed
  qed
qed

text \<open>Nothing interferes: the steps of one pass are \<open>evictOnce\<close>.\<close>

lemma evictor_alone:
  assumes "ra_pc r = EvIdle" and "evictOnce (cm_evictor (ra_cm r)) (cm_store (ra_cm r)) (cm_meta (ra_cm r)) (ra_os r) = (res, ms, s)"
  shows "race_step\<^sup>*\<^sup>* r (r\<lparr>ra_cm := (ra_cm r)\<lparr>cm_meta := ms\<rparr>, ra_os := s\<rparr>)"
proof -
  consider (still) "ms = cm_meta (ra_cm r)" "s = ra_os r"
    | (pass) tot es res' where "ms_TotalSize (cm_meta (ra_cm r)) = Inr tot" "highWater (ev_maxSize (cm_evictor (ra_cm r))) < tot"
        "ms_ListByLastAccessed (cm_meta (ra_cm r)) 100 = Inr es"
        "evict_loop (cm_store (ra_cm r)) (targetMark (ev_maxSize (cm_evictor (ra_cm r)))) es tot 0 (cm_meta (ra_cm r)) (ra_os r) = (res', ms, s)"
    using assms(2) by (auto simp: evictOnce_def Let_def split: sum.splits if_splits prod.splits)
  then show ?thesis
  proof cases
    case still
    then show ?thesis by simp
  next
    case pass
    let ?r1 = "r\<lparr>ra_pc := EvLoop tot es\<rparr>"
    have "race_step r ?r1" by (rule ev_begin [OF assms(1) pass(1-3)])
    moreover have "race_step\<^sup>*\<^sup>* ?r1 (?r1\<lparr>ra_cm := (ra_cm ?r1)\<lparr>cm_meta := ms\<rparr>, ra_os := s, ra_pc := EvIdle\<rparr>)"
      by (rule evictor_loop_steps [where n = 0]) (use pass(4) in simp_all)
    moreover have "?r1\<lparr>ra_cm := (ra_cm ?r1)\<lparr>cm_meta := ms\<rparr>, ra_os := s, ra_pc := EvIdle\<rparr> =
        r\<lparr>ra_cm := (ra_cm r)\<lparr>cm_meta := ms\<rparr>, ra_os := s\<rparr>"
      using assms(1) by (cases r) simp
    ultimately show ?thesis by (metis converse_rtranclp_into_rtranclp)
  qed
qed


section \<open>Files are never mixed up\<close>

definition race_ok :: "'db race \<Rightarrow> 'db race \<Rightarrow> bool" where
  "race_ok r0 r \<longleftrightarrow> temp_ok (ra_os r) \<and> cm_store (ra_cm r) = cm_store (ra_cm r0) \<and>
     (\<forall>b k c. cached_data (ra_cm r) (ra_os r) b k = Some c \<longrightarrow>
        (case map_of (ra_puts r) (ds_Path (cm_store (ra_cm r)) b k) of
           Some d \<Rightarrow> c = d
         | None \<Rightarrow> cached_data (ra_cm r0) (ra_os r0) b k = Some c))"

text \<open>A step that removes files or leaves them.\<close>

lemma race_ok_remove:
  assumes "race_ok r0 r" and "temp_name (ra_os r') = temp_name (ra_os r)" and "cm_store (ra_cm r') = cm_store (ra_cm r)"
    and "ra_puts r' = ra_puts r"
    and "\<And>b k. cached_data (ra_cm r') (ra_os r') b k \<in> {cached_data (ra_cm r) (ra_os r) b k, None}"
  shows "race_ok r0 r'"
  unfolding race_ok_def
proof (intro conjI allI impI)
  show "temp_ok (ra_os r')" using assms(1) temp_ok_cong [OF assms(2)] by (simp add: race_ok_def)
  show "cm_store (ra_cm r') = cm_store (ra_cm r0)" using assms(1,3) by (simp add: race_ok_def)
  fix b k c assume "cached_data (ra_cm r') (ra_os r') b k = Some c"
  then have "cached_data (ra_cm r) (ra_os r) b k = Some c" using assms(5) [of b k] by auto
  then show "case map_of (ra_puts r') (ds_Path (cm_store (ra_cm r')) b k) of
      Some d \<Rightarrow> c = d | None \<Rightarrow> cached_data (ra_cm r0) (ra_os r0) b k = Some c"
    using assms(1) unfolding race_ok_def assms(3,4) by blast
qed

lemma race_ok_step: "race_step r r' \<Longrightarrow> race_ok r0 r \<Longrightarrow> race_ok r0 r'"
proof (induction rule: race_step.induct)
  case (put_file r b k src s meta now)
  then have "s = (ra_os r)\<lparr>files := fmupd (ds_Path (cm_store (ra_cm r)) b k) (snd src) (files (ra_os r))\<rparr>"
    by (intro ds_Write_ok) (auto simp: race_ok_def)
  with put_file(3) show ?case by (auto simp: race_ok_def cached_data_def split: if_splits)
next
  case (put_fails r b k src e s)
  then have t: "temp_ok (ra_os r)" by (simp add: race_ok_def)
  have "cached_data (ra_cm r) s b k = cached_data (ra_cm r) (ra_os r) b k" for b k
    unfolding cached_data_def by (rule ds_Write_fail(4) [OF t put_fails(2)])
  moreover have "temp_name s = temp_name (ra_os r)" using ds_Write_env [OF put_fails(2)] ..
  ultimately show ?case by (intro race_ok_remove [OF put_fails(3)]) simp_all
next
  case (inv_file r b k res s)
  then have "s = snd (os_Remove (ds_Path (cm_store (ra_cm r)) b k) (ra_os r))" by (simp add: ds_Delete_def)
  with inv_file(3) show ?case
    by (intro race_ok_remove [OF inv_file(3)]) (auto simp: cached_data_def os_Remove_files)
next
  case (get r b k ttl sw now res cm)
  with cm_Get_store [OF get(2)] show ?case by (intro race_ok_remove [OF get(3)]) (simp_all add: cached_data_def)
next
  case (ev_file r tot e es res s)
  then have "s = snd (os_Remove (ds_Path (cm_store (ra_cm r)) (ce_Bucket e) (ce_Key e)) (ra_os r))" by (simp add: ds_Delete_def)
  with ev_file(4) show ?case
    by (intro race_ok_remove [OF ev_file(4)]) (auto simp: cached_data_def os_Remove_files)
next
  case (put_meta r entry res ms)
  then show ?case by (intro race_ok_remove [OF put_meta(3)]) (simp_all add: cached_data_def)
next
  case (inv_meta r b k res ms)
  then show ?case by (intro race_ok_remove [OF inv_meta(3)]) (simp_all add: cached_data_def)
next
  case (ev_begin r tot es)
  then show ?case by (intro race_ok_remove [OF ev_begin(5)]) (simp_all add: cached_data_def)
next
  case (ev_meta r e tot es res ms)
  then show ?case by (intro race_ok_remove [OF ev_meta(3)]) (simp_all add: cached_data_def)
next
  case (ev_end r tot es)
  then show ?case by (intro race_ok_remove [OF ev_end(3)]) (simp_all add: cached_data_def)
qed

text \<open>C15: whatever the interleaving, a cached file is whole and is the last one put. After any steps of
  \<open>Put\<close>, \<open>Get\<close>, \<open>Invalidate\<close> and the unlocked evictor, the cached copy of an object, if there is one, has
  exactly the bytes of the last successful write of that file, or, if there was none, those it had at
  the start.\<close>

theorem race_files_whole:
  assumes "race_step\<^sup>*\<^sup>* r r'" and "temp_ok (ra_os r)" and "ra_puts r = []"
    and "cached_data (ra_cm r') (ra_os r') b k = Some c"
  shows "case map_of (ra_puts r') (ds_Path (cm_store (ra_cm r)) b k) of
    Some d \<Rightarrow> c = d | None \<Rightarrow> cached_data (ra_cm r) (ra_os r) b k = Some c"
proof -
  have "race_ok r r'"
    using assms(1)
  proof (induction rule: rtranclp_induct)
    case base
    show ?case using assms(2,3) by (simp add: race_ok_def)
  qed (rule race_ok_step)
  with assms(4) show ?thesis by (auto simp: race_ok_def)
qed

section \<open>Files the cache forgets\<close>

text \<open>C39: eviction races with \<open>Put\<close>. If the evictor has just removed the file of its first candidate when
  the same object is put again, it then deletes the new metadata: the new file stays on disk without an
  entry, so it is not found by \<open>Get\<close>, not counted by \<open>TotalSize\<close> and no later pass can evict it.\<close>

theorem evictor_races_put:
  assumes "ms_ok (cm_meta (ra_cm r))" and "ms_wf (cm_meta (ra_cm r))" and "temp_ok (ra_os r)"
    and "ra_lock r = Unlocked" and "ra_pc r = EvLoop tot (e # es)"
    and "targetMark (ev_maxSize (cm_evictor (ra_cm r))) < tot" and "b = ce_Bucket e" and "k = ce_Key e"
    and "ds_Delete (cm_store (ra_cm r)) b k (ra_os r) = (None, s1)"
    and "ds_Write (cm_store (ra_cm r)) b k src s1 = (None, s2)"
    and "ms_Put (cm_meta (ra_cm r)) (cache_entry (ra_cm r) b k meta now) = (None, ms1)"
    and "ms_Delete ms1 b k = (None, ms2)"
  shows "\<exists>r'. race_step\<^sup>*\<^sup>* r r' \<and> ra_lock r' = Unlocked \<and> cached_data (ra_cm r') (ra_os r') b k = Some (snd src) \<and>
    cached_entry (ra_cm r') b k = None \<and> (\<forall>x \<in> set (ms_entries (cm_meta (ra_cm r'))). mkey x \<noteq> entryKey b k)"
proof -
  let ?entry = "cache_entry (ra_cm r) b k meta now"
  let ?r1 = "r\<lparr>ra_os := s1, ra_pc := EvMeta e tot es\<rparr>"
  let ?r2 = "?r1\<lparr>ra_os := s2, ra_lock := PutMeta ?entry, ra_puts := (ds_Path (cm_store (ra_cm r)) b k, snd src) # ra_puts r\<rparr>"
  let ?r3 = "?r2\<lparr>ra_cm := (ra_cm r)\<lparr>cm_meta := ms1\<rparr>, ra_lock := Unlocked\<rparr>"
  let ?r4 = "?r3\<lparr>ra_cm := (ra_cm r)\<lparr>cm_meta := ms2\<rparr>, ra_pc := EvLoop (i64 (tot - ce_Size e)) es\<rparr>"
  have "race_step r ?r1" using ev_file [OF assms(5,6), of None s1] assms(7-9) by simp
  moreover have "race_step ?r1 ?r2" using put_file [of ?r1 b k src s2 meta now] assms(4,10) by simp
  moreover have "race_step ?r2 ?r3" using put_meta [of ?r2 ?entry None ms1] assms(11) by simp
  moreover have "race_step ?r3 ?r4" using ev_meta [of ?r3 e tot es None ms2] assms(7,8,12) by simp
  ultimately have "race_step\<^sup>*\<^sup>* r ?r4" by (meson rtranclp.rtrancl_refl rtranclp.rtrancl_into_rtrancl)
  moreover have "temp_ok s1"
    using assms(3,9) by (auto simp: ds_Delete_def os_Remove_def split: option.splits)
  from ds_Write_ok [OF this assms(10)] have "cached_data (ra_cm ?r4) (ra_os ?r4) b k = Some (snd src)" by (simp add: cached_data_def)
  moreover note ok1 = ms_ok_ops(1) [OF assms(1,2,11)]
  note ok2 = ms_ok_ops(2) [OF conjunct1 [OF ok1] conjunct2 [OF ok1] assms(12)]
  have none: "ms_map ms2 (entryKey b k) = None"
    using delete_key_step [OF conjunct1 [OF ok1] assms(12) [unfolded ms_Delete_key]] by auto
  moreover have "mkey x \<noteq> entryKey b k" if "x \<in> set (ms_entries ms2)" for x
    using that none ok2 ms_entries_mem [of ms2 x] ms_wf_entry by (auto simp: mkey_def ms_wf_def)
  ultimately show ?thesis by (intro exI [of _ ?r4]) (simp add: cached_entry_def)
qed


section \<open>Witnesses\<close>

definition race_entry :: CacheEntry where
  "race_entry = (demo_entry ''b'' 5 2)\<lparr>ce_CachedAt := 2\<rparr>"

text \<open>One object is cached and is the evictor's next candidate.\<close>

definition demo_race :: "((string \<times> bytes) list) race" where
  "demo_race = \<lparr>ra_cm = demo_manager [race_entry] [(''b/k'', [])], ra_os = demo_two_os, ra_pc = EvLoop 100 [race_entry],
     ra_lock = Unlocked, ra_puts = []\<rparr>"

lemma demo_race_simps:
  "cm_store (ra_cm demo_race) = demo_store" "ra_os demo_race = demo_two_os" "ra_lock demo_race = Unlocked" "ra_puts demo_race = []"
  "ra_pc demo_race = EvLoop 100 [race_entry]" "temp_ok (ra_os demo_race)"
  by (simp_all add: demo_race_def demo_manager_def demo_temp_ok demo_two_os_def demo_os_def)

lemma demo_race_write: "\<exists>s. ds_Write demo_store b k src demo_two_os = (None, s)"
proof -
  have "fst (ds_Write demo_store b k src demo_two_os) = None"
    by (simp add: ds_Write_def os_MkdirAll_def os_CreateTemp_def io_Copy_def os_Rename_def Let_def demo_two_os_def demo_os_def)
  then show ?thesis by (metis prod.collapse)
qed

theorem race_files_whole_witness:
  "\<exists>r'. race_step\<^sup>*\<^sup>* demo_race r' \<and> cached_data (ra_cm r') (ra_os r') ''b'' ''k'' = Some ''hello''"
proof -
  obtain s where w: "ds_Write demo_store ''b'' ''k'' (''/tmp/f'', ''hello'') demo_two_os = (None, s)" using demo_race_write by blast
  let ?r = "demo_race\<lparr>ra_os := s, ra_lock := PutMeta (cache_entry (ra_cm demo_race) ''b'' ''k'' demo_objmeta 2),
    ra_puts := [(ds_Path demo_store ''b'' ''k'', ''hello'')]\<rparr>"
  have "race_step demo_race ?r"
    using put_file [of demo_race "''b''" "''k''" "(''/tmp/f'', ''hello'')" s demo_objmeta 2] w by (simp add: demo_race_simps)
  then have st: "race_step\<^sup>*\<^sup>* demo_race ?r" by blast
  have "cached_data (ra_cm ?r) (ra_os ?r) ''b'' ''k'' \<noteq> None"
    using ds_Write_ok [OF _ w] demo_race_simps(2,6) by (simp add: cached_data_def demo_race_simps)
  then obtain c where c: "cached_data (ra_cm ?r) (ra_os ?r) ''b'' ''k'' = Some c" by blast
  from race_files_whole [OF st demo_race_simps(6,4) c] have "c = ''hello''" by (simp add: demo_race_simps)
  with st c show ?thesis by blast
qed

text \<open>The object's file is removed, put again, and its new metadata is removed.\<close>

theorem evictor_races_put_witness:
  "\<exists>r'. race_step\<^sup>*\<^sup>* demo_race r' \<and> cached_data (ra_cm r') (ra_os r') ''b'' ''k'' = Some ''hello'' \<and>
     cached_entry (ra_cm r') ''b'' ''k'' = None"
proof -
  let ?m = "cm_meta (ra_cm demo_race)"
  have m: "?m = demo_meta [race_entry] [(''b/k'', [])]" by (simp add: demo_race_def demo_manager_def)
  have ok: "ms_ok ?m" unfolding m by (rule demo_meta_ok)
  have wf: "ms_wf ?m"
    unfolding m by (auto simp: ms_wf_def ms_map_def demo_meta_def alist_bolt_def table_codec_def
        race_entry_def demo_entry_def decode_def entryKey_def split: if_splits)
  have tgt: "targetMark (ev_maxSize (cm_evictor (ra_cm demo_race))) < 100"
    by (simp add: demo_race_def demo_manager_def NewEvictor_def marks_10)
  have e: "''b'' = ce_Bucket race_entry" "''k'' = ce_Key race_entry" by (simp_all add: race_entry_def demo_entry_def)
  let ?s1 = "demo_two_os\<lparr>files := fmdrop (ds_Path demo_store ''b'' ''k'') (files demo_two_os)\<rparr>"
  have d: "ds_Delete (cm_store (ra_cm demo_race)) ''b'' ''k'' (ra_os demo_race) = (None, ?s1)"
    by (simp add: demo_race_simps ds_Delete_def os_Remove_def demo_two_os_def demo_os_def)
  have "fst (ds_Write demo_store ''b'' ''k'' (''/tmp/f'', ''hello'') ?s1) = None"
    by (simp add: ds_Write_def os_MkdirAll_def os_CreateTemp_def io_Copy_def os_Rename_def Let_def demo_two_os_def demo_os_def)
  then obtain s2 where w: "ds_Write (cm_store (ra_cm demo_race)) ''b'' ''k'' (''/tmp/f'', ''hello'') ?s1 = (None, s2)"
    by (metis demo_race_simps(1) prod.collapse)
  have ce: "cache_entry (ra_cm demo_race) ''b'' ''k'' demo_objmeta 2 = race_entry"
    by (simp add: cache_entry_def demo_race_simps race_entry_def demo_entry_def demo_objmeta_def)
  have "fst (ms_Put ?m race_entry) = None"
    unfolding m by (simp add: ms_Put_def ms_update_def demo_meta_def alist_bolt_def table_codec_def Let_def)
  then obtain ms1 where p: "ms_Put ?m (cache_entry (ra_cm demo_race) ''b'' ''k'' demo_objmeta 2) = (None, ms1)"
    unfolding ce by (metis prod.collapse)
  have "ms_bolt ms1 = alist_bolt" using ms_bolt_Put [OF p] by (simp add: m demo_meta_def)
  then have "fst (ms_Delete ms1 ''b'' ''k'') = None" by (simp add: ms_Delete_def ms_update_def alist_bolt_def)
  then obtain ms2 where d2: "ms_Delete ms1 ''b'' ''k'' = (None, ms2)" by (metis prod.collapse)
  from evictor_races_put [OF ok wf demo_race_simps(6,3,5) tgt e d w p d2] show ?thesis by auto
qed

end
